(* ===== verification/Prelude.thy ===== *)
theory Prelude
  imports Complex_Main "HOL-Library.AList" "HOL-Library.Sublist"
begin

text \<open>
  Shared vocabulary of the development: Python dictionaries as association lists in
  insertion order, Python's \<open>round\<close>, the order-preserving deduplication loop that
  three components use, Python's string and character predicates on code points below
  256, and the collections of simplification rules the component theories extend.

  Floats are modelled as \<open>real\<close> numbers (exact arithmetic, no IEEE rounding), Python
  integers as \<open>int\<close>, strings as \<open>string\<close>. Clock readings are arguments.
\<close>

section \<open>Names and collections\<close>

type_synonym seconds = real
type_synonym usd = real
type_synonym tenant_id = string
type_synonym model_id = string

named_theorems dict_simps \<open>lookups in updated Python dictionaries\<close>
named_theorems breaker_simps \<open>field-level effects of the circuit breaker operations\<close>
named_theorems limiter_simps \<open>sliding-window facts of the rate limiter\<close>
named_theorems cache_simps \<open>lookups in the response caches\<close>

section \<open>Python dictionaries in insertion order\<close>

text \<open>
  \<open>d[k] = v\<close> keeps the position of an existing key and appends a new one, which is
  \<open>AList.update\<close>; \<open>d.pop(k, None)\<close> is \<open>AList.delete\<close>; \<open>d.get(k)\<close> is \<open>map_of d k\<close>.
  Every dictionary of the program is built by these operations, so its keys are distinct.
\<close>

type_synonym ('k, 'v) dict = "('k \<times> 'v) list"

definition dict_ok :: "('k, 'v) dict \<Rightarrow> bool" where
  "dict_ok d \<longleftrightarrow> distinct (map fst d)"

lemma dict_ok_Nil [simp]: "dict_ok []"
  by (simp add: dict_ok_def)

lemma dict_ok_update [simp]: "dict_ok d \<Longrightarrow> dict_ok (AList.update k v d)"
  by (simp add: dict_ok_def distinct_update)

lemma dict_ok_delete [simp]: "dict_ok d \<Longrightarrow> dict_ok (AList.delete k d)"
  by (simp add: dict_ok_def distinct_delete)

lemma dict_get_update [dict_simps]:
  "map_of (AList.update k v d) j = (if j = k then Some v else map_of d j)"
  by (simp add: update_conv')

lemma dict_get_delete [dict_simps]:
  "map_of (AList.delete k d) j = (if j = k then None else map_of d j)"
  by (simp add: delete_conv')

lemma dict_get_map_entry [dict_simps]:
  "map_of (AList.map_entry k f d) j = (if j = k then map_option f (map_of d k) else map_of d j)"
  by (induction d) auto

lemma keys_map_entry [simp]: "map fst (AList.map_entry k f d) = map fst d"
  by (induction d) auto

lemma dict_ok_map_entry [simp]: "dict_ok (AList.map_entry k f d) = dict_ok d"
  by (simp add: dict_ok_def)

lemma dict_get_in: "map_of d k = Some v \<Longrightarrow> (k, v) \<in> set d"
  by (rule map_of_SomeD)

lemma dict_get_iff: "dict_ok d \<Longrightarrow> map_of d k = Some v \<longleftrightarrow> (k, v) \<in> set d"
  by (simp add: dict_ok_def)

lemma length_update_dict:
  "length (AList.update k v d) = (if k \<in> fst ` set d then length d else Suc (length d))"
  by (induction d) auto

lemma set_keys_update: "fst ` set (AList.update k v d) = insert k (fst ` set d)"
  by (induction d) auto

lemma subseq_in: "subseq xs ys \<Longrightarrow> x \<in> set xs \<Longrightarrow> x \<in> set ys"
  by (auto elim: list_emb_set)

section \<open>Python's round\<close>

text \<open>
  \<open>round(x, n)\<close> rounds to \<open>n\<close> decimals, ties to the even neighbour.
\<close>

definition round_half_even :: "real \<Rightarrow> int" where
  "round_half_even x =
     (let f = \<lfloor>x\<rfloor>; d = x - of_int f
      in if d < 1 / 2 then f else if 1 / 2 < d then f + 1 else if even f then f else f + 1)"

definition py_round :: "nat \<Rightarrow> real \<Rightarrow> real" where
  "py_round n x = of_int (round_half_even (x * 10 ^ n)) / 10 ^ n"

lemma round_half_even_error: "\<bar>of_int (round_half_even x) - x\<bar> \<le> 1 / 2"
  using floor_correct [of x] by (auto simp: round_half_even_def Let_def)

lemma round_half_even_of_int [simp]: "round_half_even (of_int i) = i"
  by (simp add: round_half_even_def)

lemma round_half_even_0 [simp]: "round_half_even 0 = 0"
  using round_half_even_of_int [of 0] by simp

lemma round_half_even_mono:
  assumes "x \<le> y" shows "round_half_even x \<le> round_half_even y"
proof (cases "\<lfloor>x\<rfloor> = \<lfloor>y\<rfloor>")
  case True
  with assms show ?thesis by (auto simp: round_half_even_def Let_def)
next
  case False
  with assms have "\<lfloor>x\<rfloor> + 1 \<le> \<lfloor>y\<rfloor>" using floor_mono [OF assms] by linarith
  moreover have "round_half_even x \<le> \<lfloor>x\<rfloor> + 1" and "\<lfloor>y\<rfloor> \<le> round_half_even y"
    by (auto simp: round_half_even_def Let_def)
  ultimately show ?thesis by linarith
qed

lemma py_round_mono: "x \<le> y \<Longrightarrow> py_round n x \<le> py_round n y"
  by (simp add: py_round_def divide_right_mono round_half_even_mono)

lemma py_round_0 [simp]: "py_round n 0 = 0"
  by (simp add: py_round_def)

lemma py_round_nonneg: "0 \<le> x \<Longrightarrow> 0 \<le> py_round n x"
  using py_round_mono [of 0 x n] by simp

lemma py_round_error: "\<bar>py_round n x - x\<bar> \<le> 1 / (2 * 10 ^ n)"
proof -
  have "py_round n x - x = (of_int (round_half_even (x * 10 ^ n)) - x * 10 ^ n) / 10 ^ n"
    by (simp add: py_round_def diff_divide_distrib)
  then have "\<bar>py_round n x - x\<bar> = \<bar>of_int (round_half_even (x * 10 ^ n)) - x * 10 ^ n\<bar> / 10 ^ n"
    by simp
  also have "\<dots> \<le> (1 / 2) / 10 ^ n"
    by (intro divide_right_mono round_half_even_error) simp
  finally show ?thesis by simp
qed

section \<open>Order-preserving deduplication\<close>

text \<open>
  The loop \<open>seen = set(); for x in xs: if key(x) not in seen: seen.add(key(x)); out.append(x)\<close>,
  which the key store, the provider registry and the guardrails all use.
\<close>

primrec dedup_by :: "('a \<Rightarrow> 'k) \<Rightarrow> 'k list \<Rightarrow> 'a list \<Rightarrow> 'a list" where
  "dedup_by f seen [] = []"
| "dedup_by f seen (x # xs) =
     (if f x \<in> set seen then dedup_by f seen xs else x # dedup_by f (f x # seen) xs)"

lemma set_dedup_by: "f ` set (dedup_by f seen xs) = f ` set xs - set seen"
  by (induction xs arbitrary: seen) auto

lemma distinct_dedup_by: "distinct (map f (dedup_by f seen xs))"
proof (induction xs arbitrary: seen)
  case (Cons x xs)
  have "f x \<notin> f ` set (dedup_by f (f x # seen) xs)" by (simp add: set_dedup_by)
  with Cons show ?case by simp
qed simp

lemma subseq_dedup_by: "subseq (dedup_by f seen xs) xs"
  by (induction xs arbitrary: seen) auto

lemma dedup_by_first:
  "x \<in> set (dedup_by f seen xs) \<Longrightarrow>
     \<exists>us vs. xs = us @ x # vs \<and> f x \<notin> f ` set us \<and> f x \<notin> set seen"
proof (induction xs arbitrary: seen)
  case (Cons y ys)
  show ?case
  proof (cases "x = y \<and> f y \<notin> set seen")
    case True
    then show ?thesis by (intro exI [of _ "[]"] exI [of _ ys]) simp
  next
    case False
    with Cons.prems obtain seen' where "x \<in> set (dedup_by f seen' ys)"
      and s: "set seen \<subseteq> set seen'" "f y \<in> set seen'"
      by (cases "f y \<in> set seen") (fastforce split: if_splits)+
    then obtain us vs where "ys = us @ x # vs" "f x \<notin> f ` set us" "f x \<notin> set seen'"
      using Cons.IH by blast
    with s show ?thesis by (intro exI [of _ "y # us"] exI [of _ vs]) auto
  qed
qed simp

lemma dedup_by_nil_eq: "distinct (map f xs) \<Longrightarrow> f ` set xs \<inter> set seen = {} \<Longrightarrow> dedup_by f seen xs = xs"
  by (induction xs arbitrary: seen) auto

end
