(* ===== verification/Py_Strings.thy ===== *)
theory Py_Strings
  imports Prelude "HOL-Library.Char_ord"
begin

text \<open>
  Python strings over the code points below 256 (\<open>string\<close>, one \<open>char\<close> per code point):
  the character classes of the \<open>str\<close> methods and of \<open>re\<close> on that range, \<open>lower\<close>,
  decimal printing and \<open>split(sep, 1)\<close>. The classes are Python's own on this range
  (superscript digits and fractions count as alphanumeric, but only 0-9 match \<open>\d\<close>).
\<close>

section \<open>Character classes\<close>

definition in_range :: "nat \<Rightarrow> nat \<Rightarrow> char \<Rightarrow> bool" where
  "in_range a b c \<longleftrightarrow> a \<le> of_char c \<and> of_char c \<le> b"

definition is_digit :: "char \<Rightarrow> bool" where
  "is_digit c \<longleftrightarrow> in_range 48 57 c"

definition is_ascii_letter :: "char \<Rightarrow> bool" where
  "is_ascii_letter c \<longleftrightarrow> in_range 65 90 c \<or> in_range 97 122 c"

text \<open>\<open>str.isalnum\<close> on code points below 256.\<close>

definition is_alnum :: "char \<Rightarrow> bool" where
  "is_alnum c \<longleftrightarrow> is_digit c \<or> is_ascii_letter c
     \<or> of_char c \<in> {0xAA, 0xB2, 0xB3, 0xB5, 0xB9, 0xBA, 0xBC, 0xBD, 0xBE :: nat}
     \<or> in_range 0xC0 0xD6 c \<or> in_range 0xD8 0xF6 c \<or> in_range 0xF8 0xFF c"

text \<open>\<open>\w\<close> of \<open>re\<close>: alphanumeric or underscore.\<close>

definition is_word :: "char \<Rightarrow> bool" where
  "is_word c \<longleftrightarrow> is_alnum c \<or> c = CHR ''_''"

text \<open>\<open>str.isspace\<close> on code points below 256.\<close>

definition is_space :: "char \<Rightarrow> bool" where
  "is_space c \<longleftrightarrow> in_range 0x09 0x0D c \<or> in_range 0x1C 0x20 c \<or> of_char c \<in> {0x85, 0xA0 :: nat}"

definition lower_char :: "char \<Rightarrow> char" where
  "lower_char c =
     (if in_range 65 90 c \<or> in_range 0xC0 0xD6 c \<or> in_range 0xD8 0xDE c
      then char_of (of_char c + 32 :: nat) else c)"

definition lower :: "string \<Rightarrow> string" where
  "lower s = map lower_char s"

lemmas char_class_defs = in_range_def is_digit_def is_ascii_letter_def is_alnum_def
  is_word_def is_space_def

lemma digit_is_word: "is_digit c \<Longrightarrow> is_word c"
  by (simp add: is_word_def is_alnum_def)

section \<open>Decimal printing\<close>

definition digit_char :: "nat \<Rightarrow> char" where
  "digit_char d = char_of (48 + d)"

fun show_nat :: "nat \<Rightarrow> string" where
  "show_nat n = (if n < 10 then [digit_char n] else show_nat (n div 10) @ [digit_char (n mod 10)])"

declare show_nat.simps [simp del]

definition show_int :: "int \<Rightarrow> string" where
  "show_int i = (if i < 0 then CHR ''-'' # show_nat (nat (- i)) else show_nat (nat i))"

lemma show_nat_digits: "\<forall>c \<in> set (show_nat n). is_digit c"
proof (induction n rule: show_nat.induct)
  case (1 n)
  have d: "d < 10 \<Longrightarrow> is_digit (digit_char d)" for d
    by (simp add: digit_char_def is_digit_def in_range_def)
  show ?case
  proof (cases "n < 10")
    case True
    then show ?thesis by (simp add: show_nat.simps [of n] d)
  next
    case False
    with "1" show ?thesis by (simp add: show_nat.simps [of n] d)
  qed
qed

lemma show_nat_nonempty: "show_nat n \<noteq> []"
  by (subst show_nat.simps) simp

section \<open>Splitting at the first separator\<close>

text \<open>
  \<open>s.split(sep, 1)\<close>: \<open>None\<close> when the separator does not occur (Python returns a
  one-element list), otherwise what stands before and after its first occurrence.
\<close>

fun split_once :: "string \<Rightarrow> string \<Rightarrow> (string \<times> string) option" where
  "split_once sep [] = (if sep = [] then Some ([], []) else None)"
| "split_once sep (c # cs) =
     (if prefix sep (c # cs) then Some ([], drop (length sep) (c # cs))
      else map_option (\<lambda>(a, b). (c # a, b)) (split_once sep cs))"

lemma split_once_Some: "split_once sep s = Some (a, b) \<Longrightarrow> s = a @ sep @ b"
proof (induction sep s arbitrary: a rule: split_once.induct)
  case (2 sep c cs)
  then show ?case
    by (auto simp: prefix_def split: if_splits)
qed (simp split: if_splits)

lemma split_once_None: "split_once sep s = None \<longleftrightarrow> \<not> sublist sep s"
proof (induction sep s rule: split_once.induct)
  case (2 sep c cs)
  then show ?case by (auto simp: sublist_Cons_right)
qed auto

lemma split_once_char:
  "c \<notin> set a \<Longrightarrow> split_once [c] (a @ c # b) = Some (a, b)"
  by (induction a) auto

lemma split_once_skip:
  "hd sep \<notin> set a \<Longrightarrow> sep \<noteq> [] \<Longrightarrow> split_once sep (a @ sep @ b) = Some (a, b)"
proof (induction a)
  case Nil
  then show ?case by (cases sep) auto
next
  case (Cons x xs)
  then show ?case by (cases sep) auto
qed

end
