(* ===== verification/Json.thy ===== *)
theory Json
  imports Py_Strings
begin

text \<open>
  The JSON values the gateway reads from upstream responses and writes to clients, with the
  Python operations the source applies to them (\<open>get\<close>, \<open>or\<close>, \<open>[0]\<close>, \<open>int\<close>, iteration).
  Each raises the exception Python raises on a value of the wrong shape, as \<open>Inl\<close>.
\<close>

datatype py_exc = KeyError | TypeError | AttributeError | ValueError | IndexError | AssertionError

datatype json =
    JNull
  | JBool bool
  | JInt int
  | JFloat real
  | JStr string
  | JList "json list"
  | JObj "(string \<times> json) list"

definition res_bind :: "'e + 'a \<Rightarrow> ('a \<Rightarrow> 'e + 'b) \<Rightarrow> 'e + 'b" where
  "res_bind r f = (case r of Inl e \<Rightarrow> Inl e | Inr x \<Rightarrow> f x)"

lemma res_bind_simps [simp]:
  "res_bind (Inl e) f = Inl e"
  "res_bind (Inr x) f = f x"
  by (simp_all add: res_bind_def)

lemma res_bind_eq_Inr: "res_bind r f = Inr y \<longleftrightarrow> (\<exists>x. r = Inr x \<and> f x = Inr y)"
  by (cases r) auto

section \<open>Truth value, or, get, indexing\<close>

fun truthy :: "json \<Rightarrow> bool" where
  "truthy JNull = False"
| "truthy (JBool b) = b"
| "truthy (JInt i) = (i \<noteq> 0)"
| "truthy (JFloat x) = (x \<noteq> 0)"
| "truthy (JStr s) = (s \<noteq> [])"
| "truthy (JList xs) = (xs \<noteq> [])"
| "truthy (JObj d) = (d \<noteq> [])"

definition py_or :: "json \<Rightarrow> json \<Rightarrow> json" where
  "py_or a b = (if truthy a then a else b)"

definition jget :: "json \<Rightarrow> string \<Rightarrow> json \<Rightarrow> py_exc + json" where
  "jget j k dflt = (case j of
       JObj d \<Rightarrow> Inr (case map_of d k of None \<Rightarrow> dflt | Some v \<Rightarrow> v)
     | _ \<Rightarrow> Inl AttributeError)"

text \<open>\<open>j[0]\<close>\<close>

fun jfirst :: "json \<Rightarrow> py_exc + json" where
  "jfirst (JList (x # xs)) = Inr x"
| "jfirst (JList []) = Inl IndexError"
| "jfirst (JStr (c # cs)) = Inr (JStr [c])"
| "jfirst (JStr []) = Inl IndexError"
| "jfirst (JObj d) = Inl KeyError"
| "jfirst _ = Inl TypeError"

text \<open>\<open>for x in j\<close>: lists give their elements, strings their characters, objects their keys.\<close>

fun jiter :: "json \<Rightarrow> py_exc + json list" where
  "jiter (JList xs) = Inr xs"
| "jiter (JStr s) = Inr (map (\<lambda>c. JStr [c]) s)"
| "jiter (JObj d) = Inr (map (JStr \<circ> fst) d)"
| "jiter _ = Inl TypeError"

section \<open>int\<close>

definition digit_val :: "char \<Rightarrow> int" where
  "digit_val c = of_char c - 48"

text \<open>
  \<open>int(s)\<close> of a string: surrounding white space, an optional sign, and digits with single
  underscores between them. The flag records whether the last character was a digit.
\<close>

fun int_digits :: "bool \<Rightarrow> int \<Rightarrow> string \<Rightarrow> int option" where
  "int_digits d acc [] = (if d then Some acc else None)"
| "int_digits d acc (c # cs) =
     (if is_digit c then int_digits True (10 * acc + digit_val c) cs
      else if c = CHR ''_'' \<and> d then int_digits False acc cs else None)"

definition strip :: "string \<Rightarrow> string" where
  "strip s = rev (dropWhile is_space (rev (dropWhile is_space s)))"

definition int_of_str :: "string \<Rightarrow> int option" where
  "int_of_str s = (case strip s of
       [] \<Rightarrow> None
     | c # cs \<Rightarrow> if c = CHR ''-'' then map_option uminus (int_digits False 0 cs)
                else if c = CHR ''+'' then int_digits False 0 cs
                else int_digits False 0 (c # cs))"

definition trunc :: "real \<Rightarrow> int" where
  "trunc x = (if 0 \<le> x then \<lfloor>x\<rfloor> else \<lceil>x\<rceil>)"

fun jint :: "json \<Rightarrow> py_exc + int" where
  "jint (JInt i) = Inr i"
| "jint (JBool b) = Inr (if b then 1 else 0)"
| "jint (JFloat x) = Inr (trunc x)"
| "jint (JStr s) = (case int_of_str s of None \<Rightarrow> Inl ValueError | Some i \<Rightarrow> Inr i)"
| "jint _ = Inl TypeError"

lemma int_digits_append:
  "\<forall>c \<in> set xs. is_digit c \<Longrightarrow>
     int_digits d acc (xs @ ys) =
       int_digits (d \<or> xs \<noteq> []) (fold (\<lambda>c a. 10 * a + digit_val c) xs acc) ys"
  by (induction xs arbitrary: d acc) (auto simp: fold_Cons)

lemma digit_val_digit_char: "n < 10 \<Longrightarrow> digit_val (digit_char n) = int n"
proof -
  assume "n < 10"
  then have "of_char (char_of (48 + n)) = (48 + n :: nat)" by simp
  then have "of_char (char_of (48 + n)) = (48 + int n :: int)"
    by (metis of_char_of of_nat_add of_nat_numeral of_nat_of_char)
  then show ?thesis by (simp add: digit_val_def digit_char_def)
qed

lemma fold_show_nat: "fold (\<lambda>c a. 10 * a + digit_val c) (show_nat n) 0 = int n"
proof (induction n rule: show_nat.induct)
  case (1 n)
  show ?case
  proof (cases "n < 10")
    case True
    then show ?thesis by (simp add: show_nat.simps [of n] digit_val_digit_char)
  next
    case False
    with "1" show ?thesis
      by (simp add: show_nat.simps [of n] digit_val_digit_char zdiv_int zmod_int)
  qed
qed

lemma digit_not_space: "is_digit c \<Longrightarrow> \<not> is_space c"
  by (auto simp: char_class_defs)

lemma strip_no_space: "\<forall>c \<in> set s. \<not> is_space c \<Longrightarrow> strip s = s"
  by (simp add: strip_def) (metis dropWhile_eq_self_iff hd_in_set rev_rev_ident set_rev)

lemma int_of_str_show_nat: "int_of_str (show_nat n) = Some (int n)"
proof -
  have "strip (show_nat n) = show_nat n"
    using show_nat_digits [of n] by (intro strip_no_space) (auto dest: digit_not_space)
  moreover obtain c cs where c: "show_nat n = c # cs"
    using show_nat_nonempty [of n] by (cases "show_nat n") auto
  moreover have "is_digit c" using show_nat_digits [of n] c by simp
  then have "c \<noteq> CHR ''-''" "c \<noteq> CHR ''+''" by (auto simp: is_digit_def in_range_def)
  moreover have "int_digits False 0 (show_nat n) = Some (int n)"
    using int_digits_append [of "show_nat n" False 0 "[]"] show_nat_digits [of n]
    by (simp add: fold_show_nat show_nat_nonempty)
  ultimately show ?thesis by (simp add: int_of_str_def)
qed

end
