(* ===== verification/Config.thy ===== *)
theory Config
  imports Py_Strings
begin

text \<open>
  \<open>core/config.py\<close>: the settings the gateway reads, with their defaults. Reading them from the
  environment and a \<open>.env\<close> file is pydantic-settings' work and is not modelled; the rest of the
  development takes a settings record.
\<close>

record settings =
  app_name :: string
  app_version :: string
  app_env :: string
  app_debug :: bool
  log_level :: string
  backend_host :: string
  backend_port :: int
  aws_region :: string
  aws_access_key_id :: "string option"
  aws_secret_access_key :: "string option"
  aws_profile :: "string option"
  bedrock_enabled :: bool
  openai_enabled :: bool
  openai_api_key :: "string option"
  openai_base_url :: string
  anthropic_enabled :: bool
  anthropic_api_key :: "string option"
  settings_default_model :: string
  fallback_enabled :: bool
  request_timeout_seconds :: real
  circuit_breaker_failure_threshold :: int
  circuit_breaker_recovery_seconds :: int
  redis_url :: "string option"
  database_url :: "string option"
  auth_enabled :: bool
  admin_api_key :: "string option"
  guardrails_enabled :: bool
  guardrails_redact_pii :: bool
  semantic_cache_enabled :: bool
  semantic_cache_threshold :: real
  semantic_cache_ttl_seconds :: int
  semantic_cache_mode :: string
  semantic_cache_max_entries :: int
  cors_origins :: "string list"

definition default_settings :: settings where
  "default_settings =
     \<lparr>app_name = ''LLM Gateway'', app_version = ''0.1.0'', app_env = ''development'',
      app_debug = True, log_level = ''INFO'', backend_host = ''0.0.0.0'', backend_port = 8000,
      aws_region = ''us-east-1'', aws_access_key_id = None, aws_secret_access_key = None,
      aws_profile = None, bedrock_enabled = True, openai_enabled = False,
      openai_api_key = None, openai_base_url = ''https://api.openai.com/v1'',
      anthropic_enabled = False, anthropic_api_key = None, settings_default_model = ''auto'',
      fallback_enabled = True, request_timeout_seconds = 60,
      circuit_breaker_failure_threshold = 5, circuit_breaker_recovery_seconds = 30,
      redis_url = None, database_url = None, auth_enabled = False, admin_api_key = None,
      guardrails_enabled = False, guardrails_redact_pii = True,
      semantic_cache_enabled = False, semantic_cache_threshold = 95 / 100,
      semantic_cache_ttl_seconds = 3600, semantic_cache_mode = ''exact'',
      semantic_cache_max_entries = 1000,
      cors_origins = [''http://localhost:8501'', ''http://localhost:3000'']\<rparr>"

definition is_production :: "settings \<Rightarrow> bool" where
  "is_production s \<longleftrightarrow> lower (app_env s) = ''production''"

text \<open>\<open>if s:\<close> for an optional string\<close>

definition given :: "string option \<Rightarrow> bool" where
  "given s \<longleftrightarrow> s \<noteq> None \<and> s \<noteq> Some []"

lemma given_Some [simp]: "given (Some s) \<longleftrightarrow> s \<noteq> []"
  and given_None [simp]: "\<not> given None"
  by (simp_all add: given_def)

end
