(* ===== verification/Db_Url.thy ===== *)
theory Db_Url
  imports Json Config
begin

text \<open>
  \<open>_resolve_url\<close> and \<open>_redacted_url\<close> of \<open>usage/db.py\<close>: how the database URL is composed from the
  environment, and what of it is written to the log at startup. \<open>environ\<close> is \<open>os.environ.get\<close>.
\<close>

definition env_or :: "(string \<Rightarrow> string option) \<Rightarrow> string \<Rightarrow> string \<Rightarrow> string" where
  "env_or environ k dflt = (case environ k of None \<Rightarrow> dflt | Some s \<Rightarrow> s)"

text \<open>\<open>urllib.parse.quote_plus\<close>: the UTF-8 bytes of every character that is not unreserved.\<close>

definition utf8 :: "char \<Rightarrow> nat list" where
  "utf8 c = (let n = of_char c :: nat in if n < 128 then [n] else [192 + n div 64, 128 + n mod 64])"

definition upper_hex :: "nat \<Rightarrow> char" where
  "upper_hex d = (if d < 10 then char_of (48 + d) else char_of (55 + d))"

definition quote_char :: "char \<Rightarrow> string" where
  "quote_char c =
     (if is_digit c \<or> is_ascii_letter c \<or> c \<in> {CHR ''_'', CHR ''.'', CHR ''-'', CHR ''~''} then [c]
      else if c = CHR '' '' then ''+''
      else concat (map (\<lambda>b. [CHR ''%'', upper_hex (b div 16), upper_hex (b mod 16)]) (utf8 c)))"

definition quote_plus :: "string \<Rightarrow> string" where
  "quote_plus s = concat (map quote_char s)"

definition resolve_url :: "(string \<Rightarrow> string option) \<Rightarrow> settings \<Rightarrow> string" where
  "resolve_url environ s =
     (let host = environ ''DB_HOST''
      in if given host
         then (let user = quote_plus (env_or environ ''DB_USERNAME'' '''');
                   pw = quote_plus (env_or environ ''DB_PASSWORD'' '''');
                   port = env_or environ ''DB_PORT'' ''5432'';
                   name = env_or environ ''DB_NAME'' ''''
               in ''postgresql+asyncpg://'' @ user @ '':'' @ pw @ ''@'' @ the host @ '':'' @ port
                  @ ''/'' @ name @ ''?ssl=require'')
         else if given (database_url s) then the (database_url s)
         else ''sqlite+aiosqlite:///:memory:'')"

text \<open>Unpacking a \<open>split\<close> that found no separator raises \<open>ValueError\<close>.\<close>

definition redacted_url :: "(string \<Rightarrow> string option) \<Rightarrow> settings \<Rightarrow> py_exc + string" where
  "redacted_url environ s =
     (let url = resolve_url environ s
      in if CHR ''@'' \<notin> set url then Inr url
         else (case split_once ''://'' url of
             None \<Rightarrow> Inl ValueError
           | Some (scheme, rest) \<Rightarrow> (case split_once ''@'' rest of
                 None \<Rightarrow> Inl ValueError
               | Some (creds, host) \<Rightarrow> Inr (scheme @ ''://***@'' @ host))))"

section \<open>Quoting leaves no delimiter\<close>

text \<open>The characters a quoted string can contain.\<close>

definition url_safe :: "char \<Rightarrow> bool" where
  "url_safe c \<longleftrightarrow> is_digit c \<or> is_ascii_letter c \<or> c \<in> set ''_.-~+%''"

lemma upper_hex_safe: "d < 16 \<Longrightarrow> url_safe (upper_hex d)"
  by (auto simp: url_safe_def upper_hex_def char_class_defs)

lemma utf8_byte:
  assumes "b \<in> set (utf8 c)"
  shows "b < 256"
proof -
  have "of_char c div 64 < (4 :: nat)" by (rule less_mult_imp_div_less) simp
  with assms show ?thesis by (auto simp: utf8_def Let_def split: if_splits)
qed

lemma quote_char_safe: "x \<in> set (quote_char c) \<Longrightarrow> url_safe x"
proof -
  have "url_safe (upper_hex (b div 16))" "url_safe (upper_hex (b mod 16))" if "b \<in> set (utf8 c)" for b
    using utf8_byte [OF that] by (auto intro!: upper_hex_safe)
  then show "x \<in> set (quote_char c) \<Longrightarrow> url_safe x"
    by (auto simp: quote_char_def split: if_splits) (auto simp: url_safe_def)
qed

lemma quote_plus_safe: "x \<in> set (quote_plus s) \<Longrightarrow> url_safe x"
  by (auto simp: quote_plus_def dest: quote_char_safe)

lemma at_not_safe [simp]: "\<not> url_safe (CHR ''@'')" "\<not> url_safe (CHR ''/'')" "\<not> url_safe (CHR '':'')"
  by (simp_all add: url_safe_def char_class_defs)

section \<open>Properties\<close>

text \<open>
  Credentials from the environment never reach the log: when the URL is composed from
  \<open>DB_HOST\<close>, whatever characters the user name and the password contain, the redacted URL is
  the same for all of them: scheme, three stars, and the host part.
\<close>

theorem redacted_url_hides_credentials:
  assumes "environ ''DB_HOST'' = Some host" "host \<noteq> []"
  shows "redacted_url environ s = Inr (''postgresql+asyncpg://***@'' @ host @ '':''
    @ env_or environ ''DB_PORT'' ''5432'' @ ''/'' @ env_or environ ''DB_NAME'' '''' @ ''?ssl=require'')"
proof -
  define creds where "creds = quote_plus (env_or environ ''DB_USERNAME'' '''') @ '':''
    @ quote_plus (env_or environ ''DB_PASSWORD'' '''')"
  define tail where "tail = host @ '':'' @ env_or environ ''DB_PORT'' ''5432'' @ ''/''
    @ env_or environ ''DB_NAME'' '''' @ ''?ssl=require''"
  have "resolve_url environ s = ''postgresql+asyncpg'' @ ''://'' @ (creds @ ''@'' @ tail)"
    using assms by (simp add: resolve_url_def creds_def tail_def Let_def)
  moreover have "split_once ''://'' (''postgresql+asyncpg'' @ ''://'' @ (creds @ ''@'' @ tail))
      = Some (''postgresql+asyncpg'', creds @ ''@'' @ tail)"
    by (rule split_once_skip) simp_all
  moreover have "CHR ''@'' \<notin> set creds"
    by (auto simp: creds_def dest: quote_plus_safe)
  then have "split_once ''@'' (creds @ ''@'' @ tail) = Some (creds, tail)"
    by (simp add: split_once_char)
  ultimately show ?thesis by (simp add: redacted_url_def Let_def tail_def)
qed

theorem redacted_url_hides_credentials_witness:
  "redacted_url [''DB_HOST'' \<mapsto> ''h'', ''DB_USERNAME'' \<mapsto> ''u'', ''DB_PASSWORD'' \<mapsto> ''p@ss:w/d'']
     default_settings = Inr ''postgresql+asyncpg://***@h:5432/?ssl=require''"
  using redacted_url_hides_credentials [of "[''DB_HOST'' \<mapsto> ''h'', ''DB_USERNAME'' \<mapsto> ''u'',
      ''DB_PASSWORD'' \<mapsto> ''p@ss:w/d'']" "''h''" default_settings]
  by (simp add: env_or_def)

text \<open>
  A URL given whole is cut at the first \<open>@\<close>: the part of an unencoded password after an \<open>@\<close> of
  its own stays in the log.
\<close>

lemma redacted_url_leaks_after_at:
  "redacted_url (\<lambda>_. None) (default_settings\<lparr>database_url := Some ''pg://u:p@ss@h/db''\<rparr>)
     = Inr ''pg://***@ss@h/db''"
  by (simp add: redacted_url_def resolve_url_def given_def Let_def)

end
