(* ===== verification/Schemas.thy ===== *)
theory Schemas
  imports Json
begin

text \<open>
  The request and response models of \<open>api/schemas.py\<close> as records, with the constraints the
  \<open>Field\<close> declarations put on a request. Field names carry a prefix where two models share
  a name, because record fields are global in HOL.
\<close>

section \<open>Chat completion requests\<close>

datatype role = System | User | Assistant | Tool

datatype content = Text string | Parts "json list"

record chat_message =
  role :: role
  content :: content
  msg_name :: "string option"
  tool_call_id :: "string option"

datatype stop_spec = StopOne string | StopMany "string list"

record chat_request =
  model :: model_id
  messages :: "chat_message list"
  temperature :: "real option"
  max_tokens :: "int option"
  top_p :: "real option"
  stream :: bool
  stop :: "stop_spec option"
  user :: "string option"
  metadata :: "(string, json) dict option"

text \<open>The \<open>Field\<close> constraints (\<open>ge\<close>, \<open>le\<close>, \<open>gt\<close>) pydantic enforces before a handler runs.\<close>

definition request_ok :: "chat_request \<Rightarrow> bool" where
  "request_ok r \<longleftrightarrow>
     (case temperature r of None \<Rightarrow> True | Some t \<Rightarrow> 0 \<le> t \<and> t \<le> 2)
     \<and> (case max_tokens r of None \<Rightarrow> True | Some n \<Rightarrow> 0 < n)
     \<and> (case top_p r of None \<Rightarrow> True | Some p \<Rightarrow> 0 \<le> p \<and> p \<le> 1)"

text \<open>The request a client sends with only \<open>model\<close> and \<open>messages\<close>: every other field its default.\<close>

definition plain_request :: "model_id \<Rightarrow> chat_message list \<Rightarrow> chat_request" where
  "plain_request m ms =
     \<lparr>model = m, messages = ms, temperature = None, max_tokens = None, top_p = None,
      stream = False, stop = None, user = None, metadata = None\<rparr>"

definition plain_message :: "role \<Rightarrow> string \<Rightarrow> chat_message" where
  "plain_message r t = \<lparr>role = r, content = Text t, msg_name = None, tool_call_id = None\<rparr>"

lemma plain_request_ok [simp]: "request_ok (plain_request m ms)"
  by (simp add: request_ok_def plain_request_def)

section \<open>Chat completion responses\<close>

record usage =
  prompt_tokens :: int
  completion_tokens :: int
  total_tokens :: int

record choice_message =
  cm_role :: string
  cm_content :: "string option"

record choice =
  index :: int
  message :: choice_message
  finish_reason :: "string option"

datatype cache_status = CacheHit | CacheMiss | CacheBypass

record gateway_meta =
  gm_provider :: string
  gm_upstream_model :: model_id
  gm_latency_ms :: real
  gm_cache :: cache_status
  gm_fallback_used :: bool
  gm_attempts :: "string list"
  gm_cost_usd :: "usd option"

record chat_response =
  resp_id :: string
  resp_created :: int
  resp_model :: model_id
  choices :: "choice list"
  resp_usage :: usage
  gateway :: "gateway_meta option"

section \<open>Models and health endpoints\<close>

record model_info =
  mi_id :: model_id
  mi_created :: int
  mi_owned_by :: string

datatype circuit_state = Closed | Open | HalfOpen

record provider_health =
  ph_name :: string
  ph_healthy :: bool
  ph_circuit :: circuit_state

record health_response =
  hr_status :: string
  hr_version :: string
  hr_providers :: "provider_health list"

end
