(* ===== verification/Breaker.thy ===== *)
theory Breaker
  imports Schemas
begin

text \<open>
  The circuit breaker of \<open>providers/registry.py\<close>: its three operations, the machine they
  form, the invariant of that machine, and what it promises to a caller (it opens exactly at
  the threshold, an open circuit rejects until its recovery time, and what half-open admits).
\<close>

record breaker =
  failure_threshold :: int
  recovery_seconds :: int
  failures :: int
  cstate :: circuit_state
  opened_at :: seconds

definition new_breaker :: "int \<Rightarrow> int \<Rightarrow> breaker" where
  "new_breaker thr rec =
     \<lparr>failure_threshold = thr, recovery_seconds = rec, failures = 0, cstate = Closed,
      opened_at = 0\<rparr>"

definition record_success :: "breaker \<Rightarrow> breaker" where
  "record_success b = b\<lparr>failures := 0, cstate := Closed\<rparr>"

text \<open>\<open>now\<close> is the reading of \<open>time.monotonic()\<close> the call makes, if it makes one.\<close>

definition record_failure :: "seconds \<Rightarrow> breaker \<Rightarrow> breaker" where
  "record_failure now b =
     (let b' = b\<lparr>failures := failures b + 1\<rparr>
      in if failure_threshold b' \<le> failures b'
         then b'\<lparr>cstate := Open, opened_at := now\<rparr> else b')"

definition allow :: "seconds \<Rightarrow> breaker \<Rightarrow> bool \<times> breaker" where
  "allow now b = (case cstate b of
       Closed \<Rightarrow> (True, b)
     | Open \<Rightarrow> (if of_int (recovery_seconds b) \<le> now - opened_at b
                then (True, b\<lparr>cstate := HalfOpen\<rparr>) else (False, b))
     | HalfOpen \<Rightarrow> (True, b))"

section \<open>The machine the operations form\<close>

datatype breaker_event = Success | Failure seconds | Allow seconds

inductive cb_step :: "breaker \<Rightarrow> breaker_event \<Rightarrow> breaker \<Rightarrow> bool" where
  success: "cb_step b Success (record_success b)"
| failure: "cb_step b (Failure now) (record_failure now b)"
| allow: "cb_step b (Allow now) (snd (allow now b))"

inductive_simps cb_step_simps [breaker_simps]:
  "cb_step b Success b'" "cb_step b (Failure now) b'" "cb_step b (Allow now) b'"

inductive_cases cb_stepE: "cb_step b e b'"

inductive cb_run :: "breaker \<Rightarrow> breaker_event list \<Rightarrow> breaker \<Rightarrow> bool" where
  nil: "cb_run b [] b"
| cons: "cb_step b e b' \<Longrightarrow> cb_run b' es b'' \<Longrightarrow> cb_run b (e # es) b''"

inductive_simps cb_run_simps [breaker_simps]:
  "cb_run b [] b'" "cb_run b (e # es) b'"

code_pred cb_run .

lemma breaker_fields [breaker_simps]:
  "failures (record_success b) = 0"
  "cstate (record_success b) = Closed"
  "failures (record_failure now b) = failures b + 1"
  "failures (snd (allow now b)) = failures b"
  "failure_threshold (record_success b) = failure_threshold b"
  "failure_threshold (record_failure now b) = failure_threshold b"
  "failure_threshold (snd (allow now b)) = failure_threshold b"
  "recovery_seconds (record_success b) = recovery_seconds b"
  "recovery_seconds (record_failure now b) = recovery_seconds b"
  "recovery_seconds (snd (allow now b)) = recovery_seconds b"
  by (simp_all add: record_success_def record_failure_def allow_def Let_def
      split: circuit_state.split)

lemma cstate_record_failure [breaker_simps]:
  "cstate (record_failure now b) =
     (if failure_threshold b \<le> failures b + 1 then Open else cstate b)"
  by (simp add: record_failure_def Let_def)

lemma allow_closed [simp]: "cstate b = Closed \<Longrightarrow> allow now b = (True, b)"
  and allow_half_open [simp]: "cstate b = HalfOpen \<Longrightarrow> allow now b = (True, b)"
  by (simp_all add: allow_def)

lemma allow_fst:
  "fst (allow now b) \<longleftrightarrow>
     cstate b \<noteq> Open \<or> of_int (recovery_seconds b) \<le> now - opened_at b"
  by (simp add: allow_def split: circuit_state.split)

lemma allow_not_open: "fst (allow now b) \<Longrightarrow> cstate (snd (allow now b)) \<noteq> Open"
  by (simp add: allow_def split: circuit_state.splits if_splits)

lemma allow_refused: "\<not> fst (allow now b) \<Longrightarrow> snd (allow now b) = b"
  by (simp add: allow_def split: circuit_state.splits if_splits)

section \<open>Invariant\<close>

text \<open>
  A breaker is closed exactly while its failure count is below the threshold; the
  configured threshold and recovery time never change.
\<close>

definition breaker_inv :: "breaker \<Rightarrow> bool" where
  "breaker_inv b \<longleftrightarrow> 0 < failure_threshold b \<and> 0 \<le> failures b
     \<and> (cstate b = Closed \<longleftrightarrow> failures b < failure_threshold b)"

lemma breaker_inv_new: "0 < thr \<Longrightarrow> breaker_inv (new_breaker thr rec)"
  by (simp add: breaker_inv_def new_breaker_def)

lemma breaker_inv_success [intro]: "breaker_inv b \<Longrightarrow> breaker_inv (record_success b)"
  by (simp add: breaker_inv_def breaker_simps)

lemma breaker_inv_failure [intro]: "breaker_inv b \<Longrightarrow> breaker_inv (record_failure now b)"
  by (auto simp: breaker_inv_def breaker_simps)

lemma breaker_inv_allow [intro]: "breaker_inv b \<Longrightarrow> breaker_inv (snd (allow now b))"
  by (auto simp: breaker_inv_def allow_def split: circuit_state.splits)

lemma cb_step_inv: "cb_step b e b' \<Longrightarrow> breaker_inv b \<Longrightarrow> breaker_inv b'"
  by (erule cb_stepE) auto

lemma cb_run_inv: "cb_run b es b' \<Longrightarrow> breaker_inv b \<Longrightarrow> breaker_inv b'"
  by (induction rule: cb_run.induct) (auto dest: cb_step_inv)

lemma cb_run_config:
  "cb_run b es b' \<Longrightarrow>
     failure_threshold b' = failure_threshold b \<and> recovery_seconds b' = recovery_seconds b"
  by (induction rule: cb_run.induct) (auto elim!: cb_stepE simp: breaker_simps)

section \<open>Properties\<close>

text \<open>
  What the breaker is for, stated over the history of events alone: the failures recorded
  since the last success.
\<close>

primrec failures_since :: "int \<Rightarrow> breaker_event list \<Rightarrow> int" where
  "failures_since n [] = n"
| "failures_since n (e # es) =
     failures_since (case e of Success \<Rightarrow> 0 | Failure _ \<Rightarrow> n + 1 | Allow _ \<Rightarrow> n) es"

lemma cb_run_failures: "cb_run b es b' \<Longrightarrow> failures b' = failures_since (failures b) es"
  by (induction rule: cb_run.induct) (auto elim!: cb_stepE simp: breaker_simps)

text \<open>
  After any sequence of successes, failures and admission questions, at any times, a
  breaker that started fresh is closed exactly when fewer failures than the threshold were
  recorded since the last success, and its configuration is the one it was built with.
\<close>

theorem breaker_closed_iff:
  assumes "0 < thr" and "cb_run (new_breaker thr rec) es b"
  shows "(cstate b = Closed \<longleftrightarrow> failures_since 0 es < thr) \<and> failure_threshold b = thr
    \<and> recovery_seconds b = rec"
proof -
  have "breaker_inv b" using assms by (blast intro: cb_run_inv breaker_inv_new)
  moreover have "failures b = failures_since 0 es"
    using cb_run_failures [OF assms(2)] by (simp add: new_breaker_def)
  ultimately show ?thesis
    using cb_run_config [OF assms(2)] by (simp add: breaker_inv_def new_breaker_def)
qed

theorem breaker_closed_iff_witness:
  "\<exists>b. cb_run (new_breaker 2 30) [Failure 1, Failure 2, Allow 40] b
     \<and> cstate b = HalfOpen \<and> failures_since 0 [Failure 1, Failure 2, Allow 40] = 2
     \<and> failure_threshold b = 2"
proof -
  define b where "b = snd (allow 40 (record_failure 2 (record_failure 1 (new_breaker 2 30))))"
  have run: "cb_run (new_breaker 2 30) [Failure 1, Failure 2, Allow 40] b"
    by (simp add: breaker_simps b_def)
  moreover have "cstate b = HalfOpen"
    by (simp add: b_def new_breaker_def record_failure_def allow_def)
  ultimately show ?thesis using breaker_closed_iff [of 2 30, OF _ run] by auto
qed

text \<open>While the circuit is open, failures of calls still in flight keep it open.\<close>

fun event_time :: "breaker_event \<Rightarrow> seconds option" where
  "event_time Success = None"
| "event_time (Failure t) = Some t"
| "event_time (Allow t) = Some t"

lemma cb_step_stays_open:
  assumes "cb_step b e b'" "breaker_inv b" "cstate b = Open" "since \<le> opened_at b"
    and "event_time e = Some t" "since \<le> t" "t < since + of_int (recovery_seconds b)"
  shows "cstate b' = Open \<and> since \<le> opened_at b'"
  using assms
  by (cases e) (auto simp: breaker_simps breaker_inv_def record_failure_def allow_def Let_def)

text \<open>
  An open circuit protects its provider: as long as no call succeeds, whatever failures
  still come in and however often a caller asks, every question asked before the recovery
  time has passed since the circuit opened is refused.
\<close>

theorem open_circuit_refuses:
  assumes "cb_run b es b'" "breaker_inv b" "cstate b = Open" "since \<le> opened_at b"
    and "\<forall>e \<in> set es. \<exists>t. event_time e = Some t \<and> since \<le> t
           \<and> t < since + of_int (recovery_seconds b)"
    and "now < since + of_int (recovery_seconds b)"
  shows "cstate b' = Open \<and> fst (allow now b') = False"
  using assms
proof (induction rule: cb_run.induct)
  case (nil b)
  then show ?case by (simp add: allow_fst)
next
  case (cons b e b' es b'')
  then obtain t where "event_time e = Some t" "since \<le> t"
      "t < since + of_int (recovery_seconds b)"
    by auto
  then have "cstate b' = Open" "since \<le> opened_at b'"
    using cb_step_stays_open [OF cons.hyps(1)] cons.prems by auto
  moreover have "breaker_inv b'" using cons.hyps(1) cons.prems(1) by (rule cb_step_inv)
  moreover have "recovery_seconds b' = recovery_seconds b"
    using cb_run_config [OF cb_run.cons [OF cons.hyps(1) cb_run.nil]] by simp
  ultimately show ?case using cons.IH cons.prems by auto
qed

theorem open_circuit_refuses_witness:
  "\<exists>b b'. b = record_failure 10 (new_breaker 1 30)
     \<and> cb_run b [Allow 12, Failure 15, Allow 39] b' \<and> cstate b' = Open
     \<and> fst (allow 39 b') = False"
proof -
  define b where "b = record_failure 10 (new_breaker 1 30)"
  define b' where "b' = snd (allow 39 (record_failure 15 (snd (allow 12 b))))"
  have b: "breaker_inv b" "cstate b = Open" "opened_at b = 10" "recovery_seconds b = 30"
    by (simp_all add: b_def new_breaker_def record_failure_def breaker_inv_def)
  have run: "cb_run b [Allow 12, Failure 15, Allow 39] b'"
    by (simp add: breaker_simps b'_def)
  show ?thesis
    using open_circuit_refuses [OF run b(1,2), of 10 39] run b by (auto simp: b_def)
qed

text \<open>
  C39. Recovery: the first question at or after the recovery time is admitted and moves the
  circuit to half-open; from there every further question is admitted too (any number of
  them, at any times, not a single trial), until the next recorded result decides: a failure
  opens the circuit again at once, a success closes it with its failures forgotten.
\<close>

theorem recovery_and_half_open:
  assumes "breaker_inv b" "cstate b = Open" "of_int (recovery_seconds b) \<le> now - opened_at b"
    and "b' = snd (allow now b)" and "cb_run b' (map Allow ts) b''"
  shows "fst (allow now b) \<and> b'' = b\<lparr>cstate := HalfOpen\<rparr> \<and> fst (allow t b'') = True
    \<and> cstate (record_failure t b'') = Open \<and> opened_at (record_failure t b'') = t
    \<and> cstate (record_success b'') = Closed \<and> failures (record_success b'') = 0"
proof -
  have b': "b' = b\<lparr>cstate := HalfOpen\<rparr>" using assms by (simp add: allow_def)
  have "cb_run c (map Allow ts) b'' \<Longrightarrow> cstate c = HalfOpen \<Longrightarrow> b'' = c" for c
    by (induction ts) (auto simp: breaker_simps)
  with b' assms(5) have "b'' = b\<lparr>cstate := HalfOpen\<rparr>" by auto
  with assms(1-3) show ?thesis
    by (auto simp: allow_def breaker_inv_def record_failure_def breaker_simps)
qed

theorem recovery_and_half_open_witness:
  "\<exists>b. b = record_failure 10 (new_breaker 1 30) \<and> fst (allow 40 b)
     \<and> fst (allow 42 (b\<lparr>cstate := HalfOpen\<rparr>))"
proof -
  define b where "b = record_failure 10 (new_breaker 1 30)"
  have b: "breaker_inv b" "cstate b = Open" "of_int (recovery_seconds b) \<le> 40 - opened_at b"
    by (simp_all add: b_def new_breaker_def record_failure_def breaker_inv_def)
  have run: "cb_run (snd (allow 40 b)) (map Allow [41, 41]) (snd (allow 40 b))"
    using b by (simp add: breaker_simps allow_def)
  have "snd (allow 40 b) = b\<lparr>cstate := HalfOpen\<rparr>" using b by (simp add: allow_def)
  then show ?thesis
    using recovery_and_half_open [OF b refl run, of 42] by (auto simp: b_def)
qed

end
