(* ===== verification/Json_Dump.thy ===== *)
theory Json_Dump
  imports Json "HOL-Library.List_Lexorder"
begin

text \<open>
  \<open>json.dumps\<close> as the source uses it: ASCII output (the default \<open>ensure_ascii\<close>), the two
  separators as arguments, and \<open>sort_keys\<close>. How Python prints a float (\<open>float.__repr__\<close>,
  the shortest decimal that reads back) is the argument \<open>frepr\<close>.
\<close>

definition hex_digit :: "nat \<Rightarrow> char" where
  "hex_digit d = (if d < 10 then char_of (48 + d) else char_of (87 + d))"

text \<open>One character inside a JSON string.\<close>

definition esc_char :: "char \<Rightarrow> string" where
  "esc_char c =
     (let n = of_char c :: nat
      in if n = 34 then [char_of (92::nat), char_of (34::nat)]
         else if n = 92 then [char_of (92::nat), char_of (92::nat)]
         else if n = 10 then char_of (92::nat) # ''n''
         else if n = 13 then char_of (92::nat) # ''r''
         else if n = 9 then char_of (92::nat) # ''t''
         else if n = 8 then char_of (92::nat) # ''b''
         else if n = 12 then char_of (92::nat) # ''f''
         else if 32 \<le> n \<and> n \<le> 126 then [c]
         else char_of (92::nat) # ''u00'' @ [hex_digit (n div 16), hex_digit (n mod 16)])"

definition quote :: char where
  "quote = char_of (34::nat)"

definition dump_string :: "string \<Rightarrow> string" where
  "dump_string s = quote # concat (map esc_char s) @ [quote]"

fun join :: "string \<Rightarrow> string list \<Rightarrow> string" where
  "join sep [] = []"
| "join sep [s] = s"
| "join sep (s # ss) = s @ sep @ join sep ss"

fun dumps :: "string \<Rightarrow> string \<Rightarrow> (real \<Rightarrow> string) \<Rightarrow> json \<Rightarrow> string" where
  "dumps isep ksep frepr JNull = ''null''"
| "dumps isep ksep frepr (JBool b) = (if b then ''true'' else ''false'')"
| "dumps isep ksep frepr (JInt i) = show_int i"
| "dumps isep ksep frepr (JFloat x) = frepr x"
| "dumps isep ksep frepr (JStr s) = dump_string s"
| "dumps isep ksep frepr (JList xs) =
     ''['' @ join isep (map (dumps isep ksep frepr) xs) @ '']''"
| "dumps isep ksep frepr (JObj d) =
     ''{'' @ join isep (map (\<lambda>(k, v). dump_string k @ ksep @ dumps isep ksep frepr v) d) @ ''}''"

text \<open>\<open>json.dumps(j)\<close> with the default separators, and with \<open>separators=(',', ':')\<close>.\<close>

abbreviation json_dumps :: "(real \<Rightarrow> string) \<Rightarrow> json \<Rightarrow> string" where
  "json_dumps \<equiv> dumps '', '' '': ''"

abbreviation json_dumps_compact :: "(real \<Rightarrow> string) \<Rightarrow> json \<Rightarrow> string" where
  "json_dumps_compact \<equiv> dumps '','' '':''"

fun sort_keys :: "json \<Rightarrow> json" where
  "sort_keys (JList xs) = JList (map sort_keys xs)"
| "sort_keys (JObj d) = JObj (sort_key fst (map (\<lambda>(k, v). (k, sort_keys v)) d))"
| "sort_keys j = j"

text \<open>The text of a message content: a string as it is, parts as their JSON.\<close>

lemma join_cons: "ss \<noteq> [] \<Longrightarrow> join sep (s # ss) = s @ sep @ join sep ss"
  by (cases ss) auto

end
