(* ===== verification/Provider_API.thy ===== *)
theory Provider_API
  imports Schemas Json_Dump
begin

text \<open>
  \<open>providers/base.py\<close>: what the gateway knows of an upstream provider. A provider is a record
  of its four methods; \<open>chat\<close> gets the moment of the call (a natural number that orders the
  calls) because what an upstream answers is not a function of the request alone. Raising is
  a value: \<open>Raised\<close> for \<open>ProviderError\<close>, \<open>Unexpected\<close> for any other exception.
\<close>

record provider_response =
  pr_content :: string
  pr_model :: model_id
  pr_prompt_tokens :: int
  pr_completion_tokens :: int
  pr_finish_reason :: string
  pr_raw :: "json option"

definition pr_total_tokens :: "provider_response \<Rightarrow> int" where
  "pr_total_tokens r = pr_prompt_tokens r + pr_completion_tokens r"

text \<open>What a \<open>ProviderError\<close>'s message says, with the values it interpolates.\<close>

datatype provider_failure =
    BedrockError string string
  | BedrockUnexpected
  | OpenAIKeyMissing
  | OpenAINetwork
  | OpenAIStatus int string
  | OtherFailure string

record provider_error =
  pe_message :: provider_failure
  pe_retryable :: bool
  pe_status_code :: "int option"

datatype chat_outcome =
    Ok provider_response
  | Raised provider_error
  | Unexpected py_exc

text \<open>The last error the router remembers, and the one it makes up when nothing was tried.\<close>

datatype last_error =
    ProviderFailed provider_error
  | OtherException py_exc
  | NoProvidersTried

record provider =
  pname :: string
  supports_model :: "model_id \<Rightarrow> bool"
  list_models :: "model_id list"
  default_model :: "model_id option"
  chat :: "nat \<Rightarrow> chat_request \<Rightarrow> model_id \<Rightarrow> chat_outcome"
  health :: bool

text \<open>
  The text of a message content (a string as it is, parts as their JSON), and reading a text
  field of a payload. A text field that is not a string is outside the upstream's documented
  schema; the model ends the call with \<open>TypeError\<close> there.
\<close>

fun content_text :: "(real \<Rightarrow> string) \<Rightarrow> content \<Rightarrow> string" where
  "content_text frepr (Text t) = t"
| "content_text frepr (Parts ps) = json_dumps frepr (JList ps)"

fun jstr :: "json \<Rightarrow> py_exc + string" where
  "jstr (JStr s) = Inr s"
| "jstr _ = Inl TypeError"

fun role_name :: "role \<Rightarrow> string" where
  "role_name System = ''system''"
| "role_name User = ''user''"
| "role_name Assistant = ''assistant''"
| "role_name Tool = ''tool''"

text \<open>\<open>if request.stop:\<close>\<close>

fun stop_given :: "stop_spec option \<Rightarrow> bool" where
  "stop_given None = False"
| "stop_given (Some (StopOne s)) = (s \<noteq> [])"
| "stop_given (Some (StopMany ss)) = (ss \<noteq> [])"

text \<open>A dictionary entry that is present only when the optional value is.\<close>

definition entry_if :: "string \<Rightarrow> ('a \<Rightarrow> json) \<Rightarrow> 'a option \<Rightarrow> (string \<times> json) list" where
  "entry_if k f v = (case v of None \<Rightarrow> [] | Some x \<Rightarrow> [(k, f x)])"

section \<open>The contract of the abstract base class\<close>

text \<open>
  What the routing layer relies on: a provider lists only models it supports, and its default
  model, when it has one, is among them.
\<close>

locale provider_contract =
  fixes p :: provider
  assumes lists_supported: "m \<in> set (list_models p) \<Longrightarrow> supports_model p m"
    and default_listed: "default_model p = Some d \<Longrightarrow> d \<in> set (list_models p)"
begin

lemma default_supported: "default_model p = Some d \<Longrightarrow> supports_model p d"
  by (rule lists_supported) (rule default_listed)

end

text \<open>Providers whose every failure is a \<open>ProviderError\<close>.\<close>

locale contained_provider = provider_contract +
  assumes no_unexpected: "chat p n req m \<noteq> Unexpected e"
begin

lemma chat_cases: "(\<exists>r. chat p n req m = Ok r) \<or> (\<exists>err. chat p n req m = Raised err)"
  using no_unexpected by (cases "chat p n req m") auto

end

end
