(* ===== verification/Bedrock.thy ===== *)
theory Bedrock
  imports Provider_API
begin

text \<open>
  \<open>providers/bedrock.py\<close>: the AWS Bedrock provider. The boto3 client is outside the
  repository: what \<open>invoke_model\<close> does at the n-th call is the argument \<open>invoke\<close>.
\<close>

definition BEDROCK_MODELS :: "model_id list" where
  "BEDROCK_MODELS =
     [''us.anthropic.claude-sonnet-4-5-20250929-v1:0'',
      ''anthropic.claude-sonnet-4-5-20250929-v1:0'',
      ''anthropic.claude-haiku-4-5'']"

definition bedrock_default :: model_id where
  "bedrock_default = ''us.anthropic.claude-sonnet-4-5-20250929-v1:0''"

definition bedrock_supports :: "model_id \<Rightarrow> bool" where
  "bedrock_supports m \<longleftrightarrow>
     m \<in> set BEDROCK_MODELS \<or> prefix ''anthropic.'' m \<or> prefix ''us.anthropic.'' m"

section \<open>Request translation\<close>

text \<open>
  The loop over the messages, with its two lists: system texts are collected apart, tool
  messages become user messages.
\<close>

definition api_message :: "string \<Rightarrow> string \<Rightarrow> json" where
  "api_message r t = JObj [(''role'', JStr r), (''content'', JStr t)]"

fun split_messages ::
  "(real \<Rightarrow> string) \<Rightarrow> chat_message list \<Rightarrow> string list \<Rightarrow> json list \<Rightarrow> string list \<times> json list"
where
  "split_messages frepr [] sys msgs = (sys, msgs)"
| "split_messages frepr (m # ms) sys msgs =
     (let t = content_text frepr (content m)
      in case role m of
           System \<Rightarrow> split_messages frepr ms (sys @ [t]) msgs
         | User \<Rightarrow> split_messages frepr ms sys (msgs @ [api_message ''user'' t])
         | Assistant \<Rightarrow> split_messages frepr ms sys (msgs @ [api_message ''assistant'' t])
         | Tool \<Rightarrow> split_messages frepr ms sys (msgs @ [api_message ''user'' t]))"

definition newline :: string where
  "newline = [char_of (10::nat)]"

definition stop_list :: "stop_spec \<Rightarrow> json" where
  "stop_list st = (case st of
       StopOne s \<Rightarrow> JList [JStr s] | StopMany ss \<Rightarrow> JList (map JStr ss))"

definition build_request_body :: "(real \<Rightarrow> string) \<Rightarrow> chat_request \<Rightarrow> json" where
  "build_request_body frepr r =
     (let (sys, msgs) = split_messages frepr (messages r) [] []
      in JObj (
        [(''anthropic_version'', JStr ''bedrock-2023-05-31''),
         (''max_tokens'', JInt (case max_tokens r of
             None \<Rightarrow> 1024 | Some n \<Rightarrow> if n = 0 then 1024 else n)),
         (''messages'', JList msgs)]
        @ (if sys \<noteq> [] then [(''system'', JStr (join (newline @ newline) sys))] else [])
        @ entry_if ''temperature'' JFloat (temperature r)
        @ entry_if ''top_p'' JFloat (top_p r)
        @ (if stop_given (stop r) then entry_if ''stop_sequences'' stop_list (stop r) else [])))"

section \<open>Response parsing\<close>

text \<open>The \<open>text\<close> of each content block of type \<open>text\<close>, concatenated.\<close>

fun join_text_blocks :: "json list \<Rightarrow> py_exc + string" where
  "join_text_blocks [] = Inr []"
| "join_text_blocks (b # bs) =
     res_bind (jget b ''type'' JNull) (\<lambda>ty.
       if ty = JStr ''text''
       then res_bind (jget b ''text'' (JStr [])) (\<lambda>j. res_bind (jstr j) (\<lambda>t.
              res_bind (join_text_blocks bs) (\<lambda>rest. Inr (t @ rest))))
       else join_text_blocks bs)"

definition bedrock_parse :: "json \<Rightarrow> model_id \<Rightarrow> py_exc + provider_response" where
  "bedrock_parse payload m =
     res_bind (jget payload ''content'' JNull) (\<lambda>c.
     res_bind (jiter (py_or c (JList []))) (\<lambda>blocks.
     res_bind (join_text_blocks blocks) (\<lambda>text.
     res_bind (jget payload ''usage'' JNull) (\<lambda>u0. let usage = py_or u0 (JObj []) in
     res_bind (jget usage ''input_tokens'' (JInt 0)) (\<lambda>it. res_bind (jint it) (\<lambda>inp.
     res_bind (jget usage ''output_tokens'' (JInt 0)) (\<lambda>ot. res_bind (jint ot) (\<lambda>out.
     res_bind (jget payload ''stop_reason'' JNull) (\<lambda>sr.
     res_bind (jstr (py_or sr (JStr ''stop''))) (\<lambda>finish.
       Inr \<lparr>pr_content = text, pr_model = m, pr_prompt_tokens = inp,
            pr_completion_tokens = out, pr_finish_reason = finish,
            pr_raw = Some payload\<rparr>))))))))))"

section \<open>The call\<close>

text \<open>
  What the client can do: a body that is JSON or is not, botocore's \<open>ClientError\<close> with the
  \<open>Code\<close> and \<open>Message\<close> of its \<open>Error\<close> entry where present and its \<open>str\<close>, or any other
  exception.
\<close>

datatype aws_result =
    AwsBody json
  | AwsNotJson
  | AwsClientError "string option" "string option" string
  | AwsException

definition retryable_codes :: "string set" where
  "retryable_codes = {''ThrottlingException'', ''ServiceUnavailableException'',
     ''ModelNotReadyException'', ''ModelTimeoutException'', ''InternalServerException''}"

definition bedrock_unexpected :: provider_error where
  "bedrock_unexpected =
     \<lparr>pe_message = BedrockUnexpected, pe_retryable = True, pe_status_code = None\<rparr>"

definition bedrock_chat ::
  "(real \<Rightarrow> string) \<Rightarrow> (nat \<Rightarrow> model_id \<Rightarrow> string \<Rightarrow> aws_result) \<Rightarrow> nat \<Rightarrow> chat_request \<Rightarrow> model_id
    \<Rightarrow> chat_outcome"
where
  "bedrock_chat frepr invoke n req m =
     (case invoke n m (json_dumps frepr (build_request_body frepr req)) of
       AwsBody payload \<Rightarrow> (case bedrock_parse payload m of
           Inr r \<Rightarrow> Ok r
         | Inl e \<Rightarrow> Raised bedrock_unexpected)
     | AwsNotJson \<Rightarrow> Raised bedrock_unexpected
     | AwsException \<Rightarrow> Raised bedrock_unexpected
     | AwsClientError code msg str_e \<Rightarrow>
         (let c = (case code of None \<Rightarrow> ''Unknown'' | Some c \<Rightarrow> c);
              t = (case msg of None \<Rightarrow> str_e | Some t \<Rightarrow> t)
          in Raised \<lparr>pe_message = BedrockError c t, pe_retryable = (c \<in> retryable_codes),
                     pe_status_code = None\<rparr>))"

definition bedrock_provider ::
  "(real \<Rightarrow> string) \<Rightarrow> (nat \<Rightarrow> model_id \<Rightarrow> string \<Rightarrow> aws_result) \<Rightarrow> bool \<Rightarrow> provider"
where
  "bedrock_provider frepr invoke client_ok =
     \<lparr>pname = ''bedrock'', supports_model = bedrock_supports, list_models = BEDROCK_MODELS,
      default_model = Some bedrock_default, chat = bedrock_chat frepr invoke,
      health = client_ok\<rparr>"

interpretation bedrock: contained_provider "bedrock_provider frepr invoke client_ok"
  for frepr invoke client_ok
  by unfold_locales
     (auto simp: bedrock_provider_def bedrock_supports_def BEDROCK_MODELS_def
        bedrock_default_def bedrock_chat_def Let_def split: aws_result.splits sum.splits)

section \<open>Properties\<close>

lemma split_messages_eq:
  "split_messages frepr ms sys msgs =
     (sys @ map (content_text frepr \<circ> content) (filter (\<lambda>m. role m = System) ms),
      msgs @ map (\<lambda>m. api_message (if role m = Assistant then ''assistant'' else ''user'')
                       (content_text frepr (content m))) (filter (\<lambda>m. role m \<noteq> System) ms))"
  by (induction frepr ms sys msgs rule: split_messages.induct)
     (auto simp: Let_def split: role.splits)

text \<open>
  The Anthropic request keeps the conversation: its messages are the non-system messages
  of the request in their order, each with its own text, assistant turns as assistant and
  user and tool turns as user; its system prompt is every system text in order, and is absent
  when there is none.
\<close>

theorem bedrock_body_keeps_conversation:
  "jget (build_request_body frepr r) ''messages'' JNull =
     Inr (JList (map (\<lambda>m. api_message (if role m = Assistant then ''assistant'' else ''user'')
            (content_text frepr (content m))) (filter (\<lambda>m. role m \<noteq> System) (messages r))))
   \<and> jget (build_request_body frepr r) ''system'' JNull =
     Inr (case filter (\<lambda>m. role m = System) (messages r) of
            [] \<Rightarrow> JNull
          | ss \<Rightarrow> JStr (join (newline @ newline) (map (content_text frepr \<circ> content) ss)))"
  by (auto simp: build_request_body_def split_messages_eq jget_def entry_if_def
      split: list.split option.split)

text \<open>
  Every failure of a Bedrock call reaches the router as a provider error, and it is one
  that forbids trying another provider exactly when AWS answered with a client error whose
  code is none of the five throttling and availability codes.
\<close>

theorem bedrock_error_classification:
  "(\<forall>e. bedrock_chat frepr invoke n r m \<noteq> Unexpected e)
   \<and> ((\<exists>e. bedrock_chat frepr invoke n r m = Raised e \<and> \<not> pe_retryable e) \<longleftrightarrow>
      (\<exists>code msg s. invoke n m (json_dumps frepr (build_request_body frepr r))
           = AwsClientError code msg s
         \<and> (case code of None \<Rightarrow> True | Some c \<Rightarrow> c \<notin> retryable_codes)))"
  using bedrock.no_unexpected [of frepr invoke True n r m]
  by (auto simp: bedrock_chat_def bedrock_provider_def bedrock_unexpected_def Let_def
      retryable_codes_def split: aws_result.splits sum.splits option.splits)

end
