(* ===== verification/OpenAI.thy ===== *)
theory OpenAI
  imports Provider_API Config
begin

text \<open>
  \<open>providers/openai.py\<close>: the OpenAI provider. The HTTP client is outside the repository: what
  posting a body does at the n-th call is the argument \<open>post\<close>.
\<close>

definition OPENAI_MODELS :: "model_id list" where
  "OPENAI_MODELS = [''gpt-4o'', ''gpt-4o-mini'', ''gpt-4.1'', ''gpt-4.1-mini'']"

definition openai_supports :: "model_id \<Rightarrow> bool" where
  "openai_supports m \<longleftrightarrow> m \<in> set OPENAI_MODELS
     \<or> prefix ''gpt-'' m \<or> prefix ''o1-'' m \<or> prefix ''o3-'' m"

text \<open>\<open>m.model_dump(exclude_none=True)\<close>\<close>

definition dump_message :: "chat_message \<Rightarrow> json" where
  "dump_message m = JObj (
     [(''role'', JStr (role_name (role m))),
      (''content'', case content m of Text t \<Rightarrow> JStr t | Parts ps \<Rightarrow> JList ps)]
     @ entry_if ''name'' JStr (msg_name m)
     @ entry_if ''tool_call_id'' JStr (tool_call_id m))"

definition dump_stop :: "stop_spec \<Rightarrow> json" where
  "dump_stop st = (case st of StopOne s \<Rightarrow> JStr s | StopMany ss \<Rightarrow> JList (map JStr ss))"

definition build_body :: "chat_request \<Rightarrow> model_id \<Rightarrow> json" where
  "build_body r m = JObj (
     [(''model'', JStr m),
      (''messages'', JList (map dump_message (messages r))),
      (''stream'', JBool False)]
     @ entry_if ''temperature'' JFloat (temperature r)
     @ entry_if ''max_tokens'' JInt (max_tokens r)
     @ entry_if ''top_p'' JFloat (top_p r)
     @ (if stop_given (stop r) then entry_if ''stop'' dump_stop (stop r) else [])
     @ (case user r of None \<Rightarrow> [] | Some u \<Rightarrow> if u = [] then [] else [(''user'', JStr u)]))"

definition openai_parse :: "json \<Rightarrow> model_id \<Rightarrow> py_exc + provider_response" where
  "openai_parse payload m =
     res_bind (jget payload ''choices'' JNull) (\<lambda>c0. let choices = py_or c0 (JList []) in
     res_bind (if truthy choices
       then res_bind (jfirst choices) (\<lambda>c.
            res_bind (jget c ''message'' JNull) (\<lambda>msg0. let msg = py_or msg0 (JObj []) in
            res_bind (jget msg ''content'' JNull) (\<lambda>t. res_bind (jstr (py_or t (JStr []))) (\<lambda>text.
            res_bind (jget c ''finish_reason'' JNull) (\<lambda>f.
            res_bind (jstr (py_or f (JStr ''stop''))) (\<lambda>finish. Inr (text, finish)))))))
       else Inr ([], ''stop'')) (\<lambda>(text, finish).
     res_bind (jget payload ''usage'' JNull) (\<lambda>u0. let usage = py_or u0 (JObj []) in
     res_bind (jget payload ''model'' JNull) (\<lambda>pm. res_bind (jstr (py_or pm (JStr m))) (\<lambda>mdl.
     res_bind (jget usage ''prompt_tokens'' (JInt 0)) (\<lambda>pt. res_bind (jint pt) (\<lambda>inp.
     res_bind (jget usage ''completion_tokens'' (JInt 0)) (\<lambda>ct. res_bind (jint ct) (\<lambda>out.
       Inr \<lparr>pr_content = text, pr_model = mdl, pr_prompt_tokens = inp,
            pr_completion_tokens = out, pr_finish_reason = finish,
            pr_raw = Some payload\<rparr>)))))))))"

text \<open>
  What posting does: a reply with its status, its text and its JSON body (\<open>None\<close> when the
  body is not JSON), httpx's \<open>RequestError\<close>, or any other exception.
\<close>

datatype http_result =
    Reply int string "json option"
  | RequestError
  | OtherError

definition openai_error :: "provider_failure \<Rightarrow> bool \<Rightarrow> int option \<Rightarrow> provider_error" where
  "openai_error msg retry st =
     \<lparr>pe_message = msg, pe_retryable = retry, pe_status_code = st\<rparr>"

text \<open>The client property raises before anything is sent when no key is configured.\<close>

definition openai_chat ::
  "string option \<Rightarrow> (nat \<Rightarrow> json \<Rightarrow> http_result) \<Rightarrow> nat \<Rightarrow> chat_request \<Rightarrow> model_id \<Rightarrow> chat_outcome"
where
  "openai_chat api_key post n req m =
     (if \<not> given api_key then Raised (openai_error OpenAIKeyMissing False None)
      else case post n (build_body req m) of
        RequestError \<Rightarrow> Raised (openai_error OpenAINetwork True None)
      | OtherError \<Rightarrow> Unexpected ValueError
      | Reply st txt body \<Rightarrow>
          (if 500 \<le> st \<or> st \<in> {408, 429}
           then Raised (openai_error (OpenAIStatus st (take 200 txt)) True (Some st))
           else if 400 \<le> st
           then Raised (openai_error (OpenAIStatus st (take 200 txt)) False (Some st))
           else (case body of
               None \<Rightarrow> Unexpected ValueError
             | Some payload \<Rightarrow> (case openai_parse payload m of
                   Inl e \<Rightarrow> Unexpected e | Inr r \<Rightarrow> Ok r))))"

definition openai_provider ::
  "string option \<Rightarrow> (nat \<Rightarrow> json \<Rightarrow> http_result) \<Rightarrow> provider"
where
  "openai_provider api_key post =
     \<lparr>pname = ''openai'', supports_model = openai_supports, list_models = OPENAI_MODELS,
      default_model = Some ''gpt-4o-mini'', chat = openai_chat api_key post,
      health = given api_key\<rparr>"

interpretation openai: provider_contract "openai_provider api_key post"
  for api_key post
  by unfold_locales (auto simp: openai_provider_def openai_supports_def OPENAI_MODELS_def)

section \<open>Properties\<close>

text \<open>
  Only the upstream's answer to the client decides whether the router may try another
  provider: an OpenAI call with a key ends in a non-retryable error exactly when the reply's
  status is a client error other than 408 and 429, and then the error carries that status;
  a network failure, a server error, 408 and 429 are retryable.
\<close>

theorem openai_error_classification:
  assumes "api_key = Some (c # cs)"
  shows "((\<exists>e. openai_chat api_key post n r m = Raised e \<and> \<not> pe_retryable e) \<longleftrightarrow>
      (\<exists>st txt body. post n (build_body r m) = Reply st txt body
         \<and> 400 \<le> st \<and> st < 500 \<and> st \<noteq> 408 \<and> st \<noteq> 429))
    \<and> ((\<exists>e. openai_chat api_key post n r m = Raised e \<and> pe_retryable e) \<longleftrightarrow>
      post n (build_body r m) = RequestError
      \<or> (\<exists>st txt body. post n (build_body r m) = Reply st txt body
           \<and> (500 \<le> st \<or> st = 408 \<or> st = 429)))"
  using assms
  by (auto simp: openai_chat_def openai_error_def split: http_result.splits option.splits
      sum.splits if_splits)

theorem openai_error_classification_witness:
  "\<exists>e. openai_chat (Some ''sk'') (\<lambda>n b. Reply 400 ''bad'' None) 0 (plain_request ''gpt-4o'' [])
       ''gpt-4o'' = Raised e \<and> \<not> pe_retryable e"
  using openai_error_classification [of "Some ''sk''" "CHR ''s''" "''k''"
      "\<lambda>n b. Reply 400 ''bad'' None" 0 "plain_request ''gpt-4o'' []" "''gpt-4o''"]
  by simp

end

