(* ===== verification/Registry.thy ===== *)
theory Registry
  imports Breaker Bedrock OpenAI
begin

text \<open>
  The provider registry of \<open>providers/registry.py\<close>: providers in registration order, each with
  its circuit breaker. Asking a breaker \<open>allow\<close> may move it to half-open, so every query that
  filters by availability returns the registry too. The clock is a function of a counter the
  queries advance: each question reads its own time.
\<close>

type_synonym clock = "nat \<Rightarrow> seconds"

record entry =
  eprovider :: provider
  ebreaker :: breaker

type_synonym registry = "(string, entry) dict"

definition register :: "settings \<Rightarrow> provider \<Rightarrow> registry \<Rightarrow> registry" where
  "register s p reg = AList.update (pname p)
     \<lparr>eprovider = p,
      ebreaker = new_breaker (circuit_breaker_failure_threshold s)
        (circuit_breaker_recovery_seconds s)\<rparr> reg"

definition get_entry :: "registry \<Rightarrow> string \<Rightarrow> entry option" where
  "get_entry reg k = map_of reg k"

definition all_entries :: "registry \<Rightarrow> entry list" where
  "all_entries reg = map snd reg"

definition set_breaker :: "string \<Rightarrow> breaker \<Rightarrow> registry \<Rightarrow> registry" where
  "set_breaker k b reg = AList.map_entry k (\<lambda>e. e\<lparr>ebreaker := b\<rparr>) reg"

text \<open>
  The loop \<open>for entry in entries: if not P(entry): continue; if not entry.breaker.allow():
  continue; out.append(entry)\<close>.
\<close>

fun poll :: "clock \<Rightarrow> (entry \<Rightarrow> bool) \<Rightarrow> nat \<Rightarrow> registry \<Rightarrow> entry list \<times> registry \<times> nat" where
  "poll clk P n [] = ([], [], n)"
| "poll clk P n ((k, e) # es) =
     (if P e
      then (let (ok, b) = allow (clk n) (ebreaker e);
                e' = e\<lparr>ebreaker := b\<rparr>;
                (out, es', n') = poll clk P (Suc n) es
            in (if ok then e' # out else out, (k, e') # es', n'))
      else (let (out, es', n') = poll clk P n es in (out, (k, e) # es', n')))"

definition for_model ::
  "clock \<Rightarrow> model_id \<Rightarrow> bool \<Rightarrow> nat \<Rightarrow> registry \<Rightarrow> entry list \<times> registry \<times> nat"
where
  "for_model clk m only_available n reg =
     (if only_available then poll clk (\<lambda>e. supports_model (eprovider e) m) n reg
      else (filter (\<lambda>e. supports_model (eprovider e) m) (all_entries reg), reg, n))"

definition list_all_models :: "registry \<Rightarrow> model_id list" where
  "list_all_models reg =
     dedup_by (\<lambda>m. m) [] (concat (map (\<lambda>e. list_models (eprovider e)) (all_entries reg)))"

definition build_registry :: "settings \<Rightarrow> provider \<Rightarrow> provider \<Rightarrow> registry" where
  "build_registry s bedrock openai =
     (let reg0 = [];
          reg1 = (if bedrock_enabled s then register s bedrock reg0 else reg0)
      in if openai_enabled s \<and> given (openai_api_key s) then register s openai reg1 else reg1)"

section \<open>Well-formed registries\<close>

definition wf_registry :: "registry \<Rightarrow> bool" where
  "wf_registry reg \<longleftrightarrow> dict_ok reg
     \<and> (\<forall>(k, e) \<in> set reg. k = pname (eprovider e) \<and> breaker_inv (ebreaker e))"

lemma wf_registryD:
  "wf_registry reg \<Longrightarrow> map_of reg k = Some e \<Longrightarrow> pname (eprovider e) = k \<and> breaker_inv (ebreaker e)"
  by (auto simp: wf_registry_def dest!: map_of_SomeD)

lemma set_update_dict:
  "x \<in> set (AList.update k v d) \<Longrightarrow> x = (k, v) \<or> x \<in> set d"
  by (induction d) (auto split: if_splits)

lemma wf_register:
  assumes "wf_registry reg" "0 < circuit_breaker_failure_threshold s"
  shows "wf_registry (register s p reg)"
  using assms
  by (auto simp: wf_registry_def register_def breaker_inv_new dest!: set_update_dict)

lemma wf_build_registry:
  "0 < circuit_breaker_failure_threshold s \<Longrightarrow> wf_registry (build_registry s b p)"
  by (auto simp: build_registry_def Let_def intro!: wf_register)
     (simp_all add: wf_registry_def)

lemma set_map_entry_dict:
  "x \<in> set (AList.map_entry k f d) \<Longrightarrow> x \<in> set d \<or> (\<exists>v. (k, v) \<in> set d \<and> x = (k, f v))"
  by (induction d) (auto split: if_splits)

lemma wf_set_breaker: "wf_registry reg \<Longrightarrow> breaker_inv b \<Longrightarrow> wf_registry (set_breaker k b reg)"
  by (auto simp: wf_registry_def set_breaker_def dest!: set_map_entry_dict)

lemma get_set_breaker [dict_simps]:
  "map_of (set_breaker k b reg) j =
     (if j = k then map_option (\<lambda>e. e\<lparr>ebreaker := b\<rparr>) (map_of reg k) else map_of reg j)"
  by (simp add: set_breaker_def dict_simps)

text \<open>
  Polling changes nothing of a registry but breakers, and each of those at most by one
  \<open>allow\<close>; what it returns are entries of the registry it returns.
\<close>

abbreviation poll_out :: "clock \<Rightarrow> (entry \<Rightarrow> bool) \<Rightarrow> nat \<Rightarrow> registry \<Rightarrow> entry list" where
  "poll_out clk P n reg \<equiv> fst (poll clk P n reg)"

abbreviation poll_reg :: "clock \<Rightarrow> (entry \<Rightarrow> bool) \<Rightarrow> nat \<Rightarrow> registry \<Rightarrow> registry" where
  "poll_reg clk P n reg \<equiv> fst (snd (poll clk P n reg))"

definition asked :: "seconds \<Rightarrow> entry \<Rightarrow> entry" where
  "asked now e = e\<lparr>ebreaker := snd (allow now (ebreaker e))\<rparr>"

lemma eprovider_asked [simp]: "eprovider (asked now e) = eprovider e"
  by (simp add: asked_def)

lemma poll_Nil [simp]: "poll_out clk P n [] = []" "poll_reg clk P n [] = []"
  by simp_all

lemma poll_out_Cons [simp]:
  "poll_out clk P n (ke # es) =
     (if P (snd ke) then
        (if fst (allow (clk n) (ebreaker (snd ke))) then [asked (clk n) (snd ke)] else [])
        @ poll_out clk P (Suc n) es
      else poll_out clk P n es)"
  by (cases ke) (simp add: asked_def case_prod_unfold Let_def)

lemma poll_reg_Cons [simp]:
  "poll_reg clk P n (ke # es) =
     (if P (snd ke) then (fst ke, asked (clk n) (snd ke)) # poll_reg clk P (Suc n) es
      else ke # poll_reg clk P n es)"
  by (cases ke) (simp add: asked_def case_prod_unfold Let_def)

declare poll.simps [simp del]

lemma poll_keys [simp]: "map fst (poll_reg clk P n reg) = map fst reg"
  by (induction reg arbitrary: n) auto

lemma dict_ok_poll [simp]: "dict_ok (poll_reg clk P n reg) = dict_ok reg"
  by (simp add: dict_ok_def)

lemma poll_reg_entry:
  "(k, e') \<in> set (poll_reg clk P n reg) \<Longrightarrow>
     \<exists>e. (k, e) \<in> set reg \<and> (e' = e \<or> P e \<and> (\<exists>i. e' = asked (clk i) e))"
proof (induction reg arbitrary: n)
  case (Cons ke es)
  then show ?case by (cases ke) (fastforce split: if_splits)
qed simp

lemma poll_out_entry:
  "e' \<in> set (poll_out clk P n reg) \<Longrightarrow>
     \<exists>k e i. (k, e) \<in> set reg \<and> (k, e') \<in> set (poll_reg clk P n reg) \<and> P e
       \<and> fst (allow (clk i) (ebreaker e)) \<and> e' = asked (clk i) e"
proof (induction reg arbitrary: n)
  case (Cons ke es)
  obtain k e where ke: "ke = (k, e)" by fastforce
  show ?case
  proof (cases "P e \<and> fst (allow (clk n) (ebreaker e)) \<and> e' = asked (clk n) e")
    case True
    then show ?thesis by (intro exI [of _ k] exI [of _ e] exI [of _ n]) (simp add: ke)
  next
    case False
    define i where "i = (if P e then Suc n else n)"
    have "e' \<in> set (poll_out clk P i es)"
      using Cons.prems False by (auto simp: ke i_def split: if_splits)
    from Cons.IH [OF this] show ?thesis by (auto simp: ke i_def split: if_splits)
  qed
qed simp

lemma poll_reg_get:
  "map_of reg k = Some e \<Longrightarrow>
     \<exists>e'. map_of (poll_reg clk P n reg) k = Some e'
       \<and> (e' = e \<or> P e \<and> (\<exists>i. e' = asked (clk i) e))"
proof (induction reg arbitrary: n)
  case (Cons ke es)
  then show ?case by (cases ke) (auto split: if_splits)
qed simp

lemma poll_reg_get_None [simp]:
  "map_of (poll_reg clk P n reg) k = None \<longleftrightarrow> map_of reg k = None"
  by (induction reg arbitrary: n) auto

lemma wf_poll: "wf_registry reg \<Longrightarrow> wf_registry (poll_reg clk P n reg)"
  unfolding wf_registry_def by (fastforce simp: asked_def dest: poll_reg_entry)

text \<open>Every entry polling admits has a circuit that is not open.\<close>

lemma poll_out_not_open:
  "e' \<in> set (poll_out clk P n reg) \<Longrightarrow> cstate (ebreaker e') \<noteq> Open"
  by (auto dest!: poll_out_entry simp: asked_def allow_not_open)

lemma cstate_asked:
  "cstate (ebreaker (asked now e)) = Open \<longleftrightarrow> \<not> fst (allow now (ebreaker e))"
  by (auto simp: asked_def allow_def split: circuit_state.splits)

text \<open>Polling returns exactly the entries that are not open afterwards.\<close>

lemma set_poll_out:
  assumes "\<And>now e. P (asked now e) = P e"
  shows "set (poll_out clk P n reg) =
    {e \<in> snd ` set (poll_reg clk P n reg). P e \<and> cstate (ebreaker e) \<noteq> Open}"
proof (induction reg arbitrary: n)
  case (Cons ke es)
  then show ?case by (auto simp: assms cstate_asked)
qed simp

end
