(* ===== verification/Embeddings.thy ===== *)
theory Embeddings
  imports Json "HOL-Library.Multiset"
begin

text \<open>
  \<open>middleware/embeddings.py\<close>: the hashing embedder and cosine similarity. The token hash
  (BLAKE2b, four bytes) is an argument; a vector is a list of reals.
\<close>

section \<open>The hashing embedder\<close>

text \<open>\<open>re.findall(r"[A-Za-z0-9]+", s)\<close>: the maximal runs of token characters, left to right.\<close>

definition is_token_char :: "char \<Rightarrow> bool" where
  "is_token_char c \<longleftrightarrow> is_ascii_letter c \<or> is_digit c"

function tokens :: "string \<Rightarrow> string list" where
  "tokens [] = []"
| "tokens (c # cs) =
     (if is_token_char c
      then takeWhile is_token_char (c # cs) # tokens (dropWhile is_token_char (c # cs))
      else tokens cs)"
  by pat_completeness auto
termination
  by (relation "measure length") (auto simp: le_imp_less_Suc length_dropWhile_le)

definition hash_counts :: "(string \<Rightarrow> nat) \<Rightarrow> nat \<Rightarrow> string list \<Rightarrow> real list" where
  "hash_counts h dims toks =
     fold (\<lambda>tok vec. let i = h tok mod dims in vec[i := vec ! i + 1]) toks (replicate dims 0)"

definition norm2 :: "real list \<Rightarrow> real" where
  "norm2 v = sum_list (map (\<lambda>x. x * x) v)"

text \<open>\<open>HashingEmbedder(dims).embed(text)\<close>; the constructor refuses a dimension that is not positive.\<close>

definition make_embedder :: "int \<Rightarrow> py_exc + nat" where
  "make_embedder dims = (if dims \<le> 0 then Inl ValueError else Inr (nat dims))"

definition embed :: "(string \<Rightarrow> nat) \<Rightarrow> nat \<Rightarrow> string \<Rightarrow> real list" where
  "embed h dims s =
     (let vec = hash_counts h dims (tokens (lower s)); norm = sqrt (norm2 vec)
      in if norm = 0 then vec else map (\<lambda>v. v / norm) vec)"

section \<open>Cosine similarity\<close>

text \<open>The loop that accumulates the dot product and both squared norms.\<close>

fun cosine_loop :: "(real \<times> real) list \<Rightarrow> real \<Rightarrow> real \<Rightarrow> real \<Rightarrow> real \<times> real \<times> real" where
  "cosine_loop [] dot na nb = (dot, na, nb)"
| "cosine_loop ((x, y) # ps) dot na nb = cosine_loop ps (dot + x * y) (na + x * x) (nb + y * y)"

definition cosine :: "real list \<Rightarrow> real list \<Rightarrow> py_exc + real" where
  "cosine a b =
     (if length a \<noteq> length b then Inl ValueError
      else (let (dot, na, nb) = cosine_loop (zip a b) 0 0 0
            in Inr (if na = 0 \<or> nb = 0 then 0 else dot / (sqrt na * sqrt nb))))"

section \<open>Facts\<close>

definition dot :: "real list \<Rightarrow> real list \<Rightarrow> real" where
  "dot a b = sum_list (map2 (*) a b)"

lemma cosine_loop_eq:
  "length a = length b \<Longrightarrow>
     cosine_loop (zip a b) d na nb = (d + dot a b, na + norm2 a, nb + norm2 b)"
proof (induction a b arbitrary: d na nb rule: list_induct2)
  case (Cons x xs y ys)
  then show ?case by (simp add: dot_def norm2_def)
qed (simp add: dot_def norm2_def)

lemma cosine_eq:
  "length a = length b \<Longrightarrow> cosine a b =
     Inr (if norm2 a = 0 \<or> norm2 b = 0 then 0 else dot a b / (sqrt (norm2 a) * sqrt (norm2 b)))"
  by (simp add: cosine_def cosine_loop_eq)

lemma norm2_nonneg: "0 \<le> norm2 v"
  by (induction v) (auto simp: norm2_def)

lemma norm2_Cons: "norm2 (x # v) = x * x + norm2 v"
  by (simp add: norm2_def)

lemma dot_self: "dot v v = norm2 v"
  by (induction v) (simp_all add: dot_def norm2_def)

lemma dot_commute: "dot a b = dot b a"
proof -
  have "map2 (*) a b = map2 (*) b a"
    by (rule nth_equalityI) (simp_all add: mult.commute)
  then show ?thesis by (simp add: dot_def)
qed

lemma norm2_scale: "norm2 (map (\<lambda>v. v / c) v) = norm2 v / (c * c)"
  by (induction v) (simp_all add: norm2_def add_divide_distrib)

text \<open>Cauchy and Schwarz, on lists.\<close>

lemma dot_bound: "length a = length b \<Longrightarrow> (dot a b)\<^sup>2 \<le> norm2 a * norm2 b"
proof (induction a b rule: list_induct2)
  case (Cons x xs y ys)
  have "2 * (x * y) * dot xs ys \<le> x\<^sup>2 * norm2 ys + y\<^sup>2 * norm2 xs"
  proof -
    have "2 * (x * y) * dot xs ys \<le> 2 * \<bar>x\<bar> * \<bar>y\<bar> * \<bar>dot xs ys\<bar>"
      by (metis abs_ge_self abs_mult abs_numeral mult.assoc)
    also have "\<dots> \<le> 2 * (\<bar>x\<bar> * sqrt (norm2 ys)) * (\<bar>y\<bar> * sqrt (norm2 xs))"
    proof -
      have "\<bar>dot xs ys\<bar> \<le> sqrt (norm2 xs * norm2 ys)"
        using real_sqrt_le_mono [OF Cons.IH] by simp
      then have "\<bar>dot xs ys\<bar> \<le> sqrt (norm2 xs) * sqrt (norm2 ys)" by (simp add: real_sqrt_mult)
      then have "2 * \<bar>x\<bar> * \<bar>y\<bar> * \<bar>dot xs ys\<bar> \<le> 2 * \<bar>x\<bar> * \<bar>y\<bar> * (sqrt (norm2 xs) * sqrt (norm2 ys))"
        by (intro mult_left_mono) simp_all
      then show ?thesis by (simp add: algebra_simps)
    qed
    also have "\<dots> \<le> (\<bar>x\<bar> * sqrt (norm2 ys))\<^sup>2 + (\<bar>y\<bar> * sqrt (norm2 xs))\<^sup>2"
      using sum_squares_bound [of "\<bar>x\<bar> * sqrt (norm2 ys)" "\<bar>y\<bar> * sqrt (norm2 xs)"] by simp
    also have "\<dots> = x\<^sup>2 * norm2 ys + y\<^sup>2 * norm2 xs"
      by (simp add: power_mult_distrib norm2_nonneg)
    finally show ?thesis .
  qed
  moreover have "dot (x # xs) (y # ys) = x * y + dot xs ys" by (simp add: dot_def)
  ultimately show ?case
    using Cons.IH by (simp add: norm2_Cons power2_sum algebra_simps power2_eq_square)
qed (simp add: dot_def norm2_def)

lemma norm2_0_iff: "norm2 v = 0 \<longleftrightarrow> (\<forall>x \<in> set v. x = 0)"
proof (induction v)
  case (Cons x v)
  then show ?case
    using norm2_nonneg [of v] zero_le_square [of x] by (auto simp: norm2_Cons add_nonneg_eq_0_iff)
qed (simp add: norm2_def)

lemma cosine_bounds:
  assumes "cosine a b = Inr r"
  shows "-1 \<le> r \<and> r \<le> 1"
proof (cases "norm2 a = 0 \<or> norm2 b = 0")
  case True
  with assms show ?thesis by (auto simp: cosine_def cosine_loop_eq split: if_splits)
next
  case False
  have l: "length a = length b" using assms by (auto simp: cosine_def split: if_splits)
  define m where "m = sqrt (norm2 a) * sqrt (norm2 b)"
  have m: "0 < m" using False norm2_nonneg [of a] norm2_nonneg [of b] by (simp add: m_def)
  have "\<bar>dot a b\<bar> \<le> m"
    using real_sqrt_le_mono [OF dot_bound [OF l]] by (simp add: m_def real_sqrt_mult)
  moreover have "r = dot a b / m" using assms False by (simp add: cosine_eq [OF l] m_def)
  ultimately show ?thesis using m by (simp add: abs_le_iff divide_le_eq le_divide_eq)
qed

lemma cosine_self: "norm2 v \<noteq> 0 \<Longrightarrow> cosine v v = Inr 1"
  using norm2_nonneg [of v] by (simp add: cosine_eq dot_self)

lemma length_hash_counts [simp]: "length (hash_counts h d toks) = d"
proof -
  have "length (fold (\<lambda>tok vec. let i = h tok mod d in vec[i := vec ! i + 1]) toks v) = length v"
    for v :: "real list"
    by (induction toks arbitrary: v) (simp_all add: Let_def)
  then show ?thesis by (simp add: hash_counts_def)
qed

lemma sum_list_set_nth: "i < length v \<Longrightarrow> sum_list (v[i := x]) = sum_list v - v ! i + x"
  for v :: "real list"
  by (induction v arbitrary: i) (auto split: nat.split)

lemma sum_hash_counts:
  assumes "0 < d"
  shows "sum_list (hash_counts h d toks) = real (length toks)"
proof -
  have "sum_list (fold (\<lambda>tok vec. let i = h tok mod d in vec[i := vec ! i + 1]) toks v)
      = sum_list v + real (length toks)" if "length v = d" for v :: "real list"
    using that
  proof (induction toks arbitrary: v)
    case (Cons t ts)
    have "sum_list (v[h t mod d := v ! (h t mod d) + 1]) = sum_list v + 1"
      using Cons.prems assms by (simp add: sum_list_set_nth)
    with Cons show ?case by (simp add: Let_def)
  qed simp
  from this [of "replicate d 0"] show ?thesis by (simp add: hash_counts_def sum_list_replicate)
qed

lemma hash_counts_cong:
  assumes "mset ts = mset ts'"
  shows "hash_counts h d ts = hash_counts h d ts'"
proof -
  have "(\<lambda>vec. vec[i := vec ! i + 1]) \<circ> (\<lambda>vec. vec[j := vec ! j + 1])
      = (\<lambda>vec. vec[j := vec ! j + 1]) \<circ> (\<lambda>vec. vec[i := vec ! i + (1 :: real)])" for i j :: nat
  proof
    fix v :: "real list"
    show "((\<lambda>vec. vec[i := vec ! i + 1]) \<circ> (\<lambda>vec. vec[j := vec ! j + 1])) v
        = ((\<lambda>vec. vec[j := vec ! j + 1]) \<circ> (\<lambda>vec. vec[i := vec ! i + 1])) v"
      by (cases "i = j") (simp_all add: list_update_swap)
  qed
  then have "fold (\<lambda>tok vec. vec[h tok mod d := vec ! (h tok mod d) + 1]) ts
      = fold (\<lambda>tok vec. vec[h tok mod d := vec ! (h tok mod d) + (1 :: real)]) ts'"
    by (intro fold_multiset_equiv assms)
  then show ?thesis by (simp add: hash_counts_def Let_def)
qed

lemma length_embed [simp]: "length (embed h d s) = d"
  by (simp add: embed_def Let_def)

lemma norm2_embed:
  assumes "0 < d"
  shows "norm2 (embed h d s) = (if tokens (lower s) = [] then 0 else 1)"
proof -
  define v where "v = hash_counts h d (tokens (lower s))"
  have s: "sum_list v = real (length (tokens (lower s)))" by (simp add: v_def sum_hash_counts assms)
  have "norm2 v = 0 \<longleftrightarrow> tokens (lower s) = []"
  proof
    assume "norm2 v = 0"
    then have "\<forall>x \<in> set v. x = 0" by (simp add: norm2_0_iff)
    then have "sum_list v = 0" by (induction v) auto
    with s show "tokens (lower s) = []" by simp
  next
    assume "tokens (lower s) = []"
    then show "norm2 v = 0" by (simp add: v_def hash_counts_def norm2_0_iff)
  qed
  moreover have "sqrt (norm2 v) * sqrt (norm2 v) = norm2 v" using norm2_nonneg [of v] by simp
  ultimately show ?thesis
    by (auto simp: embed_def Let_def norm2_scale v_def [symmetric] norm2_nonneg)
qed

section \<open>The embedder interface\<close>

text \<open>What the semantic cache relies on: every text gets a vector of the same dimension.\<close>

locale embedder =
  fixes emb :: "string \<Rightarrow> real list" and n :: nat
  assumes emb_length: "length (emb s) = n"
begin

lemma similarity_total: "\<exists>r. cosine (emb s) (emb t) = Inr r \<and> -1 \<le> r \<and> r \<le> 1"
proof -
  obtain r where "cosine (emb s) (emb t) = Inr r" by (simp add: cosine_eq emb_length)
  with cosine_bounds show ?thesis by blast
qed

lemma similarity_commute: "cosine (emb s) (emb t) = cosine (emb t) (emb s)"
  by (simp add: cosine_eq emb_length dot_commute mult.commute disj_commute)

end

interpretation hashing: embedder "embed h d" d for h d
  by unfold_locales simp

section \<open>Properties\<close>

text \<open>
  Cosine similarity is what its name says: it fails exactly for vectors of different
  dimension, lies between -1 and 1, is symmetric, is 1 for a non-zero vector and itself, and is
  0 when either vector is zero (no division by zero).
\<close>

theorem cosine_similarity_laws:
  "(cosine a b = Inl ValueError \<longleftrightarrow> length a \<noteq> length b)
    \<and> (length a = length b \<longrightarrow> (\<exists>r. cosine a b = Inr r \<and> cosine b a = Inr r \<and> -1 \<le> r \<and> r \<le> 1
         \<and> ((\<forall>x \<in> set a. x = 0) \<longrightarrow> r = 0)
         \<and> (a = b \<longrightarrow> (\<exists>x \<in> set a. x \<noteq> 0) \<longrightarrow> r = 1)))"
proof (cases "length a = length b")
  case True
  then obtain r where r: "cosine a b = Inr r" by (simp add: cosine_eq)
  moreover have "cosine b a = cosine a b"
    using True by (simp add: cosine_eq dot_commute mult.commute disj_commute)
  moreover have "(\<forall>x \<in> set a. x = 0) \<longrightarrow> r = 0"
    using r True by (auto simp: cosine_eq norm2_0_iff)
  moreover have "a = b \<longrightarrow> (\<exists>x \<in> set a. x \<noteq> 0) \<longrightarrow> r = 1"
  proof (intro impI)
    assume ab: "a = b" and "\<exists>x \<in> set a. x \<noteq> 0"
    then have "norm2 a \<noteq> 0" by (auto simp: norm2_0_iff)
    from cosine_self [OF this] r ab show "r = 1" by simp
  qed
  ultimately show ?thesis using True cosine_bounds [OF r] by simp
qed (simp add: cosine_def)

theorem cosine_similarity_laws_witness:
  "\<exists>r. cosine [3, 4] [4, 3] = Inr r \<and> cosine [4, 3] [3, 4] = Inr r \<and> -1 \<le> r \<and> r \<le> 1"
  using cosine_similarity_laws [of "[3, 4]" "[4, 3]"] by auto

text \<open>
  The hashing embedder: every text is mapped to a vector of the configured dimension, of
  length 1 (or 0 when the text has no token), which depends only on the bag of its lower-case
  tokens; so a text compared with one that differs in case, punctuation or word order has
  similarity exactly 1.
\<close>

theorem embedding_of_equal_bags:
  assumes "make_embedder dims = Inr d" "mset (tokens (lower s)) = mset (tokens (lower t))"
  shows "length (embed h d s) = d \<and> embed h d s = embed h d t
    \<and> norm2 (embed h d s) = (if tokens (lower s) = [] then 0 else 1)
    \<and> (tokens (lower s) \<noteq> [] \<longrightarrow> cosine (embed h d s) (embed h d t) = Inr 1)"
proof -
  have d: "0 < d" using assms(1) by (auto simp: make_embedder_def split: if_splits)
  have "embed h d s = embed h d t"
    using hash_counts_cong [OF assms(2)] by (simp add: embed_def)
  moreover have "tokens (lower s) \<noteq> [] \<longrightarrow> cosine (embed h d s) (embed h d s) = Inr 1"
    using norm2_embed [OF d, of h s] cosine_self [of "embed h d s"] by simp
  ultimately show ?thesis
    by (intro conjI length_embed norm2_embed [OF d]) simp_all
qed

theorem embedding_of_equal_bags_witness:
  "cosine (embed size 8 ''Hi you'') (embed size 8 ''You, hi!'') = Inr 1"
proof -
  have "tokens (lower ''Hi you'') = [''hi'', ''you'']" "tokens (lower ''You, hi!'') = [''you'', ''hi'']"
    by (simp_all add: lower_def lower_char_def in_range_def char_of_eq_iff is_token_char_def
        is_ascii_letter_def is_digit_def)
  moreover have "make_embedder 8 = Inr 8" by (simp add: make_embedder_def)
  ultimately show ?thesis
    using embedding_of_equal_bags [of 8 8 "''Hi you''" "''You, hi!''" size] by force
qed

end
