(* ===== verification/Startup.thy ===== *)
theory Startup
  imports Db_Url Registry Embeddings
begin

text \<open>
  How the process comes up: the application of \<open>main.py\<close> and its start, the lazily created objects
  (AWS client, database engine and sessions, registry, embedder) and the provider health checks
  that rest on them. FastAPI, boto3 and SQLAlchemy are parameters; their objects are of the types
  \<open>'c\<close> (client), \<open>'e\<close> (engine) and \<open>'f\<close> (session factory).
\<close>

section \<open>Objects made at first use\<close>

text \<open>
  \<open>if _x is None: _x = make(); return _x\<close>. A failure leaves the variable unset, so that
  the next call tries again.
\<close>

definition once :: "(py_exc + 'a) \<Rightarrow> 'a option \<Rightarrow> (py_exc + 'a) \<times> 'a option" where
  "once fresh cur = (case cur of
       Some x \<Rightarrow> (Inr x, cur)
     | None \<Rightarrow> (case fresh of Inl e \<Rightarrow> (Inl e, None) | Inr x \<Rightarrow> (Inr x, Some x)))"

lemma once_again: "once fresh cur = (Inr x, cur') \<Longrightarrow> once fresh' cur' = (Inr x, cur')"
  by (auto simp: once_def split: option.splits sum.splits)

lemma once_fails: "once fresh cur = (Inl e, cur') \<Longrightarrow> cur' = None \<and> once fresh' cur' = once fresh' None"
  by (auto simp: once_def split: option.splits sum.splits)

text \<open>
  \<open>get_settings\<close> under \<open>lru_cache\<close>: the settings pydantic reads at the first call (or its error) are those
  of the whole process; an exception is not cached.
\<close>

definition get_settings :: "(py_exc + settings) \<Rightarrow> settings option \<Rightarrow> (py_exc + settings) \<times> settings option" where
  "get_settings read cur = once read cur"

lemma settings_never_change:
  "get_settings read cur = (Inr st, cur') \<Longrightarrow> get_settings read' cur' = (Inr st, cur')"
  unfolding get_settings_def by (rule once_again)

section \<open>Provider clients and health\<close>

text \<open>The credentials of the AWS session: both static keys, else the profile, else AWS's own chain.\<close>

definition session_kwargs :: "settings \<Rightarrow> (string, string) dict" where
  "session_kwargs st =
     (if given (aws_access_key_id st) \<and> given (aws_secret_access_key st)
      then [(''aws_access_key_id'', the (aws_access_key_id st)), (''aws_secret_access_key'', the (aws_secret_access_key st))]
      else if given (aws_profile st) then [(''profile_name'', the (aws_profile st))] else [])"

record client_config =
  region_name :: string
  max_attempts :: int
  retry_mode :: string
  read_timeout :: real

definition client_config_of :: "settings \<Rightarrow> client_config" where
  "client_config_of st = \<lparr>region_name = aws_region st, max_attempts = 3, retry_mode = ''adaptive'',
     read_timeout = request_timeout_seconds st\<rparr>"

definition bedrock_client ::
  "((string, string) dict \<Rightarrow> client_config \<Rightarrow> py_exc + 'c) \<Rightarrow> settings \<Rightarrow> 'c option \<Rightarrow> (py_exc + 'c) \<times> 'c option"
where
  "bedrock_client boto st cur = once (boto (session_kwargs st) (client_config_of st)) cur"

definition bedrock_health ::
  "((string, string) dict \<Rightarrow> client_config \<Rightarrow> py_exc + 'c) \<Rightarrow> settings \<Rightarrow> 'c option \<Rightarrow> bool \<times> 'c option"
where
  "bedrock_health boto st cur = (case bedrock_client boto st cur of
       (Inl e, cur') \<Rightarrow> (False, cur')
     | (Inr c, cur') \<Rightarrow> (True, cur'))"

definition openai_health :: "settings \<Rightarrow> bool" where
  "openai_health st \<longleftrightarrow> given (openai_api_key st)"

text \<open>Health is sticky once the client exists, and a failure is not remembered.\<close>

lemma bedrock_health_sticky:
  "bedrock_health boto st cur = (True, cur') \<Longrightarrow> bedrock_health boto' st' cur' = (True, cur')"
  by (auto simp: bedrock_health_def bedrock_client_def once_def split: prod.splits sum.splits option.splits)

lemma bedrock_health_retried:
  "bedrock_health boto st cur = (False, cur') \<Longrightarrow>
     fst (bedrock_health boto' st' cur') \<longleftrightarrow> (\<exists>c. boto' (session_kwargs st') (client_config_of st') = Inr c)"
  by (auto simp: bedrock_health_def bedrock_client_def once_def split: prod.splits sum.splits option.splits)

section \<open>Registry and embedder\<close>

definition get_registry :: "settings \<Rightarrow> provider \<Rightarrow> provider \<Rightarrow> registry option \<Rightarrow> registry" where
  "get_registry st bedrock openai cur = (case cur of None \<Rightarrow> build_registry st bedrock openai | Some reg \<Rightarrow> reg)"

definition get_embedder :: "nat option \<Rightarrow> nat" where
  "get_embedder cur = (case cur of None \<Rightarrow> 256 | Some d \<Rightarrow> d)"

definition set_embedder :: "nat option \<Rightarrow> nat option \<Rightarrow> nat option" where
  "set_embedder e cur = e"

lemma default_embedder: "make_embedder 256 = Inr (get_embedder None)"
  by (simp add: make_embedder_def get_embedder_def)

lemma overridden_embedder: "get_embedder (set_embedder e cur) = get_embedder e"
  by (simp add: set_embedder_def)

section \<open>Database\<close>

record ('e, 'f) db_state =
  engine_of :: "'e option"
  session_factory_of :: "'f option"

record ('e, 'f) db_lib =
  create_engine :: "string \<Rightarrow> py_exc + 'e"
  create_all :: "'e \<Rightarrow> py_exc + unit"
  sessionmaker :: "'e \<Rightarrow> 'f"
  dispose :: "'e \<Rightarrow> py_exc + unit"

definition get_engine ::
  "('e, 'f) db_lib \<Rightarrow> (string \<Rightarrow> string option) \<Rightarrow> settings \<Rightarrow> ('e, 'f) db_state \<Rightarrow> (py_exc + 'e) \<times> ('e, 'f) db_state"
where
  "get_engine L environ st s =
     (let (r, e) = once (create_engine L (resolve_url environ st)) (engine_of s) in (r, s\<lparr>engine_of := e\<rparr>))"

definition get_session_factory ::
  "('e, 'f) db_lib \<Rightarrow> (string \<Rightarrow> string option) \<Rightarrow> settings \<Rightarrow> ('e, 'f) db_state \<Rightarrow> (py_exc + 'f) \<times> ('e, 'f) db_state"
where
  "get_session_factory L environ st s = (case session_factory_of s of
       Some f \<Rightarrow> (Inr f, s)
     | None \<Rightarrow> (case get_engine L environ st s of
         (Inl e, s') \<Rightarrow> (Inl e, s')
       | (Inr en, s') \<Rightarrow> (Inr (sessionmaker L en), s'\<lparr>session_factory_of := Some (sessionmaker L en)\<rparr>)))"

text \<open>Creating the tables; the last statement logs the redacted URL.\<close>

definition init_db ::
  "('e, 'f) db_lib \<Rightarrow> (string \<Rightarrow> string option) \<Rightarrow> settings \<Rightarrow> ('e, 'f) db_state \<Rightarrow> (py_exc + string) \<times> ('e, 'f) db_state"
where
  "init_db L environ st s = (case get_engine L environ st s of
       (Inl e, s') \<Rightarrow> (Inl e, s')
     | (Inr en, s') \<Rightarrow> (res_bind (create_all L en) (\<lambda>u. redacted_url environ st), s'))"

definition reset_db :: "('e, 'f) db_lib \<Rightarrow> ('e, 'f) db_state \<Rightarrow> (py_exc + unit) \<times> ('e, 'f) db_state" where
  "reset_db L s = (case (case engine_of s of None \<Rightarrow> Inr () | Some en \<Rightarrow> dispose L en) of
       Inl e \<Rightarrow> (Inl e, s)
     | Inr u \<Rightarrow> (Inr (), s\<lparr>engine_of := None, session_factory_of := None\<rparr>))"

text \<open>An invariant of the module's variables: sessions are made of the engine in use.\<close>

definition db_ok :: "('e, 'f) db_lib \<Rightarrow> ('e, 'f) db_state \<Rightarrow> bool" where
  "db_ok L s \<longleftrightarrow> (\<forall>f. session_factory_of s = Some f \<longrightarrow> (\<exists>en. engine_of s = Some en \<and> f = sessionmaker L en))"

lemma db_ok_ops:
  assumes "db_ok L s"
  shows "db_ok L (snd (get_engine L environ st s))"
    and "db_ok L (snd (get_session_factory L environ st s))"
    and "db_ok L (snd (init_db L environ st s))"
    and "db_ok L (snd (reset_db L s))"
  using assms
  by (auto simp: db_ok_def get_engine_def get_session_factory_def init_db_def reset_db_def once_def Let_def
      split: option.splits sum.splits)

section \<open>The application\<close>

record app_config =
  title :: string
  version :: string
  docs_url :: "string option"
  redoc_url :: "string option"
  allow_origins :: "string list"
  routers :: "string list"
  metrics_endpoint :: string
  instrumented :: bool

text \<open>\<open>otel\<close> tells whether setting up OpenTelemetry succeeds; a failure is logged and passed over.\<close>

definition create_app :: "settings \<Rightarrow> (string \<Rightarrow> string option) \<Rightarrow> bool \<Rightarrow> app_config" where
  "create_app st environ otel =
     \<lparr>title = app_name st, version = app_version st,
      docs_url = (if app_debug st then Some ''/docs'' else None),
      redoc_url = (if app_debug st then Some ''/redoc'' else None),
      allow_origins = cors_origins st, routers = [''routes'', ''admin''],
      metrics_endpoint = ''/metrics'',
      instrumented = (given (environ ''OTEL_EXPORTER_OTLP_ENDPOINT'') \<and> otel)\<rparr>"

definition lifespan_start ::
  "('e, 'f) db_lib \<Rightarrow> (string \<Rightarrow> string option) \<Rightarrow> settings \<Rightarrow> ('e, 'f) db_state \<Rightarrow> unit \<times> ('e, 'f) db_state"
where
  "lifespan_start L environ st s = (case init_db L environ st s of
       (Inl e, s') \<Rightarrow> ((), s')
     | (Inr url, s') \<Rightarrow> ((), s'))"

text \<open>
  The service starts whatever the database does, and a database that was down at the start is
  tried again by the first request that needs a session.
\<close>

lemma startup_retries_database:
  assumes "create_engine L (resolve_url environ st) = Inl e" "engine_of s = None" "session_factory_of s = None"
    and "create_engine L' (resolve_url environ st) = Inr en"
  shows "fst (get_session_factory L' environ st (snd (lifespan_start L environ st s))) = Inr (sessionmaker L' en)"
  using assms by (simp add: lifespan_start_def init_db_def get_engine_def get_session_factory_def once_def)

end
