(* ===== verification/Rate_Limit.thy ===== *)
theory Rate_Limit
  imports Json
begin

text \<open>
  The in-memory limiter of \<open>auth/ratelimit.py\<close>: per tenant a sliding window of request times and
  of token charges. Every operation reads \<open>time.monotonic()\<close> once, the argument \<open>now\<close>. The
  theory then states what the limiter means: the same decisions as a limiter that keeps the
  complete history (refinement), hence never more admissions in any minute than the limit.
\<close>

section \<open>Decisions and windows\<close>

datatype limit_reason = RpmExceeded int | TpmExceeded int int

record limit_decision =
  allowed :: bool
  reason :: "limit_reason option"
  retry_after_seconds :: "seconds option"

definition admit :: limit_decision where
  "admit = \<lparr>allowed = True, reason = None, retry_after_seconds = None\<rparr>"

definition refuse :: "limit_reason \<Rightarrow> seconds option \<Rightarrow> limit_decision" where
  "refuse r s = \<lparr>allowed = False, reason = Some r, retry_after_seconds = s\<rparr>"

record sliding_window =
  timestamps :: "seconds list"
  token_events :: "(seconds \<times> int) list"

definition new_window :: sliding_window where
  "new_window = \<lparr>timestamps = [], token_events = []\<rparr>"

text \<open>\<open>prune\<close>: \<open>popleft\<close> while the oldest entry is before the cutoff.\<close>

definition prune :: "seconds \<Rightarrow> seconds \<Rightarrow> sliding_window \<Rightarrow> sliding_window" where
  "prune now window w =
     (let cutoff = now - window
      in w\<lparr>timestamps := dropWhile (\<lambda>t. t < cutoff) (timestamps w),
           token_events := dropWhile (\<lambda>e. fst e < cutoff) (token_events w)\<rparr>)"

section \<open>The operations\<close>

type_synonym limiter = "(tenant_id, sliding_window) dict"

text \<open>\<open>_w\<close>: the window of a tenant, which is stored when it is new.\<close>

definition window_of :: "tenant_id \<Rightarrow> limiter \<Rightarrow> sliding_window \<times> limiter" where
  "window_of i lm = (case map_of lm i of
       None \<Rightarrow> (new_window, AList.update i new_window lm)
     | Some w \<Rightarrow> (w, lm))"

text \<open>The retry hint reads the oldest entry of the window: \<open>IndexError\<close> when there is none.\<close>

definition check_request ::
  "seconds \<Rightarrow> tenant_id \<Rightarrow> int \<Rightarrow> limiter \<Rightarrow> (py_exc + limit_decision) \<times> limiter"
where
  "check_request now i rpm lm =
     (let (w0, lm1) = window_of i lm;
          w = prune now 60 w0
      in if rpm \<le> int (length (timestamps w))
         then (case timestamps w of
             [] \<Rightarrow> (Inl IndexError, AList.update i w lm1)
           | t # _ \<Rightarrow>
               (Inr (refuse (RpmExceeded rpm) (Some (max 0 (60 - (now - t))))),
                AList.update i w lm1))
         else (Inr admit, AList.update i (w\<lparr>timestamps := timestamps w @ [now]\<rparr>) lm1))"

definition check_tokens ::
  "seconds \<Rightarrow> tenant_id \<Rightarrow> int \<Rightarrow> limiter \<Rightarrow> limit_decision \<times> limiter"
where
  "check_tokens now i tpm lm =
     (let (w0, lm1) = window_of i lm;
          w = prune now 60 w0;
          used = sum_list (map snd (token_events w))
      in if tpm \<le> used
         then (let retry = (case token_events w of [] \<Rightarrow> 0 | (t, _) # _ \<Rightarrow> max 0 (60 - (now - t)))
               in (refuse (TpmExceeded tpm used) (Some retry), AList.update i w lm1))
         else (admit, AList.update i w lm1))"

definition record_tokens :: "seconds \<Rightarrow> tenant_id \<Rightarrow> int \<Rightarrow> limiter \<Rightarrow> limiter" where
  "record_tokens now i tokens lm =
     (if tokens \<le> 0 then lm
      else (let (w0, lm1) = window_of i lm;
                w = prune now 60 w0
            in AList.update i (w\<lparr>token_events := token_events w @ [(now, tokens)]\<rparr>) lm1))"

section \<open>Runs of the limiter\<close>

datatype rl_event =
    Request seconds tenant_id int
  | Tokens seconds tenant_id int
  | Charge seconds tenant_id int

fun rl_time :: "rl_event \<Rightarrow> seconds" where
  "rl_time (Request now i l) = now"
| "rl_time (Tokens now i l) = now"
| "rl_time (Charge now i n) = now"

datatype rl_outcome = Decided limit_decision | Crashed py_exc | Charged

fun rl_step :: "rl_event \<Rightarrow> limiter \<Rightarrow> rl_outcome \<times> limiter" where
  "rl_step (Request now i l) lm =
     (case check_request now i l lm of
        (Inl e, lm') \<Rightarrow> (Crashed e, lm')
      | (Inr d, lm') \<Rightarrow> (Decided d, lm'))"
| "rl_step (Tokens now i l) lm = (let (d, lm') = check_tokens now i l lm in (Decided d, lm'))"
| "rl_step (Charge now i n) lm = (Charged, record_tokens now i n lm)"

fun rl_run :: "rl_event list \<Rightarrow> limiter \<Rightarrow> rl_outcome list \<times> limiter" where
  "rl_run [] lm = ([], lm)"
| "rl_run (ev # evs) lm =
     (let (out, lm1) = rl_step ev lm; (outs, lm2) = rl_run evs lm1 in (out # outs, lm2))"

text \<open>
  The specification keeps every admission and every charge of every tenant for ever and decides
  by looking at the last minute of them.
\<close>

record history =
  admissions :: "seconds list"
  charges :: "(seconds \<times> int) list"

type_synonym histories = "tenant_id \<Rightarrow> history"

definition no_history :: histories where
  "no_history = (\<lambda>_. \<lparr>admissions = [], charges = []\<rparr>)"

definition last_minute :: "seconds \<Rightarrow> ('a \<Rightarrow> seconds) \<Rightarrow> 'a list \<Rightarrow> 'a list" where
  "last_minute now f xs = filter (\<lambda>x. now - 60 \<le> f x) xs"

fun spec_step :: "rl_event \<Rightarrow> histories \<Rightarrow> rl_outcome \<times> histories" where
  "spec_step (Request now i l) H =
     (let recent = last_minute now (\<lambda>t. t) (admissions (H i))
      in if int (length recent) < l
         then (Decided admit, H(i := (H i)\<lparr>admissions := admissions (H i) @ [now]\<rparr>))
         else (if recent = [] then Crashed IndexError
               else Decided (refuse (RpmExceeded l) (Some (60 - (now - hd recent)))), H))"
| "spec_step (Tokens now i l) H =
     (let recent = last_minute now fst (charges (H i)); used = sum_list (map snd recent)
      in (if used < l then Decided admit
          else Decided (refuse (TpmExceeded l used)
            (Some (if recent = [] then 0 else 60 - (now - fst (hd recent))))), H))"
| "spec_step (Charge now i n) H =
     (Charged, if n \<le> 0 then H else H(i := (H i)\<lparr>charges := charges (H i) @ [(now, n)]\<rparr>))"

fun spec_run :: "rl_event list \<Rightarrow> histories \<Rightarrow> rl_outcome list \<times> histories" where
  "spec_run [] H = ([], H)"
| "spec_run (ev # evs) H =
     (let (out, H1) = spec_step ev H; (outs, H2) = spec_run evs H1 in (out # outs, H2))"

section \<open>The window is the recent part of the history\<close>

lemma dropWhile_sorted_filter:
  "sorted (map f xs) \<Longrightarrow> dropWhile (\<lambda>x. f x < c) xs = filter (\<lambda>x. c \<le> f x) xs"
  for f :: "'a \<Rightarrow> 'b :: linorder"
proof (induction xs)
  case (Cons a xs)
  show ?case
  proof (cases "f a < c")
    case False
    with Cons.prems have "\<forall>x \<in> set xs. c \<le> f x" by fastforce
    with False show ?thesis by (simp add: filter_True not_less)
  qed (use Cons in simp)
qed simp

lemma sorted_filter_map: "sorted (map f xs) \<Longrightarrow> sorted (map f (filter P xs))"
  by (simp add: sorted_filter)

definition current :: "limiter \<Rightarrow> tenant_id \<Rightarrow> sliding_window" where
  "current lm i = (case map_of lm i of None \<Rightarrow> new_window | Some w \<Rightarrow> w)"

lemma current_update [limiter_simps]:
  "current (AList.update i w lm) j = (if j = i then w else current lm j)"
  by (simp add: current_def dict_simps)

lemma window_of_eq: "fst (window_of i lm) = current lm i"
  and current_window_of [simp]: "current (snd (window_of i lm)) j = current lm j"
  by (auto simp: window_of_def current_def dict_simps split: option.splits)

text \<open>A window that forgot, at most, what lies before a cutoff at least a minute ago.\<close>

definition history_ok :: "seconds \<Rightarrow> history \<Rightarrow> bool" where
  "history_ok now h \<longleftrightarrow> sorted (admissions h) \<and> sorted (map fst (charges h))
     \<and> (\<forall>t \<in> set (admissions h). t \<le> now) \<and> (\<forall>e \<in> set (charges h). fst e \<le> now)"

definition keeps :: "seconds \<Rightarrow> sliding_window \<Rightarrow> history \<Rightarrow> bool" where
  "keeps c w h \<longleftrightarrow> timestamps w = filter (\<lambda>t. c \<le> t) (admissions h)
     \<and> token_events w = filter (\<lambda>e. c \<le> fst e) (charges h)"

definition covers :: "seconds \<Rightarrow> sliding_window \<Rightarrow> history \<Rightarrow> bool" where
  "covers now w h \<longleftrightarrow> history_ok now h \<and> (\<exists>c \<le> now - 60. keeps c w h)"

lemma covers_prune:
  assumes "covers now w h" "now \<le> now'"
  shows "timestamps (prune now' 60 w) = last_minute now' (\<lambda>t. t) (admissions h)"
    and "token_events (prune now' 60 w) = last_minute now' fst (charges h)"
    and "covers now' (prune now' 60 w) h"
proof -
  obtain c where c: "c \<le> now - 60" "timestamps w = filter (\<lambda>t. c \<le> t) (admissions h)"
      "token_events w = filter (\<lambda>e. c \<le> fst e) (charges h)"
    using assms(1) by (auto simp: covers_def keeps_def)
  have s: "sorted (map (\<lambda>t. t) (filter (\<lambda>t. c \<le> t) (admissions h)))"
    "sorted (map fst (filter (\<lambda>e. c \<le> fst e) (charges h)))"
    using assms(1) sorted_filter_map [of "\<lambda>t. t" "admissions h"]
    by (simp_all add: covers_def history_ok_def sorted_filter_map)
  have "dropWhile (\<lambda>t. t < now' - 60) (timestamps w)
      = filter (\<lambda>t. now' - 60 \<le> t) (filter (\<lambda>t. c \<le> t) (admissions h))"
    using dropWhile_sorted_filter [OF s(1)] by (simp add: c(2))
  also have "\<dots> = last_minute now' (\<lambda>t. t) (admissions h)"
    using c(1) assms(2) by (auto simp: last_minute_def intro!: filter_cong)
  finally show ts: "timestamps (prune now' 60 w) = last_minute now' (\<lambda>t. t) (admissions h)"
    by (simp add: prune_def Let_def)
  have "dropWhile (\<lambda>e. fst e < now' - 60) (token_events w)
      = filter (\<lambda>e. now' - 60 \<le> fst e) (filter (\<lambda>e. c \<le> fst e) (charges h))"
    using dropWhile_sorted_filter [OF s(2)] by (simp add: c(3))
  also have "\<dots> = last_minute now' fst (charges h)"
    using c(1) assms(2) by (auto simp: last_minute_def intro!: filter_cong)
  finally show tok: "token_events (prune now' 60 w) = last_minute now' fst (charges h)"
    by (simp add: prune_def Let_def)
  show "covers now' (prune now' 60 w) h"
    using assms unfolding covers_def history_ok_def keeps_def ts tok last_minute_def by fastforce
qed

definition implements :: "seconds \<Rightarrow> limiter \<Rightarrow> histories \<Rightarrow> bool" where
  "implements now lm H \<longleftrightarrow> (\<forall>i. covers now (current lm i) (H i))"

lemma implements_start: "implements now [] no_history"
  by (auto simp: implements_def covers_def history_ok_def keeps_def current_def new_window_def
      no_history_def)

lemma covers_admit:
  assumes "covers now w h"
  shows "covers now (w\<lparr>timestamps := timestamps w @ [now]\<rparr>)
    (h\<lparr>admissions := admissions h @ [now]\<rparr>)"
proof -
  obtain c where c: "c \<le> now - 60" "keeps c w h" "history_ok now h"
    using assms by (auto simp: covers_def)
  have "history_ok now (h\<lparr>admissions := admissions h @ [now]\<rparr>)"
    using c(3) by (simp add: history_ok_def sorted_append)
  moreover have "keeps c (w\<lparr>timestamps := timestamps w @ [now]\<rparr>)
      (h\<lparr>admissions := admissions h @ [now]\<rparr>)"
    using c(1,2) by (simp add: keeps_def)
  ultimately show ?thesis using c(1) by (auto simp: covers_def)
qed

lemma covers_charge:
  assumes "covers now w h"
  shows "covers now (w\<lparr>token_events := token_events w @ [(now, n)]\<rparr>)
    (h\<lparr>charges := charges h @ [(now, n)]\<rparr>)"
proof -
  obtain c where c: "c \<le> now - 60" "keeps c w h" "history_ok now h"
    using assms by (auto simp: covers_def)
  have "history_ok now (h\<lparr>charges := charges h @ [(now, n)]\<rparr>)"
    using c(3) by (simp add: history_ok_def sorted_append)
  moreover have "keeps c (w\<lparr>token_events := token_events w @ [(now, n)]\<rparr>)
      (h\<lparr>charges := charges h @ [(now, n)]\<rparr>)"
    using c(1,2) by (simp add: keeps_def)
  ultimately show ?thesis using c(1) by (auto simp: covers_def)
qed

lemma covers_later: "covers now w h \<Longrightarrow> now \<le> now' \<Longrightarrow> covers now' w h"
  unfolding covers_def history_ok_def by (metis diff_right_mono order_trans)

lemma implements_update:
  assumes "implements now lm H" "now \<le> now'" "covers now' w h"
  shows "implements now' (AList.update i w lm) (H(i := h))"
  using assms by (auto simp: implements_def limiter_simps intro: covers_later)

lemma window_step:
  assumes "implements now lm H" "now \<le> now'" "window_of i lm = (w0, lm1)"
  shows "timestamps (prune now' 60 w0) = last_minute now' (\<lambda>t. t) (admissions (H i))"
    and "token_events (prune now' 60 w0) = last_minute now' fst (charges (H i))"
    and "covers now' (prune now' 60 w0) (H i)" and "implements now lm1 H"
proof -
  have w0: "w0 = current lm i" using window_of_eq [of i lm] assms(3) by simp
  then have "covers now w0 (H i)" using assms(1) by (simp add: implements_def)
  note covers_prune [OF this assms(2)]
  then show "timestamps (prune now' 60 w0) = last_minute now' (\<lambda>t. t) (admissions (H i))"
    "token_events (prune now' 60 w0) = last_minute now' fst (charges (H i))"
    "covers now' (prune now' 60 w0) (H i)"
    by simp_all
  have "current lm1 j = current lm j" for j using current_window_of [of i lm j] assms(3) by simp
  then show "implements now lm1 H" using assms(1) by (simp add: implements_def)
qed

lemma retry_positive:
  assumes "last_minute now f xs = y # ys"
  shows "max 0 (60 - (now - f y)) = 60 - (now - f y)"
proof -
  have "y \<in> set (last_minute now f xs)" by (simp add: assms)
  then show ?thesis by (auto simp: last_minute_def)
qed

lemma rl_step_refines:
  assumes "implements now lm H" "now \<le> rl_time ev" "rl_step ev lm = (out, lm')"
  shows "fst (spec_step ev H) = out \<and> implements (rl_time ev) lm' (snd (spec_step ev H))"
proof (cases ev)
  case (Request t i l)
  obtain w0 lm1 where w: "window_of i lm = (w0, lm1)" by fastforce
  have t: "now \<le> t" using assms(2) Request by simp
  note ws = window_step [OF assms(1) t w]
  note up = implements_update [OF ws(4) t, of _ _ i]
  show ?thesis
    using assms(3) up [OF ws(3)] up [OF covers_admit [OF ws(3)]]
      retry_positive [of t "\<lambda>t. t" "admissions (H i)"]
    by (cases "last_minute t (\<lambda>t. t) (admissions (H i))")
       (auto simp: Request check_request_def w ws(1) Let_def split: if_splits)
next
  case (Tokens t i l)
  obtain w0 lm1 where w: "window_of i lm = (w0, lm1)" by fastforce
  have t: "now \<le> t" using assms(2) Tokens by simp
  note ws = window_step [OF assms(1) t w]
  note up = implements_update [OF ws(4) t, of _ _ i]
  show ?thesis
    using assms(3) up [OF ws(3)] retry_positive [of t fst "charges (H i)"]
    by (cases "last_minute t fst (charges (H i))")
       (auto simp: Tokens check_tokens_def w ws(2) Let_def split: if_splits prod.splits)
next
  case (Charge t i n)
  obtain w0 lm1 where w: "window_of i lm = (w0, lm1)" by fastforce
  have t: "now \<le> t" using assms(2) Charge by simp
  note ws = window_step [OF assms(1) t w]
  note up = implements_update [OF ws(4) t, of _ _ i]
  have "implements t lm H" using assms(1) t by (auto simp: implements_def intro: covers_later)
  then show ?thesis
    using assms(3) up [OF covers_charge [OF ws(3)]]
    by (auto simp: Charge record_tokens_def w Let_def)
qed

lemma rl_run_refines:
  assumes "implements now lm H" "sorted (now # map rl_time evs)" "rl_run evs lm = (outs, lm')"
  shows "fst (spec_run evs H) = outs
    \<and> (\<exists>now'. implements now' lm' (snd (spec_run evs H)) \<and> now \<le> now')"
  using assms
proof (induction evs arbitrary: now lm H outs lm')
  case (Cons ev evs)
  obtain out lm1 where s: "rl_step ev lm = (out, lm1)" by fastforce
  obtain outs2 lm2 where r: "rl_run evs lm1 = (outs2, lm2)" by fastforce
  obtain H1 where H1: "spec_step ev H = (out, H1)" "implements (rl_time ev) lm1 H1"
    using rl_step_refines [OF Cons.prems(1) _ s] Cons.prems(2) by (cases "spec_step ev H") auto
  from Cons.IH [OF H1(2) _ r] Cons.prems(2,3) s r H1(1) show ?case
    by (auto simp: Let_def case_prod_unfold intro: order_trans)
qed auto

section \<open>No minute holds more admissions than the limit\<close>

text \<open>Two admissions of the history at most a minute apart count against the same limit.\<close>

definition minute_from :: "seconds \<Rightarrow> seconds list \<Rightarrow> seconds list" where
  "minute_from a ts = filter (\<lambda>t. a \<le> t \<and> t \<le> a + 60) ts"

definition bounded_by :: "int \<Rightarrow> seconds list \<Rightarrow> bool" where
  "bounded_by l ts \<longleftrightarrow> (\<forall>a. int (length (minute_from a ts)) \<le> l)"

lemma bounded_by_snoc:
  assumes "bounded_by l ts" "\<forall>t \<in> set ts. t \<le> now"
    and "int (length (last_minute now (\<lambda>t. t) ts)) < l"
  shows "bounded_by l (ts @ [now])"
  unfolding bounded_by_def
proof
  fix a
  show "int (length (minute_from a (ts @ [now]))) \<le> l"
  proof (cases "a \<le> now \<and> now \<le> a + 60")
    case True
    have "minute_from a ts = minute_from a (last_minute now (\<lambda>t. t) ts)"
      unfolding minute_from_def last_minute_def filter_filter
      using True by (intro filter_cong) auto
    then have "length (minute_from a ts) \<le> length (last_minute now (\<lambda>t. t) ts)"
      by (metis length_filter_le minute_from_def)
    with True assms(3) show ?thesis by (simp add: minute_from_def)
  next
    case False
    with assms(1) show ?thesis by (auto simp: bounded_by_def minute_from_def)
  qed
qed

fun request_limits :: "rl_event list \<Rightarrow> tenant_id \<Rightarrow> int set" where
  "request_limits [] i = {}"
| "request_limits (Request t j l # evs) i =
     (if i = j then insert l (request_limits evs i) else request_limits evs i)"
| "request_limits (ev # evs) i = request_limits evs i"

lemma spec_step_bounded:
  assumes "bounded_by l (admissions (H i))" "\<forall>t \<in> set (admissions (H i)). t \<le> rl_time ev"
    and "request_limits [ev] i \<subseteq> {l}" "spec_step ev H = (out, H')"
  shows "bounded_by l (admissions (H' i)) \<and> (\<forall>t \<in> set (admissions (H' i)). t \<le> rl_time ev)"
proof (cases ev)
  case (Request t j k)
  then show ?thesis
    using assms bounded_by_snoc [OF assms(1,2)] by (auto simp: Let_def split: if_splits)
qed (use assms in \<open>auto simp: Let_def split: if_splits\<close>)

lemma spec_run_bounded:
  assumes "bounded_by l (admissions (H i))" "\<forall>t \<in> set (admissions (H i)). t \<le> now"
    and "sorted (now # map rl_time evs)" "request_limits evs i \<subseteq> {l}"
  shows "bounded_by l (admissions (snd (spec_run evs H) i))"
  using assms
proof (induction evs arbitrary: now H)
  case (Cons ev evs)
  obtain out H1 where s: "spec_step ev H = (out, H1)" by fastforce
  have rl: "request_limits [ev] i \<subseteq> {l} \<and> request_limits evs i \<subseteq> {l}"
    using Cons.prems(4) by (cases ev) (auto split: if_splits)
  have le: "\<forall>t \<in> set (admissions (H i)). t \<le> rl_time ev" using Cons.prems(2,3) by fastforce
  from spec_step_bounded [OF Cons.prems(1) le conjunct1 [OF rl] s]
  have "bounded_by l (admissions (H1 i))" "\<forall>t \<in> set (admissions (H1 i)). t \<le> rl_time ev"
    by auto
  then have "bounded_by l (admissions (snd (spec_run evs H1) i))"
    using Cons.prems(3) rl by (intro Cons.IH [where now = "rl_time ev"]) auto
  with s show ?case by (simp add: case_prod_unfold Let_def)
qed simp

section \<open>The limiter's interface\<close>

text \<open>
  What the \<open>RateLimiter\<close> protocol promises its clients: a tenant's decisions depend on that
  tenant's part of the state only, and an operation changes no other tenant's part.
\<close>

locale rate_limiter =
  fixes request :: "seconds \<Rightarrow> tenant_id \<Rightarrow> int \<Rightarrow> 's \<Rightarrow> (py_exc + limit_decision) \<times> 's"
    and tokens :: "seconds \<Rightarrow> tenant_id \<Rightarrow> int \<Rightarrow> 's \<Rightarrow> limit_decision \<times> 's"
    and charge :: "seconds \<Rightarrow> tenant_id \<Rightarrow> int \<Rightarrow> 's \<Rightarrow> 's"
    and view :: "'s \<Rightarrow> tenant_id \<Rightarrow> 'v"
  assumes request_local: "view s i = view s' i \<Longrightarrow> fst (request now i l s) = fst (request now i l s')
      \<and> view (snd (request now i l s)) i = view (snd (request now i l s')) i"
    and tokens_local: "view s i = view s' i \<Longrightarrow> fst (tokens now i l s) = fst (tokens now i l s')
      \<and> view (snd (tokens now i l s)) i = view (snd (tokens now i l s')) i"
    and charge_local: "view s i = view s' i \<Longrightarrow> view (charge now i n s) i = view (charge now i n s') i"
    and request_frame: "j \<noteq> i \<Longrightarrow> view (snd (request now i l s)) j = view s j"
    and tokens_frame: "j \<noteq> i \<Longrightarrow> view (snd (tokens now i l s)) j = view s j"
    and charge_frame: "j \<noteq> i \<Longrightarrow> view (charge now i n s) j = view s j"
begin

text \<open>Whatever a neighbour does in between, a tenant's next decision is the same.\<close>

lemma neighbour_request: "j \<noteq> i \<Longrightarrow> fst (request now j l (snd (request now' i l' s))) = fst (request now j l s)"
  by (rule conjunct1 [OF request_local]) (rule request_frame)

lemma neighbour_charge: "j \<noteq> i \<Longrightarrow> fst (tokens now j l (charge now' i n s)) = fst (tokens now j l s)"
  by (rule conjunct1 [OF tokens_local]) (rule charge_frame)

text \<open>The pre-call check: requests, then tokens, as the authentication makes it.\<close>

definition precheck :: "seconds \<Rightarrow> seconds \<Rightarrow> tenant_id \<Rightarrow> int \<Rightarrow> int \<Rightarrow> 's \<Rightarrow> bool \<times> 's" where
  "precheck t1 t2 i rpm tpm s =
     (let (d, s1) = request t1 i rpm s
      in case d of
           Inl e \<Rightarrow> (False, s1)
         | Inr d \<Rightarrow> if \<not> allowed d then (False, s1)
                    else (let (d2, s2) = tokens t2 i tpm s1 in (allowed d2, s2)))"

lemma precheck_frame: "j \<noteq> i \<Longrightarrow> view (snd (precheck t1 t2 i rpm tpm s)) j = view s j"
  by (cases "request t1 i rpm s"; cases "fst (request t1 i rpm s)")
     (auto simp: precheck_def Let_def case_prod_unfold tokens_frame
        dest: request_frame [of j i t1 rpm s])

lemma precheck_local:
  assumes "view s i = view s' i"
  shows "fst (precheck t1 t2 i rpm tpm s) = fst (precheck t1 t2 i rpm tpm s')"
proof -
  note r = request_local [OF assms, of t1 rpm]
  note t = tokens_local [OF conjunct2 [OF r], of t2 tpm]
  show ?thesis
    using r t by (auto simp: precheck_def case_prod_unfold Let_def split: sum.split)
qed

end

lemma check_request_current:
  "fst (check_request now i l lm) =
     (let w = prune now 60 (current lm i)
      in if int (length (timestamps w)) < l then Inr admit
         else (case timestamps w of [] \<Rightarrow> Inl IndexError
           | t # _ \<Rightarrow> Inr (refuse (RpmExceeded l) (Some (max 0 (60 - (now - t)))))))"
  and current_check_request:
  "current (snd (check_request now i l lm)) j =
     (if j \<noteq> i then current lm j
      else (let w = prune now 60 (current lm i)
            in if int (length (timestamps w)) < l
               then w\<lparr>timestamps := timestamps w @ [now]\<rparr> else w))"
  using window_of_eq [of i lm] current_window_of [of i lm j]
  by (cases "window_of i lm";
      auto simp: check_request_def Let_def limiter_simps split: list.split)+

lemma check_tokens_current:
  "fst (check_tokens now i l lm) =
     (let w = prune now 60 (current lm i); used = sum_list (map snd (token_events w))
      in if used < l then admit else refuse (TpmExceeded l used)
           (Some (case token_events w of [] \<Rightarrow> 0 | (t, _) # _ \<Rightarrow> max 0 (60 - (now - t)))))"
  and current_check_tokens:
  "current (snd (check_tokens now i l lm)) j =
     (if j \<noteq> i then current lm j else prune now 60 (current lm i))"
  using window_of_eq [of i lm] current_window_of [of i lm j]
  by (cases "window_of i lm"; auto simp: check_tokens_def Let_def limiter_simps)+

lemma current_record_tokens:
  "current (record_tokens now i n lm) j =
     (if n \<le> 0 \<or> j \<noteq> i then current lm j
      else (let w = prune now 60 (current lm i) in w\<lparr>token_events := token_events w @ [(now, n)]\<rparr>))"
  using window_of_eq [of i lm] current_window_of [of i lm j]
  by (cases "window_of i lm"; auto simp: record_tokens_def Let_def limiter_simps)

lemmas limiter_currents = check_request_current current_check_request check_tokens_current
  current_check_tokens current_record_tokens

interpretation in_memory: rate_limiter check_request check_tokens record_tokens current
  by unfold_locales (simp_all add: limiter_currents)

section \<open>Properties\<close>

text \<open>The times at which a tenant's requests were admitted, read off the outcomes.\<close>

fun admitted :: "tenant_id \<Rightarrow> rl_event list \<Rightarrow> rl_outcome list \<Rightarrow> seconds list" where
  "admitted i (Request now j l # evs) (out # outs) =
     (if j = i \<and> out = Decided admit then now # admitted i evs outs else admitted i evs outs)"
| "admitted i (ev # evs) (out # outs) = admitted i evs outs"
| "admitted i evs outs = []"

lemma refuse_not_admit [simp]: "refuse r s \<noteq> admit" "admit \<noteq> refuse r s"
  by (simp_all add: refuse_def admit_def)

lemma admissions_spec_run:
  "spec_run evs H = (outs, H') \<Longrightarrow>
     admissions (H' i) = admissions (H i) @ admitted i evs outs"
proof (induction evs arbitrary: H outs)
  case (Cons ev evs)
  obtain out H1 where s: "spec_step ev H = (out, H1)" by fastforce
  obtain outs2 H2 where r2: "spec_run evs H1 = (outs2, H2)" by fastforce
  then have r: "spec_run evs H1 = (outs2, H')" "outs = out # outs2"
    using Cons.prems s by simp_all
  have "admissions (H1 i) = admissions (H i) @ admitted i [ev] [out]"
    using s by (cases ev) (auto simp: Let_def split: if_splits)
  moreover have "admitted i (ev # evs) (out # outs2) = admitted i [ev] [out] @ admitted i evs outs2"
    by (cases ev) auto
  ultimately show ?case using Cons.IH [OF r(1)] r(2) by simp
qed simp

text \<open>
  C29. The limiter forgets nothing that matters. Over any sequence of request checks, token
  checks and charges of any tenants at non-decreasing times, the pruned sliding windows give
  exactly the decisions (with reasons and retry hints) of a limiter that keeps the complete
  history and counts the last 60 seconds of it.
\<close>

theorem limiter_refines_history:
  assumes "sorted (map rl_time evs)"
  shows "fst (rl_run evs []) = fst (spec_run evs no_history)"
proof (cases evs)
  case (Cons ev rest)
  obtain outs lm' where "rl_run evs [] = (outs, lm')" by fastforce
  with rl_run_refines [OF implements_start [of "rl_time ev"], of evs] assms Cons show ?thesis
    by auto
qed simp

theorem limiter_refines_history_witness:
  "fst (rl_run [Request 0 ''a'' 1, Request 30 ''a'' 1, Charge 31 ''a'' 5, Request 61 ''a'' 1] [])
    = [Decided admit, Decided (refuse (RpmExceeded 1) (Some 30)), Charged, Decided admit]"
  using limiter_refines_history [of "[Request 0 ''a'' 1, Request 30 ''a'' 1, Charge 31 ''a'' 5,
      Request 61 ''a'' 1]"]
  by (simp add: no_history_def last_minute_def Let_def)

text \<open>
  C31. The requests-per-minute limit holds: if a tenant's requests are all checked against the
  limit \<open>l\<close>, then no closed interval of 60 seconds, wherever it starts, contains more than \<open>l\<close>
  admissions of that tenant, whatever the other tenants do.
\<close>

theorem rpm_limit_holds:
  assumes "sorted (map rl_time evs)" "request_limits evs i \<subseteq> {l}" "0 \<le> l"
    and "rl_run evs [] = (outs, lm)"
  shows "int (length (filter (\<lambda>t. a \<le> t \<and> t \<le> a + 60) (admitted i evs outs))) \<le> l"
proof (cases evs)
  case (Cons ev rest)
  obtain H' where H': "spec_run evs no_history = (outs, H')"
    using rl_run_refines [OF implements_start [of "rl_time ev"], of evs] assms(1,4) Cons
    by (cases "spec_run evs no_history") auto
  have "bounded_by l (admissions (H' i))"
    using spec_run_bounded [of l no_history i "rl_time ev" evs] assms(1,2,3) Cons H'
    by (simp add: no_history_def bounded_by_def minute_from_def)
  then show ?thesis
    using admissions_spec_run [OF H', of i]
    by (simp add: bounded_by_def minute_from_def no_history_def)
qed (use assms in simp)

theorem rpm_limit_holds_witness:
  "\<exists>outs lm. rl_run [Request 0 ''a'' 1, Request 30 ''a'' 1, Request 61 ''a'' 1] [] = (outs, lm)
    \<and> admitted ''a'' [Request 0 ''a'' 1, Request 30 ''a'' 1, Request 61 ''a'' 1] outs = [0, 61]
    \<and> int (length (filter (\<lambda>t. 30 \<le> t \<and> t \<le> 30 + 60)
        (admitted ''a'' [Request 0 ''a'' 1, Request 30 ''a'' 1, Request 61 ''a'' 1] outs))) \<le> 1"
proof -
  define evs where "evs = [Request 0 ''a'' 1, Request 30 ''a'' 1, Request 61 ''a'' 1]"
  obtain outs lm where r: "rl_run evs [] = (outs, lm)" by fastforce
  then have "outs = [Decided admit, Decided (refuse (RpmExceeded 1) (Some 30)), Decided admit]"
    by (auto simp: evs_def check_request_def window_of_def new_window_def prune_def Let_def)
  then have "admitted ''a'' evs outs = [0, 61]" by (simp add: evs_def)
  with rpm_limit_holds [OF _ _ _ r, of "''a''" 1 30] r show ?thesis
    by (simp add: evs_def)
qed

fun rl_tenant :: "rl_event \<Rightarrow> tenant_id" where
  "rl_tenant (Request now i l) = i"
| "rl_tenant (Tokens now i l) = i"
| "rl_tenant (Charge now i n) = i"

lemma rl_step_local:
  "current lm i = current lm' i \<Longrightarrow> rl_tenant ev = i \<Longrightarrow>
     fst (rl_step ev lm) = fst (rl_step ev lm')
     \<and> current (snd (rl_step ev lm)) i = current (snd (rl_step ev lm')) i"
proof (cases ev)
  case (Request now j l)
  then show "current lm i = current lm' i \<Longrightarrow> rl_tenant ev = i \<Longrightarrow> ?thesis"
    using in_memory.request_local [of lm i lm' now l]
    by (auto simp: case_prod_unfold split: sum.splits)
next
  case (Tokens now j l)
  then show "current lm i = current lm' i \<Longrightarrow> rl_tenant ev = i \<Longrightarrow> ?thesis"
    using in_memory.tokens_local [of lm i lm' now l] by (auto simp: case_prod_unfold Let_def)
next
  case (Charge now j n)
  then show "current lm i = current lm' i \<Longrightarrow> rl_tenant ev = i \<Longrightarrow> ?thesis"
    using in_memory.charge_local [of lm i lm' now n] by auto
qed

lemma rl_step_frame: "rl_tenant ev \<noteq> i \<Longrightarrow> current (snd (rl_step ev lm)) i = current lm i"
proof (cases ev)
  case (Request now j l)
  then show "rl_tenant ev \<noteq> i \<Longrightarrow> ?thesis"
    using in_memory.request_frame [of i j now l lm] by (auto simp: case_prod_unfold split: sum.splits)
qed (auto simp: case_prod_unfold Let_def in_memory.tokens_frame in_memory.charge_frame)

definition outcomes_of :: "tenant_id \<Rightarrow> rl_event list \<Rightarrow> rl_outcome list \<Rightarrow> rl_outcome list" where
  "outcomes_of i evs outs = map snd (filter (\<lambda>(ev, out). rl_tenant ev = i) (zip evs outs))"

lemma rl_run_isolated:
  "current lm i = current lm' i \<Longrightarrow>
     outcomes_of i evs (fst (rl_run evs lm)) =
       fst (rl_run (filter (\<lambda>ev. rl_tenant ev = i) evs) lm')"
proof (induction evs arbitrary: lm lm')
  case (Cons ev evs)
  show ?case
  proof (cases "rl_tenant ev = i")
    case True
    with rl_step_local [OF Cons.prems True] Cons.IH show ?thesis
      by (auto simp: outcomes_of_def case_prod_unfold Let_def)
  next
    case False
    with rl_step_frame [OF False, of lm] Cons show ?thesis
      by (auto simp: outcomes_of_def case_prod_unfold Let_def)
  qed
qed (simp add: outcomes_of_def)

text \<open>
  Tenants do not disturb each other: in any interleaving of the operations of many tenants,
  each tenant sees exactly the decisions it would see alone.
\<close>

theorem tenants_isolated:
  "outcomes_of i evs (fst (rl_run evs [])) = fst (rl_run (filter (\<lambda>ev. rl_tenant ev = i) evs) [])"
  by (rule rl_run_isolated) simp

text \<open>
  The retry hint is honest: when a request is refused although the limit is positive and
  the window was not overfull, the same request made any time after the hinted number of
  seconds is admitted, provided the tenant did nothing in between.
\<close>

lemma retry_hint_sound:
  assumes "check_request now i l lm = (Inr d, lm')" "\<not> allowed d" "0 < l"
    and "int (length (timestamps (current lm i))) \<le> l"
  shows "\<exists>s. retry_after_seconds d = Some s \<and> 0 \<le> s
    \<and> (\<forall>later. now + s < later \<longrightarrow> fst (check_request later i l lm') = Inr admit)"
proof -
  define w where "w = prune now 60 (current lm i)"
  have adm: "allowed admit" by (simp add: admit_def)
  then obtain t ts where ts: "timestamps w = t # ts"
    and d: "d = refuse (RpmExceeded l) (Some (max 0 (60 - (now - t))))"
    and full: "l \<le> int (length (timestamps w))"
    using assms(1,2) check_request_current [of now i l lm]
    by (auto simp: w_def [symmetric] Let_def split: if_splits list.splits)
  have cur: "current lm' i = w"
    using current_check_request [of now i l lm i] full assms(1) by (simp add: w_def Let_def)
  have "timestamps w = dropWhile (\<lambda>t. t < now - 60) (timestamps (current lm i))"
    by (simp add: w_def prune_def Let_def)
  then have "length (timestamps w) \<le> length (timestamps (current lm i))"
    by (simp add: length_dropWhile_le)
  with assms(4) have len: "int (length ts) < l" by (simp add: ts)
  have "fst (check_request later i l lm') = Inr admit"
    if later: "now + max 0 (60 - (now - t)) < later" for later
  proof -
    have "timestamps (prune later 60 w) = dropWhile (\<lambda>t. t < later - 60) ts"
      using later by (simp add: prune_def Let_def ts)
    then have "int (length (timestamps (prune later 60 w))) < l"
      using len length_dropWhile_le [of "\<lambda>t. t < later - 60" ts] by simp
    then show ?thesis by (simp add: check_request_current cur Let_def)
  qed
  then show ?thesis by (auto simp: d refuse_def)
qed

text \<open>
  With a limit that is not positive and nothing in the window, the refusal itself fails: the
  retry hint reads the first entry of an empty window.
\<close>

lemma check_request_crash_iff:
  "fst (check_request now i l lm) = Inl e \<longleftrightarrow>
     e = IndexError \<and> l \<le> 0 \<and> timestamps (prune now 60 (current lm i)) = []"
  by (auto simp: check_request_current Let_def split: list.split)

end
