(* ===== verification/Redis_Limit.thy ===== *)
theory Redis_Limit
  imports Rate_Limit Config
begin

text \<open>
  \<open>RedisRateLimiter\<close> of \<open>auth/ratelimit.py\<close>, the limiter several gateway processes share: per tenant
  two sorted sets. Redis is a parameter, a record of the commands the code sends (their first
  argument is the time of the server, which expiry depends on); what the code relies on is the
  locale \<open>sorted_sets\<close>, the documented effect of each command on the visible contents of a key. Under
  it the limiter decides as one that keeps the complete history, provided calls come one at a
  time and no two of them read the same clock value. Without the first proviso it does not.
\<close>

section \<open>The limiter\<close>

record 'r redis =
  zremrangebyscore :: "seconds \<Rightarrow> string \<Rightarrow> real \<Rightarrow> real \<Rightarrow> 'r \<Rightarrow> 'r"
  zcard :: "seconds \<Rightarrow> string \<Rightarrow> 'r \<Rightarrow> nat"
  zadd :: "seconds \<Rightarrow> string \<Rightarrow> string \<Rightarrow> real \<Rightarrow> 'r \<Rightarrow> 'r"
  zrange :: "seconds \<Rightarrow> string \<Rightarrow> 'r \<Rightarrow> string list"
  expire :: "seconds \<Rightarrow> string \<Rightarrow> real \<Rightarrow> 'r \<Rightarrow> 'r"

definition req_key :: "tenant_id \<Rightarrow> string" where
  "req_key i = ''rl:req:'' @ i"

definition tok_key :: "tenant_id \<Rightarrow> string" where
  "tok_key i = ''rl:tok:'' @ i"

definition req_member :: "(real \<Rightarrow> string) \<Rightarrow> seconds \<Rightarrow> string" where
  "req_member frepr now = frepr now @ '':'' @ show_int (trunc (now * 1000000))"

definition tok_member :: "(real \<Rightarrow> string) \<Rightarrow> seconds \<Rightarrow> int \<Rightarrow> string" where
  "tok_member frepr now n = show_int n @ '':'' @ frepr now"

text \<open>The two halves of \<open>check_request\<close>: the pipeline that reads the count, and what follows.\<close>

definition read_requests :: "'r redis \<Rightarrow> seconds \<Rightarrow> tenant_id \<Rightarrow> 'r \<Rightarrow> nat \<times> 'r" where
  "read_requests R now i r =
     (let r1 = zremrangebyscore R now (req_key i) 0 (now - 60) r in (zcard R now (req_key i) r1, r1))"

definition decide_request ::
  "'r redis \<Rightarrow> (real \<Rightarrow> string) \<Rightarrow> seconds \<Rightarrow> tenant_id \<Rightarrow> int \<Rightarrow> nat \<Rightarrow> 'r \<Rightarrow> limit_decision \<times> 'r"
where
  "decide_request R frepr now i rpm count r =
     (if rpm \<le> int count then (refuse (RpmExceeded rpm) None, r)
      else (admit, expire R now (req_key i) 120 (zadd R now (req_key i) (req_member frepr now) now r)))"

definition redis_check_request ::
  "'r redis \<Rightarrow> (real \<Rightarrow> string) \<Rightarrow> seconds \<Rightarrow> tenant_id \<Rightarrow> int \<Rightarrow> 'r \<Rightarrow> limit_decision \<times> 'r"
where
  "redis_check_request R frepr now i rpm r =
     (let (count, r1) = read_requests R now i r in decide_request R frepr now i rpm count r1)"

text \<open>The loop over the members: what stands before the first colon, if it is a number.\<close>

fun sum_members :: "string list \<Rightarrow> int" where
  "sum_members [] = 0"
| "sum_members (m # ms) =
     (case int_of_str (takeWhile (\<lambda>c. c \<noteq> CHR '':'') m) of None \<Rightarrow> 0 | Some n \<Rightarrow> n) + sum_members ms"

definition redis_check_tokens :: "'r redis \<Rightarrow> seconds \<Rightarrow> tenant_id \<Rightarrow> int \<Rightarrow> 'r \<Rightarrow> limit_decision \<times> 'r" where
  "redis_check_tokens R now i tpm r =
     (let r1 = zremrangebyscore R now (tok_key i) 0 (now - 60) r;
          used = sum_members (zrange R now (tok_key i) r1)
      in (if tpm \<le> used then refuse (TpmExceeded tpm used) None else admit, r1))"

definition redis_record_tokens ::
  "'r redis \<Rightarrow> (real \<Rightarrow> string) \<Rightarrow> seconds \<Rightarrow> tenant_id \<Rightarrow> int \<Rightarrow> 'r \<Rightarrow> 'r"
where
  "redis_record_tokens R frepr now i n r =
     (if n \<le> 0 then r
      else expire R now (tok_key i) 120 (zadd R now (tok_key i) (tok_member frepr now n) now r))"

text \<open>\<open>get_rate_limiter\<close>: the limiter of the process, chosen at the first use and kept; what it
  returns is also the new value of the module's variable, which \<open>reset_rate_limiter\<close> clears.\<close>

datatype limiter_choice = InMemoryLimiter | RedisLimiter string

definition get_rate_limiter :: "settings \<Rightarrow> bool \<Rightarrow> limiter_choice option \<Rightarrow> limiter_choice" where
  "get_rate_limiter st redis_installed chosen = (case chosen of
       Some l \<Rightarrow> l
     | None \<Rightarrow> if redis_url st \<noteq> None \<and> redis_url st \<noteq> Some [] \<and> redis_installed
               then RedisLimiter (the (redis_url st)) else InMemoryLimiter)"

definition reset_rate_limiter :: "limiter_choice option" where
  "reset_rate_limiter = None"

section \<open>Runs, and the limiter with the complete history\<close>

fun redis_step :: "'r redis \<Rightarrow> (real \<Rightarrow> string) \<Rightarrow> rl_event \<Rightarrow> 'r \<Rightarrow> rl_outcome \<times> 'r" where
  "redis_step R frepr (Request now i l) r = (let (d, r') = redis_check_request R frepr now i l r in (Decided d, r'))"
| "redis_step R frepr (Tokens now i l) r = (let (d, r') = redis_check_tokens R now i l r in (Decided d, r'))"
| "redis_step R frepr (Charge now i n) r = (Charged, redis_record_tokens R frepr now i n r)"

fun redis_run :: "'r redis \<Rightarrow> (real \<Rightarrow> string) \<Rightarrow> rl_event list \<Rightarrow> 'r \<Rightarrow> rl_outcome list \<times> 'r" where
  "redis_run R frepr [] r = ([], r)"
| "redis_run R frepr (ev # evs) r =
     (let (out, r1) = redis_step R frepr ev r; (outs, r2) = redis_run R frepr evs r1 in (out # outs, r2))"

text \<open>The specification: what lies strictly within the last 60 seconds counts.\<close>

definition within_minute :: "seconds \<Rightarrow> ('a \<Rightarrow> seconds) \<Rightarrow> 'a list \<Rightarrow> 'a list" where
  "within_minute now f xs = filter (\<lambda>x. now - 60 < f x) xs"

fun shared_step :: "rl_event \<Rightarrow> histories \<Rightarrow> rl_outcome \<times> histories" where
  "shared_step (Request now i l) H =
     (if int (length (within_minute now (\<lambda>t. t) (admissions (H i)))) < l
      then (Decided admit, H(i := (H i)\<lparr>admissions := admissions (H i) @ [now]\<rparr>))
      else (Decided (refuse (RpmExceeded l) None), H))"
| "shared_step (Tokens now i l) H =
     (let used = sum_list (map snd (within_minute now fst (charges (H i))))
      in (Decided (if l \<le> used then refuse (TpmExceeded l used) None else admit), H))"
| "shared_step (Charge now i n) H =
     (Charged, if n \<le> 0 then H else H(i := (H i)\<lparr>charges := charges (H i) @ [(now, n)]\<rparr>))"

fun shared_run :: "rl_event list \<Rightarrow> histories \<Rightarrow> rl_outcome list \<times> histories" where
  "shared_run [] H = ([], H)"
| "shared_run (ev # evs) H =
     (let (out, H1) = shared_step ev H; (outs, H2) = shared_run evs H1 in (out # outs, H2))"

text \<open>The members under which an event (time and amount) is stored.\<close>

abbreviation req_events :: "history \<Rightarrow> (seconds \<times> int) list" where
  "req_events h \<equiv> map (\<lambda>t. (t, 1)) (admissions h)"

definition req_enc :: "(real \<Rightarrow> string) \<Rightarrow> seconds \<times> int \<Rightarrow> string" where
  "req_enc frepr e = req_member frepr (fst e)"

definition tok_enc :: "(real \<Rightarrow> string) \<Rightarrow> seconds \<times> int \<Rightarrow> string" where
  "tok_enc frepr e = tok_member frepr (fst e) (snd e)"

section \<open>What the code relies on\<close>

text \<open>
  \<open>contents r t k\<close> are the pairs of member and score of the key \<open>k\<close> at time \<open>t\<close>, \<open>deadline r k\<close> when the
  key expires, if it does.
\<close>

locale sorted_sets =
  fixes R :: "'r redis" and contents :: "'r \<Rightarrow> seconds \<Rightarrow> string \<Rightarrow> (string \<times> real) set"
    and deadline :: "'r \<Rightarrow> string \<Rightarrow> seconds option"
  assumes zrem: "contents (zremrangebyscore R t k lo hi r) t k' =
      (if k' = k then {p \<in> contents r t k. \<not> (lo \<le> snd p \<and> snd p \<le> hi)} else contents r t k')"
    and zadd: "contents (zadd R t k m s r) t k' =
      (if k' = k then insert (m, s) {p \<in> contents r t k. fst p \<noteq> m} else contents r t k')"
    and expire: "0 < n \<Longrightarrow> contents (expire R t k n r) t k' = contents r t k'"
    and zcard: "zcard R t k r = card (contents r t k)"
    and zrange: "distinct (zrange R t k r)" "set (zrange R t k r) = fst ` contents r t k"
    and passing: "t \<le> t' \<Longrightarrow> contents r t' k =
      (case deadline r k of Some d \<Rightarrow> if d \<le> t' then {} else contents r t k | None \<Rightarrow> contents r t k)"
    and zrem_deadline: "deadline (zremrangebyscore R t k lo hi r) k' = Some d \<Longrightarrow> deadline r k' = Some d"
    and zadd_deadline: "deadline (zadd R t k m s r) k' = Some d \<Longrightarrow> deadline r k' = Some d"
    and expire_deadline: "deadline (expire R t k n r) k' = Some d \<Longrightarrow>
      (if k' = k then d = t + n else deadline r k' = Some d)"

begin

text \<open>
  A key that holds the events \<open>E\<close> (pairs of time and amount) as far as they lie in the last minute,
  and perhaps older ones of them; it does not expire before they have left the window.
\<close>

definition window :: "'r \<Rightarrow> seconds \<Rightarrow> string \<Rightarrow> (seconds \<times> int \<Rightarrow> string) \<Rightarrow> (seconds \<times> int) list \<Rightarrow> bool" where
  "window r now k enc E \<longleftrightarrow>
     (\<exists>V \<subseteq> set E. {e \<in> set E. now - 60 < fst e} \<subseteq> V \<and> contents r now k = (\<lambda>e. (enc e, fst e)) ` V)
     \<and> (\<forall>d. deadline r k = Some d \<longrightarrow> (\<forall>e \<in> set E. fst e + 120 \<le> d))"

lemma windowI:
  assumes "contents r now k = (\<lambda>e. (enc e, fst e)) ` V" "V \<subseteq> set E"
    and "\<And>e. e \<in> set E \<Longrightarrow> now - 60 < fst e \<Longrightarrow> e \<in> V"
    and "\<And>d e. deadline r k = Some d \<Longrightarrow> e \<in> set E \<Longrightarrow> fst e + 120 \<le> d"
  shows "window r now k enc E"
  using assms unfolding window_def by blast

lemma windowE:
  assumes "window r now k enc E"
  obtains V where "contents r now k = (\<lambda>e. (enc e, fst e)) ` V" "V \<subseteq> set E"
    "\<forall>e \<in> set E. now - 60 < fst e \<longrightarrow> e \<in> V"
    "\<forall>d. deadline r k = Some d \<longrightarrow> (\<forall>e \<in> set E. fst e + 120 \<le> d)"
proof -
  from assms obtain V where "V \<subseteq> set E" "{e \<in> set E. now - 60 < fst e} \<subseteq> V"
      "contents r now k = (\<lambda>e. (enc e, fst e)) ` V"
      and d: "\<forall>d. deadline r k = Some d \<longrightarrow> (\<forall>e \<in> set E. fst e + 120 \<le> d)"
    unfolding window_def by auto
  then show thesis by (intro that [of V]) auto
qed

lemma window_later:
  assumes "window r now k enc E" "now \<le> now'"
  shows "window r now' k enc E"
proof -
  from assms(1) obtain V where V: "contents r now k = (\<lambda>e. (enc e, fst e)) ` V" "V \<subseteq> set E"
    "\<forall>e \<in> set E. now - 60 < fst e \<longrightarrow> e \<in> V"
    "\<forall>d. deadline r k = Some d \<longrightarrow> (\<forall>e \<in> set E. fst e + 120 \<le> d)"
    by (rule windowE)
  show ?thesis
  proof (cases "\<exists>d. deadline r k = Some d \<and> d \<le> now'")
    case True
    then obtain d' where d': "deadline r k = Some d'" "d' \<le> now'" by blast
    have "contents r now' k = (\<lambda>e. (enc e, fst e)) ` {}"
      using passing [OF assms(2), of r k] d' by simp
    moreover have "fst e \<le> now' - 60" if "e \<in> set E" for e
      using V(4) d' that by fastforce
    ultimately show ?thesis using V(4) by (intro windowI [where V = "{}"]) fastforce+
  next
    case False
    then have "contents r now' k = contents r now k"
      using passing [OF assms(2), of r k] by (auto split: option.splits)
    with V assms(2) show ?thesis by (intro windowI [where V = V]) simp_all
  qed
qed

lemma window_prune:
  assumes "window r now k enc E" "\<forall>e \<in> set E. 0 \<le> fst e"
  shows "contents (zremrangebyscore R now k 0 (now - 60) r) now k
      = (\<lambda>e. (enc e, fst e)) ` {e \<in> set E. now - 60 < fst e}"
    and "window (zremrangebyscore R now k 0 (now - 60) r) now k enc E"
proof -
  let ?r = "zremrangebyscore R now k 0 (now - 60) r"
  from assms(1) obtain V where V: "contents r now k = (\<lambda>e. (enc e, fst e)) ` V" "V \<subseteq> set E"
    "\<forall>e \<in> set E. now - 60 < fst e \<longrightarrow> e \<in> V"
    "\<forall>d. deadline r k = Some d \<longrightarrow> (\<forall>e \<in> set E. fst e + 120 \<le> d)"
    by (rule windowE)
  have nonneg: "\<forall>e \<in> V. 0 \<le> fst e" using V(2) assms(2) by blast
  have "contents ?r now k = {p \<in> (\<lambda>e. (enc e, fst e)) ` V. \<not> (0 \<le> snd p \<and> snd p \<le> now - 60)}"
    by (simp add: zrem V(1))
  also have "\<dots> = (\<lambda>e. (enc e, fst e)) ` {e \<in> V. \<not> (0 \<le> fst e \<and> fst e \<le> now - 60)}"
    by auto
  also have "{e \<in> V. \<not> (0 \<le> fst e \<and> fst e \<le> now - 60)} = {e \<in> set E. now - 60 < fst e}"
    using V(2,3) nonneg by fastforce
  finally show c: "contents ?r now k = (\<lambda>e. (enc e, fst e)) ` {e \<in> set E. now - 60 < fst e}" .
  show "window ?r now k enc E"
  proof (rule windowI [OF c])
    show "fst e + 120 \<le> d" if "deadline ?r k = Some d" "e \<in> set E" for d e
      using V(4) zrem_deadline [OF that(1)] that(2) by blast
  qed auto
qed

lemma window_add:
  assumes "window r now k enc E" "enc (now, n) \<notin> enc ` set E" "\<forall>e \<in> set E. fst e \<le> now"
  shows "window (expire R now k 120 (zadd R now k (enc (now, n)) now r)) now k enc (E @ [(now, n)])"
proof -
  let ?r = "expire R now k 120 (zadd R now k (enc (now, n)) now r)"
  from assms(1) obtain V where V: "contents r now k = (\<lambda>e. (enc e, fst e)) ` V" "V \<subseteq> set E"
    "\<forall>e \<in> set E. now - 60 < fst e \<longrightarrow> e \<in> V"
    "\<forall>d. deadline r k = Some d \<longrightarrow> (\<forall>e \<in> set E. fst e + 120 \<le> d)"
    by (rule windowE)
  have new: "\<forall>e \<in> V. enc e \<noteq> enc (now, n)" using V(2) assms(2) by (metis imageI subsetD)
  have "contents ?r now k = insert (enc (now, n), now) {p \<in> (\<lambda>e. (enc e, fst e)) ` V. fst p \<noteq> enc (now, n)}"
    by (simp add: expire zadd V(1))
  also have "\<dots> = (\<lambda>e. (enc e, fst e)) ` insert (now, n) V"
    using new by auto
  finally have c: "contents ?r now k = (\<lambda>e. (enc e, fst e)) ` insert (now, n) V" .
  have d: "deadline ?r k = Some d \<Longrightarrow> d = now + 120" for d
    using expire_deadline [of now k 120 _ k d] by simp
  show ?thesis
    by (rule windowI [OF c]) (use V(2,3) d assms(3) in auto)
qed

lemma window_other:
  assumes "k' \<noteq> k" "window r now k' enc E"
  shows "window (zremrangebyscore R now k lo hi r) now k' enc E"
    and "window (expire R now k 120 (zadd R now k m s r)) now k' enc E"
proof -
  from assms(2) obtain V where V: "contents r now k' = (\<lambda>e. (enc e, fst e)) ` V" "V \<subseteq> set E"
    "\<forall>e \<in> set E. now - 60 < fst e \<longrightarrow> e \<in> V"
    "\<forall>d. deadline r k' = Some d \<longrightarrow> (\<forall>e \<in> set E. fst e + 120 \<le> d)"
    by (rule windowE)
  have d: "deadline (expire R now k 120 (zadd R now k m s r)) k' = Some d \<Longrightarrow> deadline r k' = Some d" for d
    using expire_deadline [of now k 120 "zadd R now k m s r" k' d] assms(1) by (auto intro: zadd_deadline)
  show "window (zremrangebyscore R now k lo hi r) now k' enc E"
  proof (rule windowI)
    show "contents (zremrangebyscore R now k lo hi r) now k' = (\<lambda>e. (enc e, fst e)) ` V"
      using assms(1) V(1) by (simp add: zrem)
    show "fst e + 120 \<le> d" if "deadline (zremrangebyscore R now k lo hi r) k' = Some d" "e \<in> set E" for d e
      using V(4) zrem_deadline [OF that(1)] that(2) by blast
  qed (use V(2,3) in blast)+
  show "window (expire R now k 120 (zadd R now k m s r)) now k' enc E"
  proof (rule windowI)
    show "contents (expire R now k 120 (zadd R now k m s r)) now k' = (\<lambda>e. (enc e, fst e)) ` V"
      using assms(1) V(1) by (simp add: zadd expire)
    show "fst e + 120 \<le> d" if "deadline (expire R now k 120 (zadd R now k m s r)) k' = Some d" "e \<in> set E" for d e
      using V(4) d [OF that(1)] that(2) by blast
  qed (use V(2,3) in blast)+
qed

text \<open>Reading a window: the number of events of the last minute, and the sum of their amounts.\<close>

lemma window_count:
  assumes "window r now k enc E" "\<forall>e \<in> set E. 0 \<le> fst e" "inj_on enc (set E)" "distinct E"
  shows "zcard R now k (zremrangebyscore R now k 0 (now - 60) r) = length (within_minute now fst E)"
proof -
  have "inj_on (\<lambda>e. (enc e, fst e)) {e \<in> set E. now - 60 < fst e}"
    using assms(3) by (auto simp: inj_on_def)
  then have "card (contents (zremrangebyscore R now k 0 (now - 60) r) now k) = card {e \<in> set E. now - 60 < fst e}"
    by (simp add: window_prune(1) [OF assms(1,2)] card_image)
  also have "{e \<in> set E. now - 60 < fst e} = set (within_minute now fst E)"
    by (simp add: within_minute_def)
  finally show ?thesis
    using assms(4) distinct_card [of "within_minute now fst E"] by (simp add: zcard within_minute_def)
qed

lemma sum_members_eq:
  "sum_members ms = (\<Sum>m \<leftarrow> ms. case int_of_str (takeWhile (\<lambda>c. c \<noteq> CHR '':'') m) of None \<Rightarrow> 0 | Some n \<Rightarrow> n)"
  by (induction ms) auto

lemma window_sum:
  assumes "window r now k enc E" "\<forall>e \<in> set E. 0 \<le> fst e" "inj_on enc (set E)" "distinct E"
    and "\<forall>e \<in> set E. int_of_str (takeWhile (\<lambda>c. c \<noteq> CHR '':'') (enc e)) = Some (snd e)"
  shows "sum_members (zrange R now k (zremrangebyscore R now k 0 (now - 60) r)) = sum_list (map snd (within_minute now fst E))"
proof -
  let ?f = "\<lambda>m. case int_of_str (takeWhile (\<lambda>c. c \<noteq> CHR '':'') m) of None \<Rightarrow> 0 | Some n \<Rightarrow> n"
  let ?E = "set (within_minute now fst E)"
  let ?ms = "zrange R now k (zremrangebyscore R now k 0 (now - 60) r)"
  have E: "?E = {e \<in> set E. now - 60 < fst e}" "?E \<subseteq> set E" by (auto simp: within_minute_def)
  have "set ?ms = enc ` ?E"
    by (simp add: zrange(2) window_prune(1) [OF assms(1,2)] E(1) image_image)
  moreover have "sum_list (map ?f ?ms) = sum ?f (set ?ms)"
    by (simp add: sum_list_distinct_conv_sum_set zrange(1))
  ultimately have "sum_members ?ms = sum ?f (enc ` ?E)"
    by (simp add: sum_members_eq)
  also have "\<dots> = sum (\<lambda>e. ?f (enc e)) ?E"
    using inj_on_subset [OF assms(3) E(2)] by (simp add: sum.reindex)
  also have "\<dots> = sum snd ?E" using assms(5) E(2) by (intro sum.cong) auto
  also have "\<dots> = sum_list (map snd (within_minute now fst E))"
    using assms(4) by (simp add: sum_list_distinct_conv_sum_set within_minute_def)
  finally show ?thesis .
qed

text \<open>How the keys of all tenants represent their histories.\<close>

definition represents :: "(real \<Rightarrow> string) \<Rightarrow> seconds set \<Rightarrow> 'r \<Rightarrow> seconds \<Rightarrow> histories \<Rightarrow> bool" where
  "represents frepr T r now H \<longleftrightarrow> (\<forall>i.
     window r now (req_key i) (req_enc frepr) (req_events (H i))
     \<and> window r now (tok_key i) (tok_enc frepr) (charges (H i))
     \<and> distinct (admissions (H i)) \<and> distinct (map fst (charges (H i)))
     \<and> set (admissions (H i)) \<union> fst ` set (charges (H i)) \<subseteq> {t \<in> T. 0 \<le> t \<and> t \<le> now}
     \<and> (\<forall>e \<in> set (charges (H i)). 0 < snd e))"

end

text \<open>The members of different events differ, as far as their times print differently.\<close>

definition prints_apart :: "(real \<Rightarrow> string) \<Rightarrow> seconds set \<Rightarrow> bool" where
  "prints_apart frepr T \<longleftrightarrow> inj_on frepr T \<and> (\<forall>t \<in> T. CHR '':'' \<notin> set (frepr t))"

lemma before_colon: "CHR '':'' \<notin> set s \<Longrightarrow> takeWhile (\<lambda>c. c \<noteq> CHR '':'') (s @ '':'' @ rest) = s"
  by (induction s) auto

lemma req_member_apart:
  assumes "prints_apart frepr T" "t \<in> T" "t' \<in> T" "req_member frepr t = req_member frepr t'"
  shows "t = t'"
proof -
  have "frepr t = frepr t'"
    using assms by (metis before_colon prints_apart_def req_member_def)
  with assms(1,2,3) show ?thesis by (auto simp: prints_apart_def inj_on_def)
qed

lemma show_nat_no_colon: "CHR '':'' \<notin> set (show_nat n)"
  using show_nat_digits [of n] by (auto simp: char_class_defs)

lemma before_colon_tok: "0 \<le> n \<Longrightarrow> takeWhile (\<lambda>c. c \<noteq> CHR '':'') (tok_member frepr t n) = show_nat (nat n)"
  using before_colon [OF show_nat_no_colon] by (simp add: tok_member_def show_int_def)

lemma tok_member_apart:
  assumes "prints_apart frepr T" "t \<in> T" "t' \<in> T" "0 < n" "0 < n'" "tok_member frepr t n = tok_member frepr t' n'"
  shows "t = t'"
proof -
  have "show_nat (nat n) = show_nat (nat n')"
    using before_colon_tok [of n frepr t] before_colon_tok [of n' frepr t'] assms(4,5,6) by simp
  with assms(4,5,6) have "frepr t = frepr t'" by (simp add: tok_member_def show_int_def)
  with assms(1,2,3) show ?thesis by (auto simp: prints_apart_def inj_on_def)
qed

lemma keys_apart [simp]:
  "req_key i = req_key j \<longleftrightarrow> i = j" "tok_key i = tok_key j \<longleftrightarrow> i = j"
  "req_key i \<noteq> tok_key j" "tok_key i \<noteq> req_key j"
  by (simp_all add: req_key_def tok_key_def)

lemma req_enc_inj: "prints_apart frepr T \<Longrightarrow> set ts \<subseteq> T \<Longrightarrow> inj_on (req_enc frepr) (set (map (\<lambda>t. (t, 1)) ts))"
  by (auto simp: inj_on_def req_enc_def dest: req_member_apart)

lemma tok_enc_inj:
  assumes "prints_apart frepr T" "fst ` set E \<subseteq> T" "\<forall>e \<in> set E. 0 < snd e" "distinct (map fst E)"
  shows "inj_on (tok_enc frepr) (set E)"
proof (rule inj_onI)
  fix x y assume xy: "x \<in> set E" "y \<in> set E" "tok_enc frepr x = tok_enc frepr y"
  then have "fst x = fst y"
    using assms(2,3) by (intro tok_member_apart [OF assms(1)]) (auto simp: tok_enc_def)
  with xy assms(4) show "x = y" by (metis distinct_map inj_onD)
qed

context sorted_sets
begin

lemma represents_later: "represents frepr T r now H \<Longrightarrow> now \<le> now' \<Longrightarrow> represents frepr T r now' H"
  unfolding represents_def by (fastforce intro: window_later)

lemma represents_prune:
  assumes "represents frepr T r now H" "k = req_key i \<or> k = tok_key i"
  shows "represents frepr T (zremrangebyscore R now k 0 (now - 60) r) now H"
proof -
  let ?r = "zremrangebyscore R now k 0 (now - 60) r"
  have 1: "window ?r now (req_key j) (req_enc frepr) (req_events (H j))" for j
  proof (cases "req_key j = k")
    case True
    have "window r now k (req_enc frepr) (req_events (H j))" "\<forall>e \<in> set (req_events (H j)). 0 \<le> fst e"
      using assms(1) True unfolding represents_def by (auto simp: image_subset_iff)
    with True show ?thesis using window_prune(2) by simp
  next
    case False
    then show ?thesis using assms(1) unfolding represents_def by (intro window_other(1)) auto
  qed
  have 2: "window ?r now (tok_key j) (tok_enc frepr) (charges (H j))" for j
  proof (cases "tok_key j = k")
    case True
    have "window r now k (tok_enc frepr) (charges (H j))" "\<forall>e \<in> set (charges (H j)). 0 \<le> fst e"
      using assms(1) True unfolding represents_def by (auto simp: image_subset_iff)
    with True show ?thesis using window_prune(2) by simp
  next
    case False
    then show ?thesis using assms(1) unfolding represents_def by (intro window_other(1)) auto
  qed
  from 1 2 assms(1) show ?thesis unfolding represents_def by blast
qed

lemma represents_admit:
  assumes "represents frepr T r now H" "prints_apart frepr T" "now \<in> T" "0 \<le> now"
    and fresh: "\<forall>t \<in> set (admissions (H i)). t < now"
  shows "represents frepr T (expire R now (req_key i) 120 (zadd R now (req_key i) (req_member frepr now) now r)) now
    (H(i := (H i)\<lparr>admissions := admissions (H i) @ [now]\<rparr>))"
proof -
  let ?r = "expire R now (req_key i) 120 (zadd R now (req_key i) (req_member frepr now) now r)"
  have T: "set (admissions (H j)) \<subseteq> T" for j using assms(1) unfolding represents_def by blast
  have "window ?r now (req_key i) (req_enc frepr) (req_events (H i) @ [(now, 1)])"
  proof -
    have "req_enc frepr (now, 1) \<notin> req_enc frepr ` set (req_events (H i))"
      using fresh T assms(3) req_member_apart [OF assms(2)] by (auto simp: req_enc_def) blast
    moreover have "\<forall>e \<in> set (req_events (H i)). fst e \<le> now" using fresh by auto
    ultimately show ?thesis
      using window_add [of r now "req_key i" "req_enc frepr" "req_events (H i)" 1] assms(1)
      unfolding represents_def by (simp add: req_enc_def)
  qed
  moreover have "window ?r now (req_key j) (req_enc frepr) (req_events (H j))" if "j \<noteq> i" for j
    using assms(1) that unfolding represents_def by (intro window_other(2)) auto
  moreover have "window ?r now (tok_key j) (tok_enc frepr) (charges (H j))" for j
    using assms(1) unfolding represents_def by (intro window_other(2)) auto
  ultimately show ?thesis
    using assms(1,3,4) fresh unfolding represents_def by auto
qed

lemma represents_charge:
  assumes "represents frepr T r now H" "prints_apart frepr T" "now \<in> T" "0 \<le> now" "0 < n"
    and fresh: "\<forall>e \<in> set (charges (H i)). fst e < now"
  shows "represents frepr T (expire R now (tok_key i) 120 (zadd R now (tok_key i) (tok_member frepr now n) now r)) now
    (H(i := (H i)\<lparr>charges := charges (H i) @ [(now, n)]\<rparr>))"
proof -
  let ?r = "expire R now (tok_key i) 120 (zadd R now (tok_key i) (tok_member frepr now n) now r)"
  have T: "fst ` set (charges (H i)) \<subseteq> T" "\<forall>e \<in> set (charges (H i)). 0 < snd e"
    using assms(1) unfolding represents_def by blast+
  have "window ?r now (tok_key i) (tok_enc frepr) (charges (H i) @ [(now, n)])"
  proof -
    have "tok_enc frepr (now, n) \<noteq> tok_enc frepr e" if "e \<in> set (charges (H i))" for e
      using fresh T that tok_member_apart [OF assms(2,3) _ assms(5), of "fst e" "snd e"]
      by (fastforce simp: tok_enc_def)
    then have "tok_enc frepr (now, n) \<notin> tok_enc frepr ` set (charges (H i))" by blast
    moreover have "\<forall>e \<in> set (charges (H i)). fst e \<le> now" using fresh by auto
    ultimately show ?thesis
      using window_add [of r now "tok_key i" "tok_enc frepr" "charges (H i)" n] assms(1)
      unfolding represents_def by (simp add: tok_enc_def)
  qed
  moreover have "window ?r now (tok_key j) (tok_enc frepr) (charges (H j))" if "j \<noteq> i" for j
    using assms(1) that unfolding represents_def by (intro window_other(2)) auto
  moreover have "window ?r now (req_key j) (req_enc frepr) (req_events (H j))" for j
    using assms(1) unfolding represents_def by (intro window_other(2)) auto
  ultimately show ?thesis
    using assms(1,3,4,5) fresh unfolding represents_def by auto
qed

text \<open>One call decides as the history does, and the keys go on representing the histories.\<close>

lemma redis_step_refines:
  assumes r: "represents frepr T r now H" and ev: "now < rl_time ev" "rl_time ev \<in> T" "0 \<le> rl_time ev"
    and apart: "prints_apart frepr T"
  shows "fst (redis_step R frepr ev r) = fst (shared_step ev H)
    \<and> represents frepr T (snd (redis_step R frepr ev r)) (rl_time ev) (snd (shared_step ev H))"
proof -
  have r': "represents frepr T r (rl_time ev) H" using represents_later [OF r] ev(1) by simp
  have fresh: "\<forall>t \<in> set (admissions (H i)). t < rl_time ev" "\<forall>e \<in> set (charges (H i)). fst e < rl_time ev" for i
    using r ev(1) unfolding represents_def by fastforce+
  have H: "distinct (admissions (H i))" "set (admissions (H i)) \<subseteq> T" "\<forall>t \<in> set (admissions (H i)). 0 \<le> t"
    "distinct (map fst (charges (H i)))" "fst ` set (charges (H i)) \<subseteq> T" "\<forall>e \<in> set (charges (H i)). 0 \<le> fst e \<and> 0 < snd e" for i
    using r unfolding represents_def by fastforce+
  show ?thesis
  proof (cases ev)
    case (Request t i l)
    let ?r1 = "zremrangebyscore R t (req_key i) 0 (t - 60) r"
    have "zcard R t (req_key i) ?r1 = length (within_minute t fst (req_events (H i)))"
      using r' Request H req_enc_inj [OF apart H(2)] unfolding represents_def
      by (intro window_count [of _ _ _ "req_enc frepr"]) (auto simp: distinct_map inj_on_def)
    then have count: "zcard R t (req_key i) ?r1 = length (within_minute t (\<lambda>t. t) (admissions (H i)))"
      by (simp add: within_minute_def filter_map o_def)
    have r1: "represents frepr T ?r1 t H" using represents_prune [OF r'] Request by simp
    note add = represents_admit [OF r1 apart _ _ fresh(1) [of i, unfolded Request rl_time.simps]]
    show ?thesis
      using r1 add ev by (auto simp: Request redis_check_request_def read_requests_def decide_request_def count Let_def)
  next
    case (Tokens t i l)
    let ?r1 = "zremrangebyscore R t (tok_key i) 0 (t - 60) r"
    have "sum_members (zrange R t (tok_key i) ?r1) = sum_list (map snd (within_minute t fst (charges (H i))))"
    proof (rule window_sum [of _ _ _ "tok_enc frepr"])
      show "window r t (tok_key i) (tok_enc frepr) (charges (H i))"
        using r' Tokens unfolding represents_def by auto
      show "inj_on (tok_enc frepr) (set (charges (H i)))"
        using H(4,5,6) by (intro tok_enc_inj [OF apart]) auto
      show "\<forall>e \<in> set (charges (H i)). int_of_str (takeWhile (\<lambda>c. c \<noteq> CHR '':'') (tok_enc frepr e)) = Some (snd e)"
      proof
        fix e assume "e \<in> set (charges (H i))"
        then have "0 < snd e" using H(6) by blast
        then show "int_of_str (takeWhile (\<lambda>c. c \<noteq> CHR '':'') (tok_enc frepr e)) = Some (snd e)"
          by (simp add: tok_enc_def before_colon_tok int_of_str_show_nat)
      qed
    qed (use H(4,6) in \<open>auto simp: distinct_map\<close>)
    then show ?thesis
      using represents_prune [OF r'] Tokens by (simp add: redis_check_tokens_def Let_def)
  next
    case (Charge t i n)
    note add = represents_charge [OF r' apart ev(2,3) _ fresh(2) [of i]]
    show ?thesis using r' add Charge by (simp add: redis_record_tokens_def)
  qed
qed

lemma redis_run_refines:
  "represents frepr T r now H \<Longrightarrow> prints_apart frepr T \<Longrightarrow> sorted_wrt (<) (now # map rl_time evs) \<Longrightarrow>
     rl_time ` set evs \<subseteq> {t \<in> T. 0 \<le> t} \<Longrightarrow> fst (redis_run R frepr evs r) = fst (shared_run evs H)"
proof (induction evs arbitrary: r now H)
  case (Cons ev evs)
  then have "fst (redis_step R frepr ev r) = fst (shared_step ev H)"
    and "represents frepr T (snd (redis_step R frepr ev r)) (rl_time ev) (snd (shared_step ev H))"
    using redis_step_refines [of frepr T r now H ev] by auto
  then show ?case
    using Cons.IH [of "snd (redis_step R frepr ev r)" "rl_time ev" "snd (shared_step ev H)"] Cons.prems
    by (simp add: case_prod_unfold Let_def)
qed simp

lemma represents_start:
  "(\<And>k. contents r now k = {} \<and> deadline r k = None) \<Longrightarrow> represents frepr T r now no_history"
  by (auto simp: represents_def window_def no_history_def)

text \<open>Reading a window that has no admission of the last minute.\<close>

lemma read_empty:
  assumes "represents frepr T r now no_history"
  shows "fst (read_requests R now i r) = 0 \<and> represents frepr T (snd (read_requests R now i r)) now no_history"
proof -
  have "zcard R now (req_key i) (zremrangebyscore R now (req_key i) 0 (now - 60) r) = 0"
    using window_count [of r now "req_key i" "req_enc frepr" "[]"] assms
    by (simp add: represents_def no_history_def within_minute_def)
  then show ?thesis using represents_prune [OF assms] by (simp add: read_requests_def Let_def)
qed

end

section \<open>A store of sorted sets\<close>

text \<open>
  A reference implementation of the commands: per key the pairs and the deadline. Keys past their
  deadline are dropped when they are used.
\<close>

type_synonym store = "string \<Rightarrow> (string \<times> real) list \<times> seconds option"

definition expired :: "store \<Rightarrow> seconds \<Rightarrow> string \<Rightarrow> bool" where
  "expired st t k = (case snd (st k) of Some d \<Rightarrow> d \<le> t | None \<Rightarrow> False)"

definition live :: "store \<Rightarrow> seconds \<Rightarrow> string \<Rightarrow> (string \<times> real) list" where
  "live st t k = (if expired st t k then [] else AList.clearjunk (fst (st k)))"

definition ttl_of :: "store \<Rightarrow> seconds \<Rightarrow> string \<Rightarrow> seconds option" where
  "ttl_of st t k = (if expired st t k then None else snd (st k))"

definition store_redis :: "store redis" where
  "store_redis = \<lparr>
     zremrangebyscore = (\<lambda>t k lo hi st. st(k := (filter (\<lambda>p. \<not> (lo \<le> snd p \<and> snd p \<le> hi)) (live st t k), ttl_of st t k))),
     zcard = (\<lambda>t k st. length (live st t k)),
     zadd = (\<lambda>t k m s st. st(k := (AList.update m s (live st t k), ttl_of st t k))),
     zrange = (\<lambda>t k st. map fst (sort_key snd (live st t k))),
     expire = (\<lambda>t k n st. st(k := (live st t k, if live st t k = [] then None else Some (t + n))))\<rparr>"

definition store_contents :: "store \<Rightarrow> seconds \<Rightarrow> string \<Rightarrow> (string \<times> real) set" where
  "store_contents st t k = set (live st t k)"

definition store_deadline :: "store \<Rightarrow> string \<Rightarrow> seconds option" where
  "store_deadline st k = snd (st k)"

lemma distinct_live: "distinct (map fst (live st t k))"
  by (simp add: live_def distinct_clearjunk)

lemma clearjunk_id: "distinct (map fst d) \<Longrightarrow> AList.clearjunk d = d"
  by (rule distinct_clearjunk_id)

lemma ttl_open: "ttl_of st t k = Some d \<Longrightarrow> t < d"
  by (auto simp: ttl_of_def expired_def split: option.splits if_splits)

lemma live_fun_upd:
  "live (st(k := (d, x))) t k' =
     (if k' = k then (if \<exists>e. x = Some e \<and> e \<le> t then [] else AList.clearjunk d) else live st t k')"
  by (auto simp: live_def expired_def split: option.split)

lemma set_update_distinct:
  "distinct (map fst d) \<Longrightarrow> set (AList.update m s d) = insert (m, s) {p \<in> set d. fst p \<noteq> m}"
  by (induction d) (auto simp: image_iff)

interpretation store: sorted_sets store_redis store_contents store_deadline
proof
  fix t t' lo hi s n :: real and k k' m :: string and r :: store and d
  have open': "\<not> (\<exists>e. ttl_of r t k = Some e \<and> e \<le> t)" using ttl_open [of r t k] by force
  note [simp] = store_redis_def store_contents_def store_deadline_def live_fun_upd open'
  show "store_contents (zremrangebyscore store_redis t k lo hi r) t k' =
      (if k' = k then {p \<in> store_contents r t k. \<not> (lo \<le> snd p \<and> snd p \<le> hi)} else store_contents r t k')"
    using distinct_live [of r t k] by (simp add: clearjunk_id distinct_map_filter)
  show "store_contents (zadd store_redis t k m s r) t k' =
      (if k' = k then insert (m, s) {p \<in> store_contents r t k. fst p \<noteq> m} else store_contents r t k')"
    using distinct_live [of r t k] by (simp add: clearjunk_id distinct_update set_update_distinct)
  show "store_contents (expire store_redis t k n r) t k' = store_contents r t k'" if "0 < n"
    using that distinct_live [of r t k] by (simp add: clearjunk_id)
  show "zcard store_redis t k r = card (store_contents r t k)"
    using distinct_live [of r t k] by (simp add: distinct_card distinct_map)
  show "distinct (zrange store_redis t k r)"
    using distinct_live [of r t k] by (simp add: distinct_map)
  show "set (zrange store_redis t k r) = fst ` store_contents r t k" by simp
  show "store_contents r t' k = (case store_deadline r k of Some d \<Rightarrow> if d \<le> t' then {} else store_contents r t k
      | None \<Rightarrow> store_contents r t k)" if "t \<le> t'"
    using that by (auto simp: live_def expired_def split: option.split)
  show "store_deadline (zremrangebyscore store_redis t k lo hi r) k' = Some d \<Longrightarrow> store_deadline r k' = Some d"
    "store_deadline (zadd store_redis t k m s r) k' = Some d \<Longrightarrow> store_deadline r k' = Some d"
    "store_deadline (expire store_redis t k n r) k' = Some d \<Longrightarrow> if k' = k then d = t + n else store_deadline r k' = Some d"
    by (auto simp: ttl_of_def split: if_splits)
qed

section \<open>Properties\<close>

text \<open>
  C30. The Redis limiter, used by one caller at a time, limits exactly: on an empty Redis, over any
  sequence of request checks, token checks and charges of any tenants at strictly increasing
  clock readings, it decides as a limiter that keeps the complete history and counts what lies
  strictly within the last 60 seconds. Neither the pruning, nor the expiry of keys, nor the
  coding of token counts in member names loses or invents anything.
\<close>

theorem redis_limiter_refines_history:
  assumes "sorted_sets R contents deadline" "\<forall>t k. contents r t k = {} \<and> deadline r k = None"
    and "sorted_wrt (<) (map rl_time evs)" "\<forall>ev \<in> set evs. 0 \<le> rl_time ev"
    and "prints_apart frepr (set (map rl_time evs))"
  shows "fst (redis_run R frepr evs r) = fst (shared_run evs no_history)"
proof (cases evs)
  case (Cons ev rest)
  have "sorted_sets.represents contents deadline frepr (set (map rl_time evs)) r (rl_time ev - 1) no_history"
    by (rule sorted_sets.represents_start [OF assms(1)]) (use assms(2) in simp)
  then show ?thesis
    by (rule sorted_sets.redis_run_refines [OF assms(1) _ assms(5)]) (use assms(3,4) Cons in auto)
qed simp

text \<open>A printing of the clock readings of the example.\<close>

definition demo_repr :: "real \<Rightarrow> string" where
  "demo_repr x = show_int \<lfloor>x\<rfloor>"

lemma demo_apart: "prints_apart demo_repr {0, 30, 31, 61}"
proof -
  have "inj_on demo_repr {0, 30, 31, 61}"
    by (simp add: demo_repr_def inj_on_def show_int_def show_nat.simps digit_char_def)
  then show ?thesis
    using show_nat_no_colon by (auto simp: prints_apart_def demo_repr_def show_int_def)
qed

definition empty_store :: store where
  "empty_store = (\<lambda>k. ([], None))"

lemma empty_store_simps [simp]: "store_contents empty_store t k = {}" "store_deadline empty_store k = None"
  by (simp_all add: store_contents_def store_deadline_def live_def expired_def empty_store_def)

lemma redis_limiter_refines_history_witness:
  "fst (redis_run store_redis demo_repr
      [Request 0 ''a'' 1, Request 30 ''a'' 1, Charge 31 ''a'' 5, Request 61 ''a'' 1] empty_store)
    = [Decided admit, Decided (refuse (RpmExceeded 1) None), Charged, Decided admit]"
proof -
  have "fst (redis_run store_redis demo_repr
      [Request 0 ''a'' 1, Request 30 ''a'' 1, Charge 31 ''a'' 5, Request 61 ''a'' 1] empty_store)
    = fst (shared_run [Request 0 ''a'' 1, Request 30 ''a'' 1, Charge 31 ''a'' 5, Request 61 ''a'' 1] no_history)"
    by (rule redis_limiter_refines_history [OF store.sorted_sets_axioms]) (use demo_apart in simp_all)
  then show ?thesis
    by (simp add: no_history_def within_minute_def)
qed

text \<open>
  The Redis limiter is not atomic. With a limit of one request per minute, two processes
  that both read the count before either writes are both admitted; one after the other, the
  second is refused.
\<close>

theorem redis_limiter_not_atomic:
  assumes "sorted_sets R contents deadline" "\<forall>t k. contents r t k = {} \<and> deadline r k = None"
    and "0 \<le> t" "t < t'" "t' < t + 60" "prints_apart frepr {t, t'}"
    and "read_requests R t i r = (a, r1)" "read_requests R t' i r1 = (b, r2)"
    and "decide_request R frepr t i 1 a r2 = (d, r3)" "decide_request R frepr t' i 1 b r3 = (d', r4)"
  shows "d = admit \<and> d' = admit
    \<and> fst (redis_run R frepr [Request t i 1, Request t' i 1] r)
        = [Decided admit, Decided (refuse (RpmExceeded 1) None)]"
proof -
  have start: "sorted_sets.represents contents deadline frepr {t, t'} r u no_history" for u
    by (rule sorted_sets.represents_start [OF assms(1)]) (use assms(2) in simp)
  have "a = 0" and r1: "sorted_sets.represents contents deadline frepr {t, t'} r1 t no_history"
    using sorted_sets.read_empty [OF assms(1) start [of t], of i] assms(7) by auto
  moreover have "b = 0"
    using sorted_sets.read_empty [OF assms(1) sorted_sets.represents_later [OF assms(1) r1, of t'], of i] assms(4,8)
    by auto
  moreover have "fst (redis_run R frepr [Request t i 1, Request t' i 1] r)
      = fst (shared_run [Request t i 1, Request t' i 1] no_history)"
    by (rule sorted_sets.redis_run_refines [OF assms(1) start [of "t - 1"] assms(6)]) (use assms(3,4) in auto)
  ultimately show ?thesis
    using assms(4,5,9,10) by (auto simp: decide_request_def no_history_def within_minute_def)
qed

lemma redis_limiter_not_atomic_witness:
  "\<exists>a r1 b r2 r3 r4. read_requests store_redis 0 ''a'' empty_store = (a, r1)
    \<and> read_requests store_redis 30 ''a'' r1 = (b, r2)
    \<and> decide_request store_redis demo_repr 0 ''a'' 1 a r2 = (admit, r3)
    \<and> decide_request store_redis demo_repr 30 ''a'' 1 b r3 = (admit, r4)
    \<and> fst (redis_run store_redis demo_repr [Request 0 ''a'' 1, Request 30 ''a'' 1] empty_store)
        = [Decided admit, Decided (refuse (RpmExceeded 1) None)]"
proof -
  obtain a r1 where 1: "read_requests store_redis 0 ''a'' empty_store = (a, r1)" by fastforce
  obtain b r2 where 2: "read_requests store_redis 30 ''a'' r1 = (b, r2)" by fastforce
  obtain d r3 where 3: "decide_request store_redis demo_repr 0 ''a'' 1 a r2 = (d, r3)" by fastforce
  obtain d' r4 where 4: "decide_request store_redis demo_repr 30 ''a'' 1 b r3 = (d', r4)" by fastforce
  have "prints_apart demo_repr {0, 30}"
    using demo_apart unfolding prints_apart_def by (auto intro: inj_on_subset)
  with redis_limiter_not_atomic [OF store.sorted_sets_axioms _ _ _ _ _ 1 2 3 4] 1 2 3 4 show ?thesis by simp
qed

end
