(* ===== verification/Pricing.thy ===== *)
theory Pricing
  imports Schemas
begin

text \<open>
  \<open>providers/pricing.py\<close>: the price table and the cost of a completion.
\<close>

record model_pricing =
  input_per_million :: usd
  output_per_million :: usd

definition cost :: "model_pricing \<Rightarrow> int \<Rightarrow> int \<Rightarrow> usd" where
  "cost p pt ct =
     of_int pt * input_per_million p / 1000000 + of_int ct * output_per_million p / 1000000"

definition price :: "usd \<Rightarrow> usd \<Rightarrow> model_pricing" where
  "price i out = \<lparr>input_per_million = i, output_per_million = out\<rparr>"

definition PRICING :: "(model_id, model_pricing) dict" where
  "PRICING =
     [(''anthropic.claude-sonnet-4-5-20250929-v1:0'', price 3 15),
      (''us.anthropic.claude-sonnet-4-5-20250929-v1:0'', price 3 15),
      (''anthropic.claude-haiku-4-5'', price (4 / 5) 4),
      (''gpt-4o'', price (5 / 2) 10),
      (''gpt-4o-mini'', price (3 / 20) (3 / 5)),
      (''gpt-4.1'', price 2 8),
      (''gpt-4.1-mini'', price (2 / 5) (8 / 5))]"

text \<open>
  The lookup falls back to the first table entry whose name ends with the model id or the
  other way round (\<open>str.endswith\<close>).
\<close>

definition find_pricing :: "model_id \<Rightarrow> model_pricing option" where
  "find_pricing m = (case map_of PRICING m of
       Some p \<Rightarrow> Some p
     | None \<Rightarrow> map_option snd (find (\<lambda>(known, p). suffix known m \<or> suffix m known) PRICING))"

definition estimate_cost :: "model_id \<Rightarrow> int \<Rightarrow> int \<Rightarrow> usd option" where
  "estimate_cost m pt ct = (case find_pricing m of
       None \<Rightarrow> None
     | Some p \<Rightarrow> Some (py_round 6 (cost p pt ct)))"

section \<open>Facts of the price table\<close>

lemma PRICING_ok: "dict_ok PRICING"
  by (simp add: dict_ok_def PRICING_def)

lemma snd_PRICING: "map snd PRICING = [price 3 15, price 3 15, price (4 / 5) 4, price (5 / 2) 10,
    price (3 / 20) (3 / 5), price 2 8, price (2 / 5) (8 / 5)]"
  by (simp only: PRICING_def list.map snd_conv)

lemma PRICING_range:
  assumes "p \<in> snd ` set PRICING"
  shows "0 < input_per_million p \<and> input_per_million p \<le> 3 \<and>
     0 < output_per_million p \<and> output_per_million p \<le> 15"
proof -
  have "list_all (\<lambda>p. 0 < input_per_million p \<and> input_per_million p \<le> 3 \<and>
     0 < output_per_million p \<and> output_per_million p \<le> 15) (map snd PRICING)"
    by (simp add: snd_PRICING price_def)
  with assms show ?thesis by (auto simp: list_all_iff)
qed

lemma find_pricing_in: "find_pricing m = Some p \<Longrightarrow> p \<in> snd ` set PRICING"
proof (cases "map_of PRICING m")
  case None
  moreover assume "find_pricing m = Some p"
  ultimately obtain k where "find (\<lambda>(known, p). suffix known m \<or> suffix m known) PRICING = Some (k, p)"
    by (auto simp: find_pricing_def)
  then have "(k, p) \<in> set PRICING" by (metis find_Some_iff nth_mem)
  then show ?thesis by force
next
  case (Some q)
  moreover assume "find_pricing m = Some p"
  ultimately show ?thesis by (force simp: find_pricing_def dest: map_of_SomeD)
qed

lemma cost_mono:
  assumes "0 \<le> input_per_million p" "0 \<le> output_per_million p" "pt \<le> pt'" "ct \<le> ct'"
  shows "cost p pt ct \<le> cost p pt' ct'"
  using assms unfolding cost_def
  by (intro add_mono divide_right_mono mult_right_mono) auto

lemma cost_zero [simp]: "cost p 0 0 = 0"
  by (simp add: cost_def)

text \<open>
  Two table entries of which one name ends with the other have the same price, so the order of
  the suffix scan does not matter.
\<close>

lemma PRICING_suffix_compatible:
  "(k, q) \<in> set PRICING \<Longrightarrow> (k', q') \<in> set PRICING \<Longrightarrow> suffix k k' \<Longrightarrow> q = q'"
proof -
  have "list_all (\<lambda>(k, q). list_all (\<lambda>(k', q'). suffix k k' \<longrightarrow> q = q') PRICING) PRICING"
    by (simp add: PRICING_def suffix_to_prefix)
  then show "(k, q) \<in> set PRICING \<Longrightarrow> (k', q') \<in> set PRICING \<Longrightarrow> suffix k k' \<Longrightarrow> q = q'"
    by (force simp: list_all_iff)
qed

lemma suffix_compatible: "suffix k m \<Longrightarrow> suffix k' m \<Longrightarrow> suffix k k' \<or> suffix k' k"
  by (simp add: suffix_to_prefix prefix_same_cases)

section \<open>Properties\<close>

text \<open>
  Every price the gateway charges is within half a micro-dollar of the exact price of
  the tokens, is never negative, and grows with the token counts: a completion with at
  least as many prompt and completion tokens never costs less.
\<close>

theorem estimate_cost_bounds:
  assumes "estimate_cost m pt ct = Some c" and "0 \<le> pt" "0 \<le> ct"
  shows "\<exists>p. find_pricing m = Some p \<and> \<bar>c - cost p pt ct\<bar> \<le> 1 / 2000000 \<and> 0 \<le> c
      \<and> (\<forall>pt' ct'. \<exists>c'. estimate_cost m pt' ct' = Some c'
           \<and> (pt' < pt \<or> ct' < ct \<or> c \<le> c'))"
proof -
  obtain p where p: "find_pricing m = Some p" and c: "c = py_round 6 (cost p pt ct)"
    using assms(1) by (auto simp: estimate_cost_def split: option.splits)
  have pos: "0 \<le> input_per_million p" "0 \<le> output_per_million p"
    using PRICING_range [OF find_pricing_in [OF p]] by auto
  have "0 \<le> cost p pt ct" using cost_mono [OF pos, of 0 pt 0 ct] assms by simp
  then have "0 \<le> c" by (simp add: c py_round_nonneg)
  moreover have "\<bar>c - cost p pt ct\<bar> \<le> 1 / 2000000"
    using py_round_error [of 6 "cost p pt ct"] by (simp add: c)
  moreover have "\<exists>c'. estimate_cost m pt' ct' = Some c' \<and> (pt' < pt \<or> ct' < ct \<or> c \<le> c')"
    for pt' ct'
    using p cost_mono [OF pos, of pt pt' ct ct']
    by (auto simp: estimate_cost_def c intro!: py_round_mono) 
  ultimately show ?thesis using p by blast
qed

theorem estimate_cost_bounds_witness:
  "estimate_cost ''gpt-4o'' 1000 200 = Some (9 / 2000)
    \<and> \<bar>(9 / 2000) - cost (price (5 / 2) 10) 1000 200\<bar> \<le> 1 / 2000000"
proof -
  have p: "find_pricing ''gpt-4o'' = Some (price (5 / 2) 10)"
    by (simp add: find_pricing_def PRICING_def)
  then have c: "estimate_cost ''gpt-4o'' 1000 200 = Some (9 / 2000)"
    by (simp add: estimate_cost_def cost_def price_def py_round_def round_half_even_def)
  with estimate_cost_bounds [OF c] p show ?thesis by auto
qed

text \<open>
  A routing prefix does not change a price: for a model of the table, the same name behind
  any prefix (a Bedrock inference-profile region, say) is found and costs the same, and a name
  that neither ends with a table entry nor ends one has no price at all.
\<close>

theorem pricing_of_prefixed_model:
  "(map_of PRICING k = Some q \<longrightarrow> find_pricing (r @ k) = Some q)
    \<and> (find_pricing m = None \<longleftrightarrow> (\<forall>known \<in> fst ` set PRICING. \<not> suffix known m \<and> \<not> suffix m known))"
proof (intro conjI impI)
  assume k: "map_of PRICING k = Some q"
  have same: "q' = q" if "(k', q') \<in> set PRICING" "suffix k' (r @ k) \<or> suffix (r @ k) k'" for k' q'
  proof -
    have "suffix k (r @ k)" by (simp add: suffix_def)
    then have "suffix k' k \<or> suffix k k'"
      using that(2) suffix_compatible [of k' "r @ k" k] suffix_order.trans [of k "r @ k" k'] by blast
    then show ?thesis
      using PRICING_suffix_compatible that(1) map_of_SomeD [OF k] by metis
  qed
  have "find (\<lambda>(known, p). suffix known (r @ k) \<or> suffix (r @ k) known) PRICING \<noteq> None"
    using map_of_SomeD [OF k] suffixI [of "r @ k" r k] by (auto simp: find_None_iff)
  then obtain k' q' where f: "find (\<lambda>(known, p). suffix known (r @ k) \<or> suffix (r @ k) known) PRICING
      = Some (k', q')"
    by auto
  then have "(k', q') \<in> set PRICING" "suffix k' (r @ k) \<or> suffix (r @ k) k'"
    by (auto simp: find_Some_iff) (metis nth_mem)+
  from same [OF this] f show "find_pricing (r @ k) = Some q"
    by (auto simp: find_pricing_def split: option.splits dest!: map_of_SomeD dest: same)
next
  show "find_pricing m = None \<longleftrightarrow> (\<forall>known \<in> fst ` set PRICING. \<not> suffix known m \<and> \<not> suffix m known)"
  proof (cases "map_of PRICING m")
    case None
    then show ?thesis by (fastforce simp: find_pricing_def find_None_iff)
  next
    case (Some p)
    then have "m \<in> fst ` set PRICING" by (force dest: map_of_SomeD)
    with Some show ?thesis by (auto simp: find_pricing_def intro: bexI [of _ m])
  qed
qed

theorem pricing_of_prefixed_model_witness:
  "map_of PRICING ''gpt-4o'' = Some (price (5 / 2) 10)
    \<and> find_pricing ''azure/gpt-4o'' = Some (price (5 / 2) 10)"
proof -
  have p: "map_of PRICING ''gpt-4o'' = Some (price (5 / 2) 10)" by (simp add: PRICING_def)
  with pricing_of_prefixed_model [of "''gpt-4o''" "price (5 / 2) 10" "''azure/''" "[]"]
  show ?thesis by simp
qed

text \<open>
  Hence a dated name, which is what the OpenAI API answers with, is not priced.
\<close>

lemma dated_model_not_priced: "estimate_cost ''gpt-4o-mini-2024-07-18'' pt ct = None"
  by (simp add: estimate_cost_def find_pricing_def PRICING_def suffix_to_prefix)

end
