(* ===== verification/Routing.thy ===== *)
theory Routing
  imports Pricing Registry "HOL-Library.Multiset"
begin

text \<open>
  \<open>routing/policies.py\<close>: from the model field of a request to the ordered chain of
  (provider, upstream model) candidates the router tries.
\<close>

type_synonym candidate = "string \<times> model_id"

definition ALIASES :: "string set" where
  "ALIASES = {''auto'', ''cheapest'', ''fastest''}"

text \<open>\<open>getattr(p, "default_model", None) or (p.list_models()[0] if p.list_models() else None)\<close>\<close>

definition auto_choice :: "provider \<Rightarrow> model_id option" where
  "auto_choice p =
     (if given (default_model p) then default_model p
      else (case list_models p of [] \<Rightarrow> None | m # _ \<Rightarrow> Some m))"

definition auto_candidates :: "entry list \<Rightarrow> candidate list" where
  "auto_candidates es =
     concat (map (\<lambda>e. case auto_choice (eprovider e) of
         None \<Rightarrow> []
       | Some m \<Rightarrow> if m \<noteq> [] then [(pname (eprovider e), m)] else []) es)"

definition priced_candidates :: "entry list \<Rightarrow> (usd \<times> string \<times> model_id) list" where
  "priced_candidates es =
     concat (map (\<lambda>e. concat (map (\<lambda>m. case map_of PRICING m of
         None \<Rightarrow> []
       | Some pr \<Rightarrow> [(input_per_million pr, pname (eprovider e), m)])
       (list_models (eprovider e)))) es)"

definition cut :: "bool \<Rightarrow> 'a list \<Rightarrow> 'a list" where
  "cut fallback chain = (if fallback then chain else take 1 chain)"

definition resolve_chain ::
  "clock \<Rightarrow> model_id \<Rightarrow> bool \<Rightarrow> nat \<Rightarrow> registry \<Rightarrow> candidate list \<times> registry \<times> nat"
where
  "resolve_chain clk m fallback n reg =
     (if m \<notin> ALIASES
      then (let (cands, reg', n') = for_model clk m True n reg
            in (cut fallback (map (\<lambda>e. (pname (eprovider e), m)) cands), reg', n'))
      else (let (avail, reg', n') = poll clk (\<lambda>_. True) n reg
            in if m \<in> {''cheapest'', ''fastest''}
               then (cut fallback (map snd (sort_key fst (priced_candidates avail))), reg', n')
               else (cut fallback (auto_candidates avail), reg', n')))"

section \<open>Facts of the chain\<close>

definition polled :: "model_id \<Rightarrow> entry \<Rightarrow> bool" where
  "polled m e \<longleftrightarrow> m \<in> ALIASES \<or> supports_model (eprovider e) m"

definition candidates_of :: "model_id \<Rightarrow> entry list \<Rightarrow> candidate list" where
  "candidates_of m es =
     (if m \<notin> ALIASES then map (\<lambda>e. (pname (eprovider e), m)) es
      else if m \<in> {''cheapest'', ''fastest''} then map snd (sort_key fst (priced_candidates es))
      else auto_candidates es)"

lemma polled_concrete: "m \<notin> ALIASES \<Longrightarrow> (\<lambda>e. supports_model (eprovider e) m) = polled m"
  and polled_alias: "m \<in> ALIASES \<Longrightarrow> (\<lambda>_. True) = polled m"
  by (simp_all add: polled_def fun_eq_iff)

lemma resolve_chain_eq:
  "resolve_chain clk m fb n reg =
     (cut fb (candidates_of m (poll_out clk (polled m) n reg)), poll_reg clk (polled m) n reg,
      snd (snd (poll clk (polled m) n reg)))"
  by (cases "m \<in> ALIASES")
     (simp_all add: resolve_chain_def for_model_def candidates_of_def case_prod_unfold Let_def
        polled_concrete polled_alias)

lemma set_cut: "set (cut fb xs) \<subseteq> set xs"
  by (auto simp: cut_def dest: in_set_takeD)

lemma length_cut: "length (cut False xs) \<le> 1"
  by (simp add: cut_def)

lemma cut_Nil_iff [simp]: "cut fb xs = [] \<longleftrightarrow> xs = []"
  by (simp add: cut_def)

definition candidate_models :: "model_id \<Rightarrow> entry \<Rightarrow> model_id set" where
  "candidate_models m e =
     (if m \<notin> ALIASES then {m} \<inter> {x. supports_model (eprovider e) x}
      else if m = ''auto'' then {d. auto_choice (eprovider e) = Some d \<and> d \<noteq> []}
      else {x \<in> set (list_models (eprovider e)). map_of PRICING x \<noteq> None})"

lemma set_auto_candidates:
  "set (auto_candidates es) =
     {(pname (eprovider e), d) | e d. e \<in> set es \<and> auto_choice (eprovider e) = Some d \<and> d \<noteq> []}"
  by (force simp: auto_candidates_def split: option.splits if_splits)

lemma set_priced_candidates:
  "set (priced_candidates es) =
     {(input_per_million pr, pname (eprovider e), x) | e x pr.
        e \<in> set es \<and> x \<in> set (list_models (eprovider e)) \<and> map_of PRICING x = Some pr}"
  by (force simp: priced_candidates_def split: option.splits)

text \<open>Every candidate comes from a registered provider whose circuit admitted the request.\<close>

lemma candidate_models_polled: "x \<in> candidate_models m e \<Longrightarrow> polled m e"
  by (auto simp: candidate_models_def polled_def split: if_splits)

lemma set_candidates_of:
  assumes "\<forall>e \<in> set es. polled m e"
  shows "set (candidates_of m es) =
     {(pname (eprovider e), x) | e x. e \<in> set es \<and> x \<in> candidate_models m e}"
proof (cases "m \<in> ALIASES")
  case False
  with assms show ?thesis by (auto simp: candidates_of_def candidate_models_def polled_def)
next
  case True
  then show ?thesis
    by (cases "m = ''auto''")
       (force simp: candidates_of_def candidate_models_def set_auto_candidates
          set_priced_candidates ALIASES_def)+
qed

lemma polled_asked [simp]: "polled m (asked now e) = polled m e"
  by (simp add: polled_def)

lemma set_chain:
  "set (candidates_of m (poll_out clk (polled m) n reg)) =
     {(pname (eprovider e), x) | k e x. (k, e) \<in> set (poll_reg clk (polled m) n reg)
        \<and> cstate (ebreaker e) \<noteq> Open \<and> x \<in> candidate_models m e}"
proof -
  have "\<forall>e \<in> set (poll_out clk (polled m) n reg). polled m e"
    by (auto dest!: poll_out_entry)
  then show ?thesis
    by (force simp: set_candidates_of set_poll_out dest: candidate_models_polled)
qed

section \<open>The provider contract, used\<close>

context provider_contract
begin

lemma auto_choice_supported: "auto_choice p = Some m \<Longrightarrow> supports_model p m"
  by (auto simp: auto_choice_def split: if_splits list.splits
      intro: lists_supported default_supported)

text \<open>Whatever the request names, the chain hands a provider only models it supports.\<close>

lemma candidate_supported: "eprovider e = p \<Longrightarrow> x \<in> candidate_models m e \<Longrightarrow> supports_model p x"
  by (auto simp: candidate_models_def auto_choice_supported lists_supported split: if_splits)

end

lemma chain_members:
  assumes "wf_registry reg" and "resolve_chain clk m True n reg = (chain, reg', n')"
  shows "(p, x) \<in> set chain \<longleftrightarrow>
    (\<exists>e. map_of reg' p = Some e \<and> cstate (ebreaker e) \<noteq> Open \<and> x \<in> candidate_models m e)"
proof -
  have c: "chain = candidates_of m (poll_out clk (polled m) n reg)"
    and r: "reg' = poll_reg clk (polled m) n reg"
    using assms(2) by (simp_all add: resolve_chain_eq cut_def)
  have wf: "wf_registry reg'" using assms(1) by (simp add: r wf_poll)
  then have get: "map_of reg' k = Some e \<longleftrightarrow> (k, e) \<in> set reg'" for k e
    by (simp add: wf_registry_def dict_get_iff)
  have key: "(k, e) \<in> set reg' \<Longrightarrow> pname (eprovider e) = k" for k e
    using wf by (auto simp: wf_registry_def)
  show ?thesis by (auto simp: c set_chain get simp flip: r dest: key)
qed

definition input_price :: "model_id \<Rightarrow> usd" where
  "input_price x = (case map_of PRICING x of None \<Rightarrow> 0 | Some pr \<Rightarrow> input_per_million pr)"

section \<open>Properties\<close>

text \<open>
  C40. The chain for a request holds exactly the candidates the policy promises: a provider
  and a model are in it if and only if the provider is registered, its circuit is not open
  once it has been asked, and the model is the requested one (and the provider supports it)
  for a concrete model, the provider's default for \<open>auto\<close>, one of its listed and priced models
  for \<open>cheapest\<close> and \<open>fastest\<close>. With fallback disabled the chain is cut to at most one of them.
\<close>

theorem resolve_chain_exact:
  assumes "wf_registry reg" and "resolve_chain clk m True n reg = (chain, reg', n')"
  shows "((p, x) \<in> set chain \<longleftrightarrow>
      (\<exists>e. map_of reg' p = Some e \<and> cstate (ebreaker e) \<noteq> Open
         \<and> (if m \<notin> ALIASES then x = m \<and> supports_model (eprovider e) m
            else if m = ''auto'' then auto_choice (eprovider e) = Some x \<and> x \<noteq> []
            else x \<in> set (list_models (eprovider e)) \<and> map_of PRICING x \<noteq> None)))
    \<and> fst (resolve_chain clk m False n reg) = take 1 chain"
  using chain_members [OF assms, of p x] assms(2)
  by (auto simp: candidate_models_def resolve_chain_eq cut_def)

text \<open>
  The price-ranked aliases really rank by price: the chain of \<open>cheapest\<close> (and of
  \<open>fastest\<close>) is in ascending order of the table's input price, and no priced model of an
  available provider is lost or repeated by the sorting.
\<close>

theorem cheapest_chain_sorted:
  assumes "m = ''cheapest'' \<or> m = ''fastest''"
    and "resolve_chain clk m True n reg = (chain, reg', n')"
  shows "sorted (map (\<lambda>(p, x). input_price x) chain)
    \<and> mset chain = mset (map snd (priced_candidates (poll_out clk (polled m) n reg)))"
proof -
  define cs where "cs = priced_candidates (poll_out clk (polled m) n reg)"
  have c: "chain = map snd (sort_key fst cs)"
    using assms by (auto simp: resolve_chain_eq cut_def candidates_of_def ALIASES_def cs_def)
  have "\<forall>(pr, p, x) \<in> set cs. pr = input_price x"
    by (auto simp: cs_def set_priced_candidates input_price_def)
  then have "map (\<lambda>(p, x). input_price x) chain = map fst (sort_key fst cs)"
    by (auto simp: c)
  moreover have "mset chain = mset (map snd cs)" by (simp add: c)
  ultimately show ?thesis by (simp only: cs_def [symmetric] sorted_sort_key simp_thms)
qed

text \<open>Two fake providers, as the witnesses below register them.\<close>

definition demo_provider :: "string \<Rightarrow> model_id list \<Rightarrow> (nat \<Rightarrow> chat_outcome) \<Rightarrow> provider" where
  "demo_provider name ms outcome =
     \<lparr>pname = name, supports_model = (\<lambda>m. m \<in> set ms), list_models = ms,
      default_model = (case ms of [] \<Rightarrow> None | m # _ \<Rightarrow> Some m),
      chat = (\<lambda>n req m. outcome n), health = True\<rparr>"

definition demo_registry :: "(nat \<Rightarrow> chat_outcome) \<Rightarrow> (nat \<Rightarrow> chat_outcome) \<Rightarrow> registry" where
  "demo_registry f g =
     register default_settings (demo_provider ''beta'' [''gpt-4o-mini'', ''m''] g)
       (register default_settings (demo_provider ''alpha'' [''gpt-4o'', ''m''] f) [])"

lemma wf_demo_registry: "wf_registry (demo_registry f g)"
proof -
  have "wf_registry []" by (simp add: wf_registry_def)
  moreover have "0 < circuit_breaker_failure_threshold default_settings"
    by (simp add: default_settings_def)
  ultimately show ?thesis unfolding demo_registry_def by (intro wf_register)
qed

lemmas demo_simps = demo_registry_def demo_provider_def register_def default_settings_def
  new_breaker_def

definition demo_chat :: "nat \<Rightarrow> chat_outcome" where
  "demo_chat n = Unexpected KeyError"

theorem resolve_chain_exact_witness:
  "\<exists>reg' n'. resolve_chain (\<lambda>_. 0) ''m'' True 0 (demo_registry demo_chat demo_chat)
      = ([(''alpha'', ''m''), (''beta'', ''m'')], reg', n')
    \<and> fst (resolve_chain (\<lambda>_. 0) ''m'' False 0 (demo_registry demo_chat demo_chat)) = [(''alpha'', ''m'')]"
proof -
  obtain chain reg' n' where
    e: "resolve_chain (\<lambda>_. 0) ''m'' True 0 (demo_registry demo_chat demo_chat) = (chain, reg', n')"
    by (metis prod_cases3)
  moreover have "chain = [(''alpha'', ''m''), (''beta'', ''m'')]"
    using e by (simp add: resolve_chain_eq cut_def candidates_of_def ALIASES_def demo_simps
        polled_def)
  ultimately show ?thesis
    using resolve_chain_exact [OF wf_demo_registry e] by simp
qed

theorem cheapest_chain_sorted_witness:
  "\<exists>chain reg' n'. resolve_chain (\<lambda>_. 0) ''cheapest'' True 0 (demo_registry demo_chat demo_chat) = (chain, reg', n')
    \<and> sorted (map (\<lambda>(p, x). input_price x) chain)"
proof -
  obtain chain reg' n' where
    e: "resolve_chain (\<lambda>_. 0) ''cheapest'' True 0 (demo_registry demo_chat demo_chat) = (chain, reg', n')"
    by (metis prod_cases3)
  then show ?thesis using cheapest_chain_sorted [OF disjI1 [OF refl] e] by blast
qed

end
