(* ===== verification/Router.thy ===== *)
theory Router
  imports Routing
begin

text \<open>
  \<open>routing/router.py\<close>: executing the chain. The environment of a request holds what the
  process reads from outside, each as a function of a counter that grows by three in every
  iteration: the monotonic clock of the breakers, the performance counter, the wall clock and
  the fresh identifiers of \<open>uuid4\<close>. The same counter orders the calls to the providers.
  One request runs at a time here; requests in flight at once are treated in \<open>Coroutine\<close> and \<open>Interleaving\<close>.
\<close>

record env =
  mono :: clock
  perf :: clock
  wall :: clock
  fresh_hex :: "nat \<Rightarrow> string"

datatype route_error =
    NoProviderAvailable model_id
  | AllProvidersFailed "string list" last_error

definition attempt_label :: "candidate \<Rightarrow> string" where
  "attempt_label c = fst c @ '':'' @ snd c"

definition normalized_response ::
  "env \<Rightarrow> nat \<Rightarrow> seconds \<Rightarrow> string \<Rightarrow> provider_response \<Rightarrow> string list \<Rightarrow> chat_response"
where
  "normalized_response ev n started p r attempts =
     \<lparr>resp_id = ''chatcmpl-'' @ take 24 (fresh_hex ev n),
      resp_created = trunc (wall ev n),
      resp_model = pr_model r,
      choices = [\<lparr>index = 0,
                  message = \<lparr>cm_role = ''assistant'', cm_content = Some (pr_content r)\<rparr>,
                  finish_reason = Some (pr_finish_reason r)\<rparr>],
      resp_usage = \<lparr>prompt_tokens = pr_prompt_tokens r,
                    completion_tokens = pr_completion_tokens r,
                    total_tokens = pr_total_tokens r\<rparr>,
      gateway = Some \<lparr>gm_provider = p,
                      gm_upstream_model = pr_model r,
                      gm_latency_ms = py_round 2 ((perf ev n - started) * 1000),
                      gm_cache = CacheMiss,
                      gm_fallback_used = (1 < length attempts),
                      gm_attempts = attempts,
                      gm_cost_usd = estimate_cost (pr_model r) (pr_prompt_tokens r)
                        (pr_completion_tokens r)\<rparr>\<rparr>"

text \<open>
  The loop over the chain: the labels of the attempts so far, the last error, and the
  registry whose breakers each iteration updates.
\<close>

fun route_loop ::
  "env \<Rightarrow> chat_request \<Rightarrow> seconds \<Rightarrow> candidate list \<Rightarrow> string list \<Rightarrow> last_error option
     \<Rightarrow> nat \<Rightarrow> registry \<Rightarrow> (route_error + chat_response) \<times> registry"
where
  "route_loop ev req started [] attempts last_err n reg =
     (Inl (AllProvidersFailed attempts
        (case last_err of None \<Rightarrow> NoProvidersTried | Some e \<Rightarrow> e)), reg)"
| "route_loop ev req started ((p, x) # chain) attempts last_err n reg =
     (case get_entry reg p of
        None \<Rightarrow> route_loop ev req started chain attempts last_err (n + 3) reg
      | Some e \<Rightarrow>
          (let (ok, b) = allow (mono ev n) (ebreaker e);
               reg1 = set_breaker p b reg
           in if \<not> ok then route_loop ev req started chain attempts last_err (n + 3) reg1
              else (let attempts' = attempts @ [attempt_label (p, x)] in
                case chat (eprovider e) (n + 1) req x of
                  Raised err \<Rightarrow>
                    (let reg2 = set_breaker p (record_failure (mono ev (n + 2)) b) reg1
                     in if \<not> pe_retryable err
                        then (Inl (AllProvidersFailed attempts' (ProviderFailed err)), reg2)
                        else route_loop ev req started chain attempts'
                               (Some (ProviderFailed err)) (n + 3) reg2)
                | Unexpected exc \<Rightarrow>
                    route_loop ev req started chain attempts' (Some (OtherException exc)) (n + 3)
                      (set_breaker p (record_failure (mono ev (n + 2)) b) reg1)
                | Ok r \<Rightarrow>
                    (Inr (normalized_response ev (n + 2) started p r attempts'),
                     set_breaker p (record_success b) reg1))))"

definition route ::
  "env \<Rightarrow> bool \<Rightarrow> chat_request \<Rightarrow> nat \<Rightarrow> registry \<Rightarrow> (route_error + chat_response) \<times> registry"
where
  "route ev fallback req n reg =
     (let (chain, reg1, n1) = resolve_chain (mono ev) (model req) fallback n reg
      in if chain = [] then (Inl (NoProviderAvailable (model req)), reg1)
         else route_loop ev req (perf ev n1) chain [] None n1 reg1)"

section \<open>One candidate at a time\<close>

text \<open>
  What one iteration does, as a value: the candidate is skipped (not registered, or its
  circuit refuses), wins, fails so that the next one is tried, or ends the request.
\<close>

datatype verdict = Skip | Win provider_response | Lose last_error | Fatal provider_error

fun judge :: "chat_outcome \<Rightarrow> verdict" where
  "judge (Ok r) = Win r"
| "judge (Raised err) = (if pe_retryable err then Lose (ProviderFailed err) else Fatal err)"
| "judge (Unexpected x) = Lose (OtherException x)"

definition verdict_of ::
  "env \<Rightarrow> chat_request \<Rightarrow> nat \<Rightarrow> registry \<Rightarrow> candidate \<Rightarrow> verdict"
where
  "verdict_of ev req n reg c =
     (case map_of reg (fst c) of
        None \<Rightarrow> Skip
      | Some e \<Rightarrow>
          if \<not> fst (allow (mono ev n) (ebreaker e)) then Skip
          else judge (chat (eprovider e) (n + 1) req (snd c)))"

definition breaker_after :: "env \<Rightarrow> nat \<Rightarrow> verdict \<Rightarrow> breaker \<Rightarrow> breaker" where
  "breaker_after ev n v b =
     (let b' = snd (allow (mono ev n) b)
      in case v of Skip \<Rightarrow> b' | Win _ \<Rightarrow> record_success b'
         | _ \<Rightarrow> record_failure (mono ev (n + 2)) b')"

definition reg_after ::
  "env \<Rightarrow> chat_request \<Rightarrow> nat \<Rightarrow> registry \<Rightarrow> candidate \<Rightarrow> registry"
where
  "reg_after ev req n reg c =
     AList.map_entry (fst c)
       (\<lambda>e. e\<lparr>ebreaker := breaker_after ev n (verdict_of ev req n reg c) (ebreaker e)\<rparr>) reg"

lemma map_entry_twice:
  "AList.map_entry k f (AList.map_entry k g d) = AList.map_entry k (f \<circ> g) d"
  by (induction d) auto

lemma map_entry_None: "map_of d k = None \<Longrightarrow> AList.map_entry k f d = d"
  by (induction d) (auto split: if_splits)

lemma map_entry_cong_get:
  "map_of d k = Some v \<Longrightarrow> f v = g v \<Longrightarrow> dict_ok d \<Longrightarrow> AList.map_entry k f d = AList.map_entry k g d"
  by (induction d) (auto simp: dict_ok_def split: if_splits)

text \<open>The loop in terms of verdicts; from here on its \<open>simps\<close> are not unfolded.\<close>

lemma route_loop_Cons:
  assumes "dict_ok reg"
  shows "route_loop ev req started (c # chain) attempts last_err n reg =
     (let reg' = reg_after ev req n reg c; attempts' = attempts @ [attempt_label c]
      in case verdict_of ev req n reg c of
           Skip \<Rightarrow> route_loop ev req started chain attempts last_err (n + 3) reg'
         | Win r \<Rightarrow> (Inr (normalized_response ev (n + 2) started (fst c) r attempts'), reg')
         | Lose err \<Rightarrow> route_loop ev req started chain attempts' (Some err) (n + 3) reg'
         | Fatal err \<Rightarrow> (Inl (AllProvidersFailed attempts' (ProviderFailed err)), reg'))"
proof (cases "map_of reg (fst c)")
  case None
  then show ?thesis
    by (cases c) (simp add: verdict_of_def reg_after_def get_entry_def map_entry_None)
next
  case (Some e)
  have upd: "reg_after ev req n reg c = AList.map_entry (fst c)
      (\<lambda>e'. e'\<lparr>ebreaker := breaker_after ev n (verdict_of ev req n reg c) (ebreaker e)\<rparr>) reg"
    unfolding reg_after_def by (rule map_entry_cong_get [OF Some _ assms]) simp
  obtain p x where c: "c = (p, x)" by fastforce
  show ?thesis
    using Some unfolding upd
    by (auto simp: c verdict_of_def get_entry_def set_breaker_def breaker_after_def
        map_entry_twice comp_def case_prod_unfold Let_def split: chat_outcome.split)
qed

declare route_loop.simps(2) [simp del]

lemma dict_ok_reg_after [simp]: "dict_ok (reg_after ev req n reg c) = dict_ok reg"
  by (simp add: reg_after_def)

lemma reg_after_get:
  "map_of (reg_after ev req n reg c) k =
     (if k = fst c
      then map_option (\<lambda>e. e\<lparr>ebreaker := breaker_after ev n (verdict_of ev req n reg c) (ebreaker e)\<rparr>)
             (map_of reg k)
      else map_of reg k)"
  by (simp add: reg_after_def dict_simps)

lemma breaker_after_inv: "breaker_inv b \<Longrightarrow> breaker_inv (breaker_after ev n v b)"
  by (auto simp: breaker_after_def Let_def split: verdict.split)

lemma wf_reg_after: "wf_registry reg \<Longrightarrow> wf_registry (reg_after ev req n reg c)"
  by (fastforce simp: wf_registry_def reg_after_def intro: breaker_after_inv
      dest!: set_map_entry_dict)

section \<open>Runs: the loop as a relation\<close>

text \<open>
  A run of the chain is the list of candidates reached with their verdicts; a win or a fatal
  error ends it. The loop returns what the run says.
\<close>

fun decisive :: "verdict \<Rightarrow> bool" where
  "decisive (Win r) = True"
| "decisive (Fatal e) = True"
| "decisive v = False"

inductive runs ::
  "env \<Rightarrow> chat_request \<Rightarrow> nat \<Rightarrow> registry \<Rightarrow> candidate list \<Rightarrow> (candidate \<times> verdict) list
     \<Rightarrow> registry \<Rightarrow> bool"
for ev req where
  exhausted: "runs ev req n reg [] [] reg"
| stop: "verdict_of ev req n reg c = v \<Longrightarrow> decisive v \<Longrightarrow>
     runs ev req n reg (c # cs) [(c, v)] (reg_after ev req n reg c)"
| continue: "verdict_of ev req n reg c = v \<Longrightarrow> \<not> decisive v \<Longrightarrow>
     runs ev req (n + 3) (reg_after ev req n reg c) cs tr reg' \<Longrightarrow>
     runs ev req n reg (c # cs) ((c, v) # tr) reg'"

definition tried :: "(candidate \<times> verdict) list \<Rightarrow> candidate list" where
  "tried tr = map fst (filter (\<lambda>(c, v). v \<noteq> Skip) tr)"

fun last_failure :: "last_error option \<Rightarrow> (candidate \<times> verdict) list \<Rightarrow> last_error" where
  "last_failure le [] = (case le of None \<Rightarrow> NoProvidersTried | Some e \<Rightarrow> e)"
| "last_failure le ((c, v) # tr) = last_failure (case v of Lose e \<Rightarrow> Some e | _ \<Rightarrow> le) tr"

definition run_result ::
  "env \<Rightarrow> seconds \<Rightarrow> nat \<Rightarrow> string list \<Rightarrow> last_error option \<Rightarrow> (candidate \<times> verdict) list
     \<Rightarrow> route_error + chat_response"
where
  "run_result ev started n attempts le tr =
     (let labels = attempts @ map attempt_label (tried tr)
      in if tr \<noteq> [] \<and> decisive (snd (last tr))
         then (case last tr of
             (c, Win r) \<Rightarrow> Inr (normalized_response ev (n + 3 * (length tr - 1) + 2) started
                              (fst c) r labels)
           | (c, Fatal e) \<Rightarrow> Inl (AllProvidersFailed labels (ProviderFailed e)))
         else Inl (AllProvidersFailed labels (last_failure le tr)))"

lemma tried_Nil [simp]: "tried [] = []"
  and tried_Cons [simp]:
    "tried ((c, v) # tr) = (if v = Skip then tried tr else c # tried tr)"
  by (simp_all add: tried_def)

lemma run_result_Cons:
  "\<not> decisive v \<Longrightarrow>
     run_result ev started n attempts le ((c, v) # tr) =
       run_result ev started (n + 3) (if v = Skip then attempts else attempts @ [attempt_label c])
         (case v of Lose e \<Rightarrow> Some e | _ \<Rightarrow> le) tr"
  by (cases tr)
     (auto simp: run_result_def Let_def algebra_simps split: verdict.splits prod.splits)

lemma route_loop_runs:
  "dict_ok reg \<Longrightarrow>
     \<exists>tr reg'. runs ev req n reg chain tr reg'
       \<and> route_loop ev req started chain attempts le n reg
           = (run_result ev started n attempts le tr, reg')"
proof (induction chain arbitrary: attempts le n reg)
  case Nil
  then show ?case
    by (intro exI [of _ "[]"] exI [of _ reg]) (auto simp: run_result_def intro: runs.exhausted)
next
  case (Cons c cs)
  define v where "v = verdict_of ev req n reg c"
  show ?case
  proof (cases "decisive v")
    case True
    then have "runs ev req n reg (c # cs) [(c, v)] (reg_after ev req n reg c)"
      by (auto simp: v_def intro: runs.stop)
    moreover have "route_loop ev req started (c # cs) attempts le n reg
        = (run_result ev started n attempts le [(c, v)], reg_after ev req n reg c)"
      using True Cons.prems
      by (cases v) (auto simp: route_loop_Cons run_result_def Let_def v_def [symmetric])
    ultimately show ?thesis by blast
  next
    case False
    define att where "att = (if v = Skip then attempts else attempts @ [attempt_label c])"
    define le' where "le' = (case v of Lose e \<Rightarrow> Some e | _ \<Rightarrow> le)"
    obtain tr reg' where run: "runs ev req (n + 3) (reg_after ev req n reg c) cs tr reg'"
      and eq: "route_loop ev req started cs att le' (n + 3) (reg_after ev req n reg c)
           = (run_result ev started (n + 3) att le' tr, reg')"
      using Cons.IH [of "reg_after ev req n reg c" "n + 3" att le'] Cons.prems by auto
    have "route_loop ev req started (c # cs) attempts le n reg
        = route_loop ev req started cs att le' (n + 3) (reg_after ev req n reg c)"
      using False Cons.prems
      by (cases v) (auto simp: route_loop_Cons Let_def v_def [symmetric] att_def le'_def)
    with eq have "route_loop ev req started (c # cs) attempts le n reg
        = (run_result ev started n attempts le ((c, v) # tr), reg')"
      using False by (simp add: run_result_Cons att_def le'_def)
    moreover have "runs ev req n reg (c # cs) ((c, v) # tr) reg'"
      using run False by (auto simp: v_def intro: runs.continue)
    ultimately show ?thesis by blast
  qed
qed

section \<open>Facts of runs\<close>

lemma runs_wf: "runs ev req n reg chain tr reg' \<Longrightarrow> wf_registry reg \<Longrightarrow> wf_registry reg'"
  by (induction rule: runs.induct) (auto intro: wf_reg_after)

lemma runs_prefix: "runs ev req n reg chain tr reg' \<Longrightarrow> prefix (map fst tr) chain"
  by (induction rule: runs.induct) auto

lemma runs_complete:
  "runs ev req n reg chain tr reg' \<Longrightarrow> \<forall>(c, v) \<in> set tr. \<not> decisive v \<Longrightarrow> map fst tr = chain"
  by (induction rule: runs.induct) auto

lemma runs_undecided: "runs ev req n reg chain tr reg' \<Longrightarrow> (c, v) \<in> set (butlast tr) \<Longrightarrow> \<not> decisive v"
  by (induction rule: runs.induct) (auto split: if_splits)

lemma subseq_tried: "subseq (tried tr) (map fst tr)"
  unfolding tried_def by (intro subseq_map) simp

lemma tried_append [simp]: "tried (xs @ ys) = tried xs @ tried ys"
  by (simp add: tried_def)

text \<open>Every verdict but a skip is what a registered provider answered to this request.\<close>

lemma judge_not_Skip [simp]: "judge r \<noteq> Skip"
  by (cases r) auto

lemma runs_verdict:
  "runs ev req n reg chain tr reg' \<Longrightarrow> (c, v) \<in> set tr \<Longrightarrow> v \<noteq> Skip \<Longrightarrow>
     \<exists>e t. map_of reg (fst c) = Some e \<and> judge (chat (eprovider e) t req (snd c)) = v"
proof (induction rule: runs.induct)
  case (continue n reg c' v' cs tr reg')
  show ?case
  proof (cases "(c, v) = (c', v')")
    case True
    then show ?thesis using continue.hyps(1) continue.prems
      by (auto simp: verdict_of_def split: option.splits if_splits)
  next
    case False
    then obtain e t where "map_of (reg_after ev req n reg c') (fst c) = Some e"
        "judge (chat (eprovider e) t req (snd c)) = v"
      using continue by auto
    then show ?thesis by (auto simp: reg_after_get split: if_splits)
  qed
qed (auto simp: verdict_of_def split: option.splits if_splits)

text \<open>The failures a run records with a provider's breaker.\<close>

definition failed_calls :: "string \<Rightarrow> (candidate \<times> verdict) list \<Rightarrow> nat" where
  "failed_calls k tr = length (filter (\<lambda>(c, v). fst c = k \<and>
     (case v of Lose _ \<Rightarrow> True | Fatal _ \<Rightarrow> True | _ \<Rightarrow> False)) tr)"

definition won_by :: "string \<Rightarrow> (candidate \<times> verdict) list \<Rightarrow> bool" where
  "won_by k tr \<longleftrightarrow> (\<exists>c r. (c, Win r) \<in> set tr \<and> fst c = k)"

lemma failures_breaker_after:
  "failures (breaker_after ev n v b) =
     (case v of Skip \<Rightarrow> failures b | Win _ \<Rightarrow> 0 | _ \<Rightarrow> failures b + 1)"
  by (simp add: breaker_after_def Let_def breaker_simps split: verdict.split)

lemma failed_calls_Nil [simp]: "failed_calls k [] = 0"
  and failed_calls_Cons [simp]: "failed_calls k ((c, v) # tr) =
    (if fst c = k \<and> (case v of Lose _ \<Rightarrow> True | Fatal _ \<Rightarrow> True | _ \<Rightarrow> False) then 1 else 0)
      + failed_calls k tr"
  by (simp_all add: failed_calls_def)

lemma won_by_Nil [simp]: "\<not> won_by k []"
  by (simp add: won_by_def)

lemma won_by_Cons [simp]:
  "won_by k ((c, v) # tr) \<longleftrightarrow> fst c = k \<and> (\<exists>r. v = Win r) \<or> won_by k tr"
  by (cases c) (fastforce simp: won_by_def)

lemma reg_after_failures:
  "map_of reg k = Some e \<Longrightarrow> verdict_of ev req n reg c = v \<Longrightarrow>
     \<exists>e'. map_of (reg_after ev req n reg c) k = Some e' \<and> eprovider e' = eprovider e
       \<and> failures (ebreaker e') = (if fst c \<noteq> k then failures (ebreaker e)
           else case v of Skip \<Rightarrow> failures (ebreaker e) | Win _ \<Rightarrow> 0
             | _ \<Rightarrow> failures (ebreaker e) + 1)"
  by (auto simp: reg_after_get failures_breaker_after)

lemma runs_failures:
  "runs ev req n reg chain tr reg' \<Longrightarrow> map_of reg k = Some e \<Longrightarrow>
     \<exists>e'. map_of reg' k = Some e' \<and> eprovider e' = eprovider e
       \<and> failures (ebreaker e') =
           (if won_by k tr then 0 else failures (ebreaker e) + int (failed_calls k tr))"
proof (induction arbitrary: e rule: runs.induct)
  case (stop n reg c v cs)
  from reg_after_failures [OF stop.prems stop.hyps(1)] stop.hyps(2) show ?case
    by (cases v) auto
next
  case (continue n reg c v cs tr reg')
  from reg_after_failures [OF continue.prems continue.hyps(1)] continue.hyps(2)
  obtain e1 where e1: "map_of (reg_after ev req n reg c) k = Some e1" "eprovider e1 = eprovider e"
      "failures (ebreaker e1) = failures (ebreaker e) + int (failed_calls k [(c, v)])"
    by (cases v) (auto split: if_splits)
  with continue.IH [OF e1(1)] continue.hyps(2) show ?case by (cases v) auto
qed simp

text \<open>A circuit that stays open for the whole request is never tried.\<close>

definition refusing :: "env \<Rightarrow> breaker \<Rightarrow> bool" where
  "refusing ev b \<longleftrightarrow> cstate b = Open
     \<and> (\<forall>t. mono ev t - opened_at b < of_int (recovery_seconds b))"

lemma allow_refusing: "refusing ev b \<Longrightarrow> allow (mono ev t) b = (False, b)"
  by (auto simp: refusing_def allow_def not_le)

lemma runs_refusing:
  "runs ev req n reg chain tr reg' \<Longrightarrow> map_of reg k = Some e \<Longrightarrow> refusing ev (ebreaker e) \<Longrightarrow>
     k \<notin> fst ` set (tried tr) \<and> map_of reg' k = Some e"
proof (induction rule: runs.induct)
  case (stop n reg c v cs)
  then show ?case
    by (cases "fst c = k") (auto simp: verdict_of_def allow_refusing reg_after_get)
next
  case (continue n reg c v cs tr reg')
  have "map_of (reg_after ev req n reg c) k = Some e" and "fst c = k \<Longrightarrow> v = Skip"
    using continue.prems continue.hyps(1)
    by (auto simp: verdict_of_def allow_refusing reg_after_get breaker_after_def)
  then show ?case using continue.IH continue.prems by auto
qed simp

section \<open>The whole request\<close>

lemma route_runs:
  assumes "wf_registry reg" "route ev fb req n reg = (res, reg')"
    and "resolve_chain (mono ev) (model req) fb n reg = (chain, reg1, n1)"
  shows "wf_registry reg1 \<and> (chain = [] \<longrightarrow> res = Inl (NoProviderAvailable (model req)) \<and> reg' = reg1)
    \<and> (chain \<noteq> [] \<longrightarrow> (\<exists>tr. runs ev req n1 reg1 chain tr reg'
          \<and> res = run_result ev (perf ev n1) n1 [] None tr))"
proof -
  have "reg1 = poll_reg (mono ev) (polled (model req)) n reg"
    using assms(3) by (simp add: resolve_chain_eq)
  then have wf: "wf_registry reg1" using assms(1) by (simp add: wf_poll)
  then show ?thesis
    using assms(2,3) route_loop_runs [of reg1 ev req n1 chain "perf ev n1" "[]" None]
    by (auto simp: route_def wf_registry_def)
qed

lemma tried_in_chain: "runs ev req n reg chain tr reg' \<Longrightarrow> subseq (tried tr) chain"
  by (meson prefix_imp_subseq runs_prefix subseq_order.trans subseq_tried)

lemma poll_reg_provider:
  "map_of (poll_reg clk P n reg) k = Some e1 \<Longrightarrow>
     \<exists>e. map_of reg k = Some e \<and> eprovider e1 = eprovider e"
  by (induction reg arbitrary: n) (auto split: if_splits)

lemma failures_asked [simp]: "failures (ebreaker (asked now e)) = failures (ebreaker e)"
  by (simp add: asked_def breaker_simps)

lemma poll_reg_fields:
  assumes "map_of reg k = Some e"
  shows "\<exists>e'. map_of (poll_reg clk P n reg) k = Some e' \<and> eprovider e' = eprovider e
    \<and> failures (ebreaker e') = failures (ebreaker e)"
  using poll_reg_get [OF assms, of clk P n] by auto

text \<open>The attempts a result reports, and the provider that won.\<close>

fun attempts_of :: "route_error + chat_response \<Rightarrow> string list" where
  "attempts_of (Inl (NoProviderAvailable m)) = []"
| "attempts_of (Inl (AllProvidersFailed labels e)) = labels"
| "attempts_of (Inr resp) = (case gateway resp of None \<Rightarrow> [] | Some g \<Rightarrow> gm_attempts g)"

fun winner_of :: "route_error + chat_response \<Rightarrow> string option" where
  "winner_of (Inl e) = None"
| "winner_of (Inr resp) = map_option gm_provider (gateway resp)"

lemma gateway_normalized [simp]:
  "gateway (normalized_response ev n st p r att) = Some \<lparr>gm_provider = p,
      gm_upstream_model = pr_model r, gm_latency_ms = py_round 2 ((perf ev n - st) * 1000),
      gm_cache = CacheMiss, gm_fallback_used = (1 < length att), gm_attempts = att,
      gm_cost_usd = estimate_cost (pr_model r) (pr_prompt_tokens r) (pr_completion_tokens r)\<rparr>"
  by (simp add: normalized_response_def)

lemma attempts_of_run_result:
  "attempts_of (run_result ev st n att le tr) = att @ map attempt_label (tried tr)"
  by (auto simp: run_result_def Let_def split: verdict.split prod.split)

lemma won_by_last:
  "runs ev req n reg chain tr reg' \<Longrightarrow>
     won_by k tr \<longleftrightarrow> tr \<noteq> [] \<and> (\<exists>p x r. last tr = ((p, x), Win r) \<and> p = k)"
proof (induction rule: runs.induct)
  case (stop n reg c v cs)
  then show ?case by (cases c) auto
next
  case (continue n reg c v cs tr reg')
  then show ?case by (cases v) auto
qed simp

lemma winner_of_run_result:
  assumes "runs ev req n reg chain tr reg'"
  shows "winner_of (run_result ev st n att le tr) = Some k \<longleftrightarrow> won_by k tr"
  unfolding won_by_last [OF assms]
  by (cases "last tr"; cases "snd (last tr)") (auto simp: run_result_def Let_def)

lemma route_cases:
  assumes "wf_registry reg" "route ev fb req n reg = (res, reg')"
  obtains (none) chain where "chain = []" "fst (resolve_chain (mono ev) (model req) fb n reg) = chain"
      "res = Inl (NoProviderAvailable (model req))"
      "reg' = poll_reg (mono ev) (polled (model req)) n reg"
  | (run) chain n1 reg1 tr where "chain \<noteq> []"
      "fst (resolve_chain (mono ev) (model req) fb n reg) = chain"
      "reg1 = poll_reg (mono ev) (polled (model req)) n reg" "wf_registry reg1"
      "runs ev req n1 reg1 chain tr reg'" "res = run_result ev (perf ev n1) n1 [] None tr"
proof -
  obtain chain reg1 n1 where rc: "resolve_chain (mono ev) (model req) fb n reg = (chain, reg1, n1)"
    by (metis prod_cases3)
  then have "reg1 = poll_reg (mono ev) (polled (model req)) n reg"
    by (simp add: resolve_chain_eq)
  then show thesis
    using route_runs [OF assms rc] rc none [of chain] run [of chain reg1 n1] by (cases "chain = []") auto
qed

lemma count_failed_calls:
  "\<not> won_by k tr \<Longrightarrow> count_list (map fst (tried tr)) k = failed_calls k tr"
  by (induction tr) (auto split: verdict.splits)

section \<open>Properties\<close>

text \<open>
  C26. Circuit breaker accounting. A request only ever touches breakers through what its
  attempts did: whatever the outcome, each provider's failure count afterwards is 0 if it
  served the request, and otherwise the count before plus one for every attempt made at it;
  the registry stays well formed with the same providers.
\<close>

theorem route_breaker_accounting:
  assumes "wf_registry reg" "route ev fb req n reg = (res, reg')"
  shows "\<exists>tr. attempts_of res = map attempt_label tr \<and> wf_registry reg'
    \<and> (\<forall>k e. map_of reg k = Some e \<longrightarrow> (\<exists>e'. map_of reg' k = Some e' \<and> eprovider e' = eprovider e
         \<and> failures (ebreaker e') = (if winner_of res = Some k then 0
              else failures (ebreaker e) + int (count_list (map fst tr) k))))"
  using assms
proof (cases rule: route_cases)
  case (none chain)
  have "\<exists>e'. map_of reg' k = Some e' \<and> eprovider e' = eprovider e
      \<and> failures (ebreaker e') = failures (ebreaker e)" if "map_of reg k = Some e" for k e
    using poll_reg_fields [OF that] none by simp
  with none assms(1) show ?thesis by (intro exI [of _ "[]"]) (auto simp: wf_poll)
next
  case (run chain n1 reg1 tr)
  have "\<exists>e'. map_of reg' k = Some e' \<and> eprovider e' = eprovider e
      \<and> failures (ebreaker e') = (if winner_of res = Some k then 0
           else failures (ebreaker e) + int (count_list (map fst (tried tr)) k))"
    if get: "map_of reg k = Some e" for k e
  proof -
    obtain e1 where e1: "map_of reg1 k = Some e1" "eprovider e1 = eprovider e"
        "failures (ebreaker e1) = failures (ebreaker e)"
      using poll_reg_fields [OF get, of "mono ev" "polled (model req)" n] run(3) by auto
    show ?thesis
      using runs_failures [OF run(5) e1(1)] e1(2,3) winner_of_run_result [OF run(5)] run(6)
      by (auto simp: count_failed_calls)
  qed
  moreover have "attempts_of res = map attempt_label (tried tr)"
    by (simp add: run(6) attempts_of_run_result)
  ultimately show ?thesis using runs_wf [OF run(5,4)] by blast
qed


text \<open>
  C27. An open circuit shields its provider from the whole request: if a provider's circuit
  is open and no clock reading of the request reaches its recovery time, no attempt of the
  request goes to that provider, whatever model or alias was asked for, and its registry
  entry is left as it was.
\<close>

theorem open_circuit_not_tried:
  assumes "wf_registry reg" "route ev fb req n reg = (res, reg')"
    and "map_of reg k = Some e" "refusing ev (ebreaker e)"
  shows "(\<exists>tr. attempts_of res = map attempt_label tr \<and> k \<notin> fst ` set tr)
    \<and> map_of reg' k = Some e"
proof -
  have "asked (mono ev i) e = e" for i by (simp add: asked_def allow_refusing [OF assms(4)])
  then have "map_of (poll_reg (mono ev) P i reg) k = Some e" for P i
    using poll_reg_get [OF assms(3)] by fastforce
  note polled = this
  show ?thesis
    using assms(1,2)
  proof (cases rule: route_cases)
    case (none chain)
    with polled show ?thesis by (auto intro: exI [of _ "[]"])
  next
    case (run chain n1 reg1 tr)
    with polled have "map_of reg1 k = Some e" by simp
    from runs_refusing [OF run(5) this assms(4)] show ?thesis
      by (auto simp: run(6) attempts_of_run_result intro!: exI [of _ "tried tr"])
  qed
qed

lemma runs_split_last:
  assumes "runs ev req n reg chain tr reg'" "tr \<noteq> []" "last tr = (c, v)" "v \<noteq> Skip"
  shows "\<exists>earlier. tried tr = map fst earlier @ [c]
    \<and> (\<forall>(c', v') \<in> set earlier. \<exists>e t x. map_of reg (fst c') = Some e \<and> v' = Lose x
         \<and> judge (chat (eprovider e) t req (snd c')) = Lose x)"
proof -
  define us where "us = filter (\<lambda>(c, v). v \<noteq> Skip) (butlast tr)"
  have tr: "tr = butlast tr @ [(c, v)]" using assms(2,3) by (metis append_butlast_last_id)
  have "tried (butlast tr @ [(c, v)]) = map fst us @ [c]"
    using assms(4) by (simp add: us_def tried_def)
  then have "tried tr = map fst us @ [c]" using tr by metis
  moreover have "\<exists>e t x. map_of reg (fst c') = Some e \<and> v' = Lose x
      \<and> judge (chat (eprovider e) t req (snd c')) = Lose x" if "(c', v') \<in> set us" for c' v'
  proof -
    have b: "(c', v') \<in> set (butlast tr)" "v' \<noteq> Skip" using that by (auto simp: us_def)
    then have "\<not> decisive v'" using runs_undecided [OF assms(1)] by blast
    with b runs_verdict [OF assms(1) in_set_butlastD [OF b(1)]] show ?thesis
      by (cases v') auto
  qed
  ultimately show ?thesis by (intro exI [of _ us]) auto
qed


text \<open>A run that ends with a final error, and a run that tries everything, in terms of the registry
  the request found.\<close>

lemma runs_verdict_polled:
  assumes "runs ev req n' (poll_reg clk P n reg) chain tr reg'" "(c, v) \<in> set tr" "v \<noteq> Skip"
  shows "\<exists>e t. map_of reg (fst c) = Some e \<and> judge (chat (eprovider e) t req (snd c)) = v"
  using runs_verdict [OF assms] poll_reg_provider by metis

lemma judge_Fatal: "judge out = Fatal pe \<longleftrightarrow> out = Raised pe \<and> \<not> pe_retryable pe"
  by (cases out) auto

lemma fatal_run:
  assumes r: "runs ev req n' (poll_reg clk P n reg) chain tr reg'" and last: "tr \<noteq> []" "last tr = ((p, x), Fatal pe)"
  shows "\<exists>earlier p x e t pe'. tried tr = earlier @ [(p, x)] \<and> map_of reg p = Some e
    \<and> chat (eprovider e) t req x = Raised pe' \<and> \<not> pe_retryable pe' \<and> ProviderFailed pe = ProviderFailed pe'
    \<and> (\<forall>c \<in> set earlier. \<exists>e t l. map_of reg (fst c) = Some e \<and> judge (chat (eprovider e) t req (snd c)) = Lose l)"
proof -
  obtain earlier where earlier: "tried tr = map fst earlier @ [(p, x)]"
    "\<forall>(c', v') \<in> set earlier. \<exists>e t y. map_of (poll_reg clk P n reg) (fst c') = Some e \<and> v' = Lose y
       \<and> judge (chat (eprovider e) t req (snd c')) = Lose y"
    using runs_split_last [OF r last] by blast
  have "((p, x), Fatal pe) \<in> set tr" using last by (metis last_in_set)
  from runs_verdict_polled [OF r this]
  obtain e t where "map_of reg p = Some e" "chat (eprovider e) t req x = Raised pe" "\<not> pe_retryable pe"
    by (auto simp: judge_Fatal)
  moreover have "\<exists>e t l. map_of reg (fst c) = Some e \<and> judge (chat (eprovider e) t req (snd c)) = Lose l"
    if "c \<in> fst ` set earlier" for c
    using that earlier(2) poll_reg_provider [of clk P n reg] by fastforce
  ultimately show ?thesis
    using earlier(1) by (intro exI [of _ "map fst earlier"] exI [of _ p] exI [of _ x] exI [of _ e] exI [of _ t]
        exI [of _ pe]) auto
qed

lemma exhausted_run:
  assumes r: "runs ev req n' (poll_reg clk P n reg) chain tr reg'" and und: "\<not> (tr \<noteq> [] \<and> decisive (snd (last tr)))"
  shows "map fst tr = chain \<and> (\<forall>(c, v) \<in> set tr. v \<noteq> Skip \<longrightarrow> (\<exists>e t l. map_of reg (fst c) = Some e \<and> v = Lose l
      \<and> judge (chat (eprovider e) t req (snd c)) = Lose l))"
proof -
  have nd: "\<not> decisive v" if "(c, v) \<in> set tr" for c v
  proof -
    have "tr \<noteq> []" using that by auto
    then have "(c, v) \<in> set (butlast tr) \<or> (c, v) = last tr"
      using that by (cases tr rule: rev_cases) auto
    with und \<open>tr \<noteq> []\<close> runs_undecided [OF r] show ?thesis by (metis snd_conv)
  qed
  have "\<exists>e t l. map_of reg (fst c) = Some e \<and> v = Lose l \<and> judge (chat (eprovider e) t req (snd c)) = Lose l"
    if "(c, v) \<in> set tr" "v \<noteq> Skip" for c v
    using runs_verdict_polled [OF r that] nd [OF that(1)] that(2) by (cases v) auto
  with nd runs_complete [OF r] show ?thesis by fastforce
qed

text \<open>
  C25. What a failed request means. \<open>NoProviderAvailable\<close> is raised exactly for an empty chain,
  before any attempt. \<open>AllProvidersFailed\<close> lists the attempts, all of which failed, a part of
  the chain in order; either the last of them was answered with a non-retryable provider
  error, which is the reported one and the only reason not to go on, or every candidate of
  the chain was reached, every attempt failed in a retryable way, and the reported error is
  one of theirs (or says that nothing could be tried).
\<close>

theorem route_failure:
  assumes "wf_registry reg" "route ev fb req n reg = (Inl err, reg')"
    and "chain = fst (resolve_chain (mono ev) (model req) fb n reg)"
  shows "(err = NoProviderAvailable (model req) \<longleftrightarrow> chain = [])
    \<and> (chain \<noteq> [] \<longrightarrow> (\<exists>ts le. err = AllProvidersFailed (map attempt_label ts) le \<and> subseq ts chain
         \<and> ((\<exists>earlier p x e t pe. ts = earlier @ [(p, x)] \<and> map_of reg p = Some e
               \<and> chat (eprovider e) t req x = Raised pe \<and> \<not> pe_retryable pe
               \<and> le = ProviderFailed pe
               \<and> (\<forall>c \<in> set earlier. \<exists>e t l. map_of reg (fst c) = Some e
                    \<and> judge (chat (eprovider e) t req (snd c)) = Lose l))
          \<or> (\<exists>tr. map fst tr = chain \<and> ts = tried tr
               \<and> (\<forall>(c, v) \<in> set tr. v \<noteq> Skip \<longrightarrow> (\<exists>e t l. map_of reg (fst c) = Some e \<and> v = Lose l
                    \<and> judge (chat (eprovider e) t req (snd c)) = Lose l))
               \<and> le = last_failure None tr))))"
  using assms(1,2)
proof (cases rule: route_cases)
  case (none chain)
  then show ?thesis using assms(3) by simp
next
  case (run chain' n1 reg1 tr)
  have chain: "chain = chain'" "chain \<noteq> []" using run assms(3) by simp_all
  note r = run(5) [unfolded run(3)]
  note part = tried_in_chain [OF run(5), folded chain(1)]
  show ?thesis
  proof (cases "tr \<noteq> [] \<and> decisive (snd (last tr))")
    case True
    then obtain p x pe where last: "last tr = ((p, x), Fatal pe)"
      and err: "err = AllProvidersFailed (map attempt_label (tried tr)) (ProviderFailed pe)"
      using run(6) by (cases "last tr"; cases "snd (last tr)") (auto simp: run_result_def Let_def)
    from fatal_run [OF r _ last] True err chain(2) part show ?thesis by blast
  next
    case False
    then have "err = AllProvidersFailed (map attempt_label (tried tr)) (last_failure None tr)"
      using run(6) by (auto simp: run_result_def Let_def)
    with exhausted_run [OF r False, folded chain(1)] chain(2) part show ?thesis by blast
  qed
qed

end
