(* ===== verification/Failover.thy ===== *)
theory Failover
  imports Router
begin

text \<open>
  The purpose of the chain: while a healthy provider is in it, transient failures of the others
  do not reach the client. The theory also runs the router on two registered fakes, the
  concrete requests at which the properties of the router are instantiated.
\<close>

section \<open>A healthy provider is reached\<close>

text \<open>A provider that answers every candidate of the chain that names it.\<close>

definition healthy :: "chat_request \<Rightarrow> candidate list \<Rightarrow> string \<Rightarrow> provider \<Rightarrow> bool" where
  "healthy req chain p pr \<longleftrightarrow> (\<forall>t x. (p, x) \<in> set chain \<longrightarrow> (\<exists>r. chat pr t req x = Ok r))"

text \<open>No registered provider answers this request with an error that is not retryable.\<close>

definition only_transient :: "chat_request \<Rightarrow> registry \<Rightarrow> bool" where
  "only_transient req reg \<longleftrightarrow> (\<forall>k e t x err. map_of reg k = Some e \<longrightarrow>
     chat (eprovider e) t req x = Raised err \<longrightarrow> pe_retryable err)"

lemma allow_when_not_open: "cstate b \<noteq> Open \<Longrightarrow> fst (allow now b)"
  by (auto simp: allow_def split: circuit_state.splits)

lemma only_transient_not_Fatal:
  "only_transient req reg \<Longrightarrow> verdict_of ev req n reg c \<noteq> Fatal err"
  by (cases "case map_of reg (fst c) of Some e \<Rightarrow> chat (eprovider e) (n + 1) req (snd c)")
     (auto simp: verdict_of_def only_transient_def split: option.split)

lemma only_transient_reg_after:
  "only_transient req reg \<Longrightarrow> only_transient req (reg_after ev req n reg c)"
  by (auto simp: only_transient_def reg_after_get split: if_splits)

lemma runs_reach_healthy:
  "runs ev req n reg chain tr reg' \<Longrightarrow> only_transient req reg \<Longrightarrow> map_of reg p = Some e \<Longrightarrow>
     cstate (ebreaker e) \<noteq> Open \<Longrightarrow> healthy req chain p (eprovider e) \<Longrightarrow>
     p \<in> fst ` set chain \<Longrightarrow> \<exists>c r. tr \<noteq> [] \<and> last tr = (c, Win r)"
proof (induction rule: runs.induct)
  case (stop n reg c v cs)
  then show ?case using only_transient_not_Fatal [OF stop.prems(1), of ev n c] by (cases v) auto
next
  case (continue n reg c v cs tr reg')
  have "\<exists>r. v = Win r" if p: "fst c = p"
  proof -
    obtain x where x: "c = (p, x)" using p by (cases c) auto
    then obtain r where "chat (eprovider e) (n + 1) req x = Ok r"
      using continue.prems(4) by (fastforce simp: healthy_def)
    then show ?thesis
      using continue.hyps(1) continue.prems(2,3) x by (auto simp: verdict_of_def allow_when_not_open)
  qed
  then have np: "fst c \<noteq> p" using continue.hyps(2) by auto
  then have "map_of (reg_after ev req n reg c) p = Some e"
    using continue.prems(2) by (simp add: reg_after_get)
  then have "\<exists>c r. tr \<noteq> [] \<and> last tr = (c, Win r)"
    using continue.IH continue.prems np
    by (auto simp: only_transient_reg_after healthy_def)
  then show ?case by auto
qed simp

lemma route_answers:
  assumes "wf_registry reg" "chain = fst (resolve_chain (mono ev) (model req) True n reg)"
    and "p \<in> fst ` set chain" "map_of reg p = Some e" "healthy req chain p (eprovider e)"
    and "only_transient req reg"
  shows "\<exists>resp reg'. route ev True req n reg = (Inr resp, reg')"
proof -
  obtain res reg' where r: "route ev True req n reg = (res, reg')" by fastforce
  show ?thesis
    using assms(1) r
  proof (cases rule: route_cases)
    case (none chain')
    then show ?thesis using assms(2,3) by auto
  next
    case (run chain' n1 reg1 tr)
    have full: "resolve_chain (mono ev) (model req) True n reg
        = (chain, reg1, snd (snd (resolve_chain (mono ev) (model req) True n reg)))"
      by (simp add: resolve_chain_eq run(3) assms(2))
    obtain x where x: "(p, x) \<in> set chain" using assms(3) by auto
    then obtain e1 where e1: "map_of reg1 p = Some e1" "cstate (ebreaker e1) \<noteq> Open"
      using chain_members [OF assms(1) full] by auto
    note prov = poll_reg_provider [of "mono ev" "polled (model req)" n reg, folded run(3)]
    have "eprovider e1 = eprovider e" using prov [OF e1(1)] assms(4) by auto
    moreover have "only_transient req reg1"
      using assms(6) unfolding only_transient_def by (metis prov)
    moreover have "chain' = chain" using run(2) assms(2) by simp
    ultimately obtain c w where "tr \<noteq> []" "last tr = (c, Win w)"
      using runs_reach_healthy [OF run(5) _ e1] assms(3,5) by auto
    then have "\<exists>resp. res = Inr resp" by (simp add: run(6) run_result_def Let_def)
    with r show ?thesis by auto
  qed
qed

text \<open>
  C22. Failover delivers. If the chain of a request holds a candidate of a provider that answers,
  and the other registered providers fail this request at most in retryable ways (provider
  errors marked retryable, or exceptions), then with fallback enabled the request is answered;
  it never ends in \<open>AllProvidersFailed\<close> or \<open>NoProviderAvailable\<close>.
\<close>

theorem failover_reaches_healthy_provider:
  assumes "wf_registry reg" "chain = fst (resolve_chain (mono ev) (model req) True n reg)"
    and "p \<in> fst ` set chain" "map_of reg p = Some e" "healthy req chain p (eprovider e)"
    and "only_transient req reg"
  shows "\<exists>resp reg'. route ev True req n reg = (Inr resp, reg')"
  using assms by (rule route_answers)

section \<open>Two fakes\<close>

definition demo_env :: env where
  "demo_env = \<lparr>mono = (\<lambda>n. of_nat n), perf = (\<lambda>_. 0), wall = (\<lambda>_. 0), fresh_hex = (\<lambda>_. ''0'')\<rparr>"

definition demo_answer :: provider_response where
  "demo_answer = \<lparr>pr_content = ''hello'', pr_model = ''m'', pr_prompt_tokens = 3,
     pr_completion_tokens = 2, pr_finish_reason = ''stop'', pr_raw = None\<rparr>"

definition demo_error :: "bool \<Rightarrow> provider_error" where
  "demo_error retry = \<lparr>pe_message = OtherFailure ''down'', pe_retryable = retry, pe_status_code = Some 503\<rparr>"

abbreviation "demo_req \<equiv> plain_request ''m'' [plain_message User ''hi'']"

abbreviation "demo_down \<equiv> demo_registry (\<lambda>_. Raised (demo_error True)) (\<lambda>_. Ok demo_answer)"

abbreviation "demo_fatal \<equiv> demo_registry (\<lambda>_. Raised (demo_error False)) (\<lambda>_. Ok demo_answer)"

lemmas demo_values = demo_simps demo_env_def demo_answer_def demo_error_def plain_request_def

lemma demo_chain:
  "resolve_chain (mono demo_env) ''m'' True 0 (demo_registry f g)
     = ([(''alpha'', ''m''), (''beta'', ''m'')], demo_registry f g, 2)"
  by (simp add: resolve_chain_def for_model_def ALIASES_def cut_def demo_values poll.simps allow_def
      numeral_2_eq_2 Let_def)

lemma model_demo_req: "model demo_req = ''m''"
  by (simp add: plain_request_def)

lemma demo_verdict_alpha:
  "verdict_of demo_env req n (demo_registry f g) (''alpha'', x) = judge (f (n + 1))"
  by (simp add: verdict_of_def demo_values allow_def)

lemma demo_verdict_beta:
  "verdict_of demo_env req n (reg_after demo_env req' n' (demo_registry f g) (''alpha'', x')) (''beta'', x)
     = judge (g (n + 1))"
  by (simp add: verdict_of_def reg_after_get) (simp add: demo_values allow_def)

lemma demo_route:
  "route demo_env True demo_req 0 (demo_registry f g)
     = route_loop demo_env demo_req 0 [(''alpha'', ''m''), (''beta'', ''m'')] [] None 2 (demo_registry f g)"
  by (simp add: route_def model_demo_req demo_chain) (simp add: demo_env_def)

lemma demo_down_answered:
  "\<exists>reg'. route demo_env True demo_req 0 demo_down = (Inr (normalized_response demo_env 7 0
     ''beta'' demo_answer [''alpha:m'', ''beta:m'']), reg')"
  using wf_demo_registry
  by (simp add: demo_route route_loop_Cons wf_registry_def Let_def demo_verdict_alpha
      demo_verdict_beta attempt_label_def)
    (simp add: demo_error_def)

lemma demo_fatal_refused:
  "\<exists>reg'. route demo_env True demo_req 0 demo_fatal = (Inl (AllProvidersFailed [''alpha:m'']
     (ProviderFailed (demo_error False))), reg')"
  using wf_demo_registry
  by (simp add: demo_route route_loop_Cons wf_registry_def Let_def demo_verdict_alpha
      attempt_label_def) (simp add: demo_error_def)

section \<open>The properties of the router at these requests\<close>

lemma attempt_label_alpha: "attempt_label c = ''alpha:m'' \<Longrightarrow> fst c = ''alpha''"
  and attempt_label_beta: "attempt_label c = ''beta:m'' \<Longrightarrow> fst c = ''beta''"
  by (auto simp: attempt_label_def append_eq_Cons_conv)

theorem route_breaker_accounting_witness:
  "\<exists>res reg' e'. route demo_env True demo_req 0 demo_down = (res, reg')
    \<and> map_of reg' ''alpha'' = Some e' \<and> failures (ebreaker e') = 1"
proof -
  obtain reg' where r: "route demo_env True demo_req 0 demo_down = (Inr (normalized_response
      demo_env 7 0 ''beta'' demo_answer [''alpha:m'', ''beta:m'']), reg')"
    using demo_down_answered by blast
  obtain e where e: "map_of demo_down ''alpha'' = Some e" "failures (ebreaker e) = 0"
    by (simp add: demo_simps)
  from route_breaker_accounting [OF wf_demo_registry r] obtain tr where
    tr: "attempts_of (Inr (normalized_response demo_env 7 0 ''beta'' demo_answer
        [''alpha:m'', ''beta:m''])) = map attempt_label tr"
    and acc: "\<forall>k e. map_of demo_down k = Some e \<longrightarrow> (\<exists>e'. map_of reg' k = Some e'
        \<and> eprovider e' = eprovider e \<and> failures (ebreaker e') =
            (if winner_of (Inr (normalized_response demo_env 7 0 ''beta'' demo_answer
               [''alpha:m'', ''beta:m''])) = Some k then 0
             else failures (ebreaker e) + int (count_list (map fst tr) k)))"
    by blast
  then obtain e' where e': "map_of reg' ''alpha'' = Some e'"
      "failures (ebreaker e') = int (count_list (map fst tr) ''alpha'')"
    using acc [rule_format, OF e(1)] e(2) by auto
  from tr have "map attempt_label tr = [''alpha:m'', ''beta:m'']" by simp
  then have "map fst tr = [''alpha'', ''beta'']"
    by (auto simp: map_eq_Cons_conv dest!: attempt_label_alpha attempt_label_beta
        simp del: One_nat_def)
  with e' r show ?thesis by auto
qed



theorem route_failure_witness:
  "\<exists>err reg' ts le. route demo_env True demo_req 0 demo_fatal = (Inl err, reg')
    \<and> err = AllProvidersFailed (map attempt_label ts) le
    \<and> subseq ts [(''alpha'', ''m''), (''beta'', ''m'')]"
proof -
  obtain err reg' where r: "route demo_env True demo_req 0 demo_fatal = (Inl err, reg')"
    using demo_fatal_refused by blast
  note f = route_failure [OF wf_demo_registry r refl, unfolded model_demo_req demo_chain fst_conv]
  have ne: "[(''alpha'', ''m''), (''beta'', ''m'')] \<noteq> []" by simp
  from mp [OF conjunct2 [OF f] ne] r show ?thesis by (elim exE conjE) blast
qed

definition demo_open :: registry where
  "demo_open = set_breaker ''alpha'' \<lparr>failure_threshold = 5, recovery_seconds = 30, failures = 5,
     cstate = Open, opened_at = 0\<rparr> (demo_registry (\<lambda>_. Ok demo_answer) (\<lambda>_. Ok demo_answer))"

theorem open_circuit_not_tried_witness:
  "\<exists>res reg' tr. route (demo_env\<lparr>mono := \<lambda>_. 10\<rparr>) True demo_req 0 demo_open = (res, reg')
    \<and> attempts_of res = map attempt_label tr \<and> ''alpha'' \<notin> fst ` set tr"
proof -
  have wf: "wf_registry demo_open"
    unfolding demo_open_def by (intro wf_set_breaker wf_demo_registry) (simp add: breaker_inv_def)
  obtain e where e: "map_of demo_open ''alpha'' = Some e"
      "ebreaker e = \<lparr>failure_threshold = 5, recovery_seconds = 30, failures = 5,
         cstate = Open, opened_at = 0\<rparr>"
    by (simp add: demo_open_def dict_simps) (simp add: demo_simps)
  have "refusing (demo_env\<lparr>mono := \<lambda>_. 10\<rparr>) (ebreaker e)" by (simp add: e(2) refusing_def)
  moreover obtain res reg' where
      "route (demo_env\<lparr>mono := \<lambda>_. 10\<rparr>) True demo_req 0 demo_open = (res, reg')"
    by fastforce
  ultimately show ?thesis using open_circuit_not_tried [OF wf _ e(1)] by blast
qed

theorem failover_reaches_healthy_provider_witness:
  "\<exists>resp reg'. route demo_env True demo_req 0 demo_down = (Inr resp, reg')"
proof -
  define chain where "chain = fst (resolve_chain (mono demo_env) (model demo_req) True 0 demo_down)"
  have "''beta'' \<in> fst ` set chain" by (simp add: chain_def model_demo_req demo_chain)
  moreover obtain e where e: "map_of demo_down ''beta'' = Some e"
      "chat (eprovider e) = (\<lambda>t req x. Ok demo_answer)"
    by (simp add: demo_simps)
  moreover have "healthy demo_req chain ''beta'' (eprovider e)" by (simp add: healthy_def e(2))
  moreover have "only_transient demo_req demo_down"
    by (auto simp: only_transient_def demo_simps demo_error_def split: if_splits)
  ultimately show ?thesis
    using failover_reaches_healthy_provider [OF wf_demo_registry chain_def] by blast
qed

end
