(* ===== verification/Tenants.thy ===== *)
theory Tenants
  imports Json
begin

text \<open>
  \<open>auth/models.py\<close> and \<open>auth/keystore.py\<close>: tenants and the in-memory key store. The store maps
  the hash of a key to a record; SHA-256 (\<open>hash_key\<close>) and the random part of a new key
  (\<open>secrets.token_urlsafe\<close>) are arguments. Nothing else holds a reference to a record that the
  store mutates, so the mutations are updates of the map.
\<close>

section \<open>Tenants\<close>

record tenant =
  tid :: tenant_id
  tname :: string
  rpm_limit :: int
  tpm_limit :: int
  monthly_budget_usd :: "usd option"
  allowed_models :: "model_id list option"
  tmetadata :: "(string, json) dict"

text \<open>\<open>Tenant(id=..., name=...)\<close>, the other fields their defaults.\<close>

definition new_tenant :: "tenant_id \<Rightarrow> string \<Rightarrow> tenant" where
  "new_tenant i nm = \<lparr>tid = i, tname = nm, rpm_limit = 60, tpm_limit = 100000,
     monthly_budget_usd = None, allowed_models = None, tmetadata = []\<rparr>"

definition model_allowed :: "tenant \<Rightarrow> model_id \<Rightarrow> bool" where
  "model_allowed t m = (case allowed_models t of
       None \<Rightarrow> True
     | Some ms \<Rightarrow> m \<in> set ms \<or> m \<in> {''auto'', ''cheapest'', ''fastest''})"

section \<open>The key store\<close>

record key_record =
  key_hash :: string
  ktenant :: tenant
  label :: string
  revoked :: bool

type_synonym keystore = "(string, key_record) dict"

definition generate_key :: "string \<Rightarrow> tenant_id \<Rightarrow> string" where
  "generate_key token i = ''sk-'' @ i @ ''-'' @ token"

definition new_record :: "string \<Rightarrow> tenant \<Rightarrow> string \<Rightarrow> key_record" where
  "new_record h t l = \<lparr>key_hash = h, ktenant = t, label = l, revoked = False\<rparr>"

definition create_key ::
  "(string \<Rightarrow> string) \<Rightarrow> string \<Rightarrow> tenant \<Rightarrow> string \<Rightarrow> keystore \<Rightarrow> string \<times> keystore"
where
  "create_key hash_key token t l ks =
     (let plaintext = generate_key token (tid t)
      in (plaintext, AList.update (hash_key plaintext) (new_record (hash_key plaintext) t l) ks))"

definition add_existing ::
  "(string \<Rightarrow> string) \<Rightarrow> string \<Rightarrow> tenant \<Rightarrow> string \<Rightarrow> keystore \<Rightarrow> keystore"
where
  "add_existing hash_key plaintext t l ks =
     (let h = hash_key plaintext in AList.update h (new_record h t l) ks)"

definition lookup :: "(string \<Rightarrow> string) \<Rightarrow> string \<Rightarrow> keystore \<Rightarrow> key_record option" where
  "lookup hash_key plaintext ks = (case map_of ks (hash_key plaintext) of
       None \<Rightarrow> None
     | Some r \<Rightarrow> if revoked r then None else Some r)"

definition revoke :: "(string \<Rightarrow> string) \<Rightarrow> string \<Rightarrow> keystore \<Rightarrow> bool \<times> keystore" where
  "revoke hash_key plaintext ks = (case map_of ks (hash_key plaintext) of
       None \<Rightarrow> (False, ks)
     | Some r \<Rightarrow> (True, AList.map_entry (hash_key plaintext) (\<lambda>r. r\<lparr>revoked := True\<rparr>) ks))"

text \<open>The loop over the records, with the count so far.\<close>

fun revoke_tenant_loop :: "tenant_id \<Rightarrow> int \<Rightarrow> keystore \<Rightarrow> int \<times> keystore" where
  "revoke_tenant_loop i n [] = (n, [])"
| "revoke_tenant_loop i n ((h, r) # ks) =
     (if tid (ktenant r) = i \<and> \<not> revoked r
      then (let (n', ks') = revoke_tenant_loop i (n + 1) ks in (n', (h, r\<lparr>revoked := True\<rparr>) # ks'))
      else (let (n', ks') = revoke_tenant_loop i n ks in (n', (h, r) # ks')))"

definition revoke_tenant :: "tenant_id \<Rightarrow> keystore \<Rightarrow> int \<times> keystore" where
  "revoke_tenant i ks = revoke_tenant_loop i 0 ks"

definition list_tenants :: "keystore \<Rightarrow> tenant list" where
  "list_tenants ks = dedup_by tid [] (map (ktenant \<circ> snd) ks)"

text \<open>
  Seeding from the environment (\<open>os.environ.get\<close> as a function of the variable's name); a
  limit that \<open>int\<close> cannot read raises \<open>ValueError\<close> before the key is added.
\<close>

definition env_int :: "(string \<Rightarrow> string option) \<Rightarrow> string \<Rightarrow> string \<Rightarrow> py_exc + int" where
  "env_int environ k dflt =
     (case int_of_str (case environ k of None \<Rightarrow> dflt | Some s \<Rightarrow> s) of
        None \<Rightarrow> Inl ValueError
      | Some i \<Rightarrow> Inr i)"

definition seed_from_env ::
  "(string \<Rightarrow> string) \<Rightarrow> (string \<Rightarrow> string option) \<Rightarrow> keystore \<Rightarrow> py_exc + keystore"
where
  "seed_from_env hash_key environ ks =
     (case environ ''DEMO_TENANT_KEY'' of
        None \<Rightarrow> Inr ks
      | Some k \<Rightarrow>
          if k = [] then Inr ks
          else res_bind (env_int environ ''DEMO_TENANT_RPM'' ''60'') (\<lambda>rpm.
               res_bind (env_int environ ''DEMO_TENANT_TPM'' ''100000'') (\<lambda>tpm.
               Inr (add_existing hash_key k
                 ((new_tenant ''demo'' ''Demo Tenant'')\<lparr>rpm_limit := rpm, tpm_limit := tpm\<rparr>)
                 ''seed'' ks))))"

text \<open>
  \<open>get_keystore\<close>: the process-wide store, made and seeded at the first use. When seeding raises,
  the empty store it had already assigned stays.
\<close>

definition get_keystore ::
  "(string \<Rightarrow> string) \<Rightarrow> (string \<Rightarrow> string option) \<Rightarrow> keystore option
     \<Rightarrow> (py_exc + keystore) \<times> keystore option"
where
  "get_keystore hash_key environ s = (case s of
       Some ks \<Rightarrow> (Inr ks, Some ks)
     | None \<Rightarrow> (case seed_from_env hash_key environ [] of
           Inl e \<Rightarrow> (Inl e, Some [])
         | Inr ks \<Rightarrow> (Inr ks, Some ks)))"

section \<open>What the operations do to a lookup\<close>

lemma lookup_add_existing [dict_simps]:
  "lookup h k (add_existing h k' t l ks) =
     (if h k = h k' then Some (new_record (h k') t l) else lookup h k ks)"
  by (simp add: lookup_def add_existing_def Let_def dict_simps new_record_def)

lemma create_key_eq:
  "create_key h token t l ks =
     (generate_key token (tid t), add_existing h (generate_key token (tid t)) t l ks)"
  by (simp add: create_key_def add_existing_def Let_def)

lemma revoke_eq:
  "revoke h k ks = (map_of ks (h k) \<noteq> None, AList.map_entry (h k) (\<lambda>r. r\<lparr>revoked := True\<rparr>) ks)"
proof -
  have "map_of ks x = None \<Longrightarrow> AList.map_entry x f ks = ks" for x and f :: "key_record \<Rightarrow> key_record"
    by (induction ks) (auto split: if_splits)
  then show ?thesis by (auto simp: revoke_def split: option.splits)
qed

lemma lookup_revoke [dict_simps]:
  "lookup h k (snd (revoke h k' ks)) = (if h k = h k' then None else lookup h k ks)"
  by (auto simp: lookup_def revoke_eq dict_simps split: option.splits)

definition withdraw :: "tenant_id \<Rightarrow> key_record \<Rightarrow> key_record" where
  "withdraw i r = (if tid (ktenant r) = i then r\<lparr>revoked := True\<rparr> else r)"

lemma withdraw_simps [simp]:
  "ktenant (withdraw i r) = ktenant r"
  "revoked (withdraw i r) \<longleftrightarrow> revoked r \<or> tid (ktenant r) = i"
  by (simp_all add: withdraw_def)

lemma revoke_tenant_loop_eq:
  "revoke_tenant_loop i n ks =
     (n + int (length (filter (\<lambda>(h, r). tid (ktenant r) = i \<and> \<not> revoked r) ks)),
      map (\<lambda>(h, r). (h, withdraw i r)) ks)"
  by (induction i n ks rule: revoke_tenant_loop.induct) (auto simp: withdraw_def Let_def)

lemma revoke_tenant_eq:
  "revoke_tenant i ks =
     (int (length (filter (\<lambda>(h, r). tid (ktenant r) = i \<and> \<not> revoked r) ks)),
      map (\<lambda>(h, r). (h, withdraw i r)) ks)"
  by (simp add: revoke_tenant_def revoke_tenant_loop_eq)

lemma lookup_revoke_tenant [dict_simps]:
  "lookup h k (snd (revoke_tenant i ks)) =
     (case lookup h k ks of
        None \<Rightarrow> None
      | Some r \<Rightarrow> if tid (ktenant r) = i then None else Some r)"
proof -
  have "map_of (map (\<lambda>(h, r). (h, withdraw i r)) ks) x = map_option (withdraw i) (map_of ks x)" for x
    by (simp add: map_of_map)
  then show ?thesis
    by (auto simp: lookup_def revoke_tenant_eq withdraw_def split: option.splits)
qed

section \<open>The interface the authentication relies on\<close>

locale key_directory =
  fixes find_key :: "'s \<Rightarrow> string \<Rightarrow> tenant option"
    and close_tenant :: "tenant_id \<Rightarrow> 's \<Rightarrow> 's"
  assumes find_closed: "find_key (close_tenant i s) k =
      (case find_key s k of None \<Rightarrow> None | Some t \<Rightarrow> if tid t = i then None else Some t)"
begin

lemma closed_gone: "find_key (close_tenant i s) k = Some t \<Longrightarrow> tid t \<noteq> i \<and> find_key s k = Some t"
  by (simp add: find_closed split: option.splits if_splits)

lemma close_others: "find_key s k = Some t \<Longrightarrow> tid t \<noteq> i \<Longrightarrow> find_key (close_tenant i s) k = Some t"
  by (simp add: find_closed)

lemma close_twice: "find_key (close_tenant i (close_tenant i s)) k = find_key (close_tenant i s) k"
  by (simp add: find_closed split: option.split)

end

definition tenant_of_key :: "(string \<Rightarrow> string) \<Rightarrow> keystore \<Rightarrow> string \<Rightarrow> tenant option" where
  "tenant_of_key hash_key ks k = map_option ktenant (lookup hash_key k ks)"

interpretation keys: key_directory "tenant_of_key h" "\<lambda>i ks. snd (revoke_tenant i ks)" for h
  by unfold_locales (simp add: tenant_of_key_def lookup_revoke_tenant split: option.split)

section \<open>The store as a machine, and its specification by history\<close>

datatype key_op =
    Create string tenant string
  | Add string tenant string
  | Revoke string
  | RevokeTenant tenant_id

fun key_step :: "(string \<Rightarrow> string) \<Rightarrow> key_op \<Rightarrow> keystore \<Rightarrow> keystore" where
  "key_step h (Create token t l) ks = snd (create_key h token t l ks)"
| "key_step h (Add k t l) ks = add_existing h k t l ks"
| "key_step h (Revoke k) ks = snd (revoke h k ks)"
| "key_step h (RevokeTenant i) ks = snd (revoke_tenant i ks)"

fun keys_of_op :: "key_op \<Rightarrow> string set" where
  "keys_of_op (Create token t l) = {generate_key token (tid t)}"
| "keys_of_op (Add k t l) = {k}"
| "keys_of_op (Revoke k) = {k}"
| "keys_of_op (RevokeTenant i) = {}"

text \<open>
  Whom a plaintext key belongs to, read off the history of operations, newest first: no hashes
  and no store.
\<close>

fun owner :: "key_op list \<Rightarrow> string \<Rightarrow> (tenant \<times> string) option" where
  "owner [] k = None"
| "owner (Create token t l # ops) k =
     (if k = generate_key token (tid t) then Some (t, l) else owner ops k)"
| "owner (Add k' t l # ops) k = (if k = k' then Some (t, l) else owner ops k)"
| "owner (Revoke k' # ops) k = (if k = k' then None else owner ops k)"
| "owner (RevokeTenant i # ops) k = (case owner ops k of
       None \<Rightarrow> None
     | Some (t, l) \<Rightarrow> if tid t = i then None else Some (t, l))"

definition key_owner :: "key_record \<Rightarrow> tenant \<times> string" where
  "key_owner r = (ktenant r, label r)"

lemma key_owner_new [simp]: "key_owner (new_record h t l) = (t, l)"
  by (simp add: key_owner_def new_record_def)

lemma fold_key_step_owner:
  assumes "inj_on h K" "k \<in> K"
  shows "(\<Union>op \<in> set ops. keys_of_op op) \<subseteq> K \<Longrightarrow>
    map_option key_owner (lookup h k (fold (key_step h) ops [])) = owner (rev ops) k"
proof (induction ops rule: rev_induct)
  case Nil
  then show ?case by (simp add: lookup_def)
next
  case (snoc op ops)
  have h: "h k = h k' \<longleftrightarrow> k = k'" if "k' \<in> K" for k'
    using assms that by (meson inj_on_eq_iff)
  define ks where "ks = fold (key_step h) ops []"
  have IH: "owner (rev ops) k = map_option key_owner (lookup h k ks)"
    using snoc by (simp add: ks_def)
  have "map_option key_owner (lookup h k (key_step h op ks)) = owner (op # rev ops) k"
  proof (cases op)
    case (RevokeTenant i)
    then show ?thesis
      by (auto simp: lookup_revoke_tenant key_owner_def IH split: option.split)
  qed (use snoc.prems h in \<open>simp_all add: create_key_eq dict_simps IH\<close>)
  then show ?case by (simp add: ks_def)
qed

section \<open>Properties\<close>

text \<open>
  C33. The key store implements its history. As long as the hash does not collide on the keys
  in use, looking a plaintext key up after any sequence of key creations, seedings and
  revocations gives the tenant and label of the newest operation that issued this key, unless
  the key or its tenant was revoked since, and nothing otherwise.
\<close>

theorem keystore_refines_history:
  assumes "inj_on hash_key K" "(\<Union>op \<in> set ops. keys_of_op op) \<subseteq> K" "k \<in> K"
  shows "map_option key_owner (lookup hash_key k (fold (key_step hash_key) ops [])) = owner (rev ops) k"
  using fold_key_step_owner [OF assms(1,3,2)] .

theorem keystore_refines_history_witness:
  "map_option key_owner (lookup (\<lambda>s. s) ''k1'' (fold (key_step (\<lambda>s. s))
      [Add ''k1'' (new_tenant ''a'' ''A'') ''x'', Add ''k2'' (new_tenant ''b'' ''B'') ''y'',
       RevokeTenant ''b''] [])) = Some (new_tenant ''a'' ''A'', ''x'')"
  using keystore_refines_history [of "\<lambda>s. s" UNIV "[Add ''k1'' (new_tenant ''a'' ''A'') ''x'',
      Add ''k2'' (new_tenant ''b'' ''B'') ''y'', RevokeTenant ''b'']" "''k1''"]
  by (simp add: new_tenant_def)

text \<open>
  Revoking a tenant is complete and touches nobody else: afterwards no key resolves to the
  tenant, every key of another tenant resolves as before, and the number it reports is that
  of the keys it disabled, which is 0 when it is called again.
\<close>

theorem revoke_tenant_complete:
  assumes "revoke_tenant i ks = (n, ks')"
  shows "(lookup h k ks' = Some r \<longleftrightarrow> lookup h k ks = Some r \<and> tid (ktenant r) \<noteq> i)
    \<and> n = int (length (filter (\<lambda>(x, r). tid (ktenant r) = i \<and> \<not> revoked r) ks))
    \<and> fst (revoke_tenant i ks') = 0 \<and> list_tenants ks' = list_tenants ks"
proof -
  have ks': "ks' = snd (revoke_tenant i ks)" using assms by simp
  have "map (ktenant \<circ> snd) ks' = map (ktenant \<circ> snd) ks"
    by (auto simp: ks' revoke_tenant_eq)
  moreover have "filter (\<lambda>(x, r). tid (ktenant r) = i \<and> \<not> revoked r) ks' = []"
    by (auto simp: ks' revoke_tenant_eq filter_empty_conv)
  then have "fst (revoke_tenant i ks') = 0" by (simp add: revoke_tenant_eq)
  moreover have "lookup h k ks' = Some r \<longleftrightarrow> lookup h k ks = Some r \<and> tid (ktenant r) \<noteq> i"
    by (auto simp: ks' lookup_revoke_tenant split: option.splits)
  ultimately show ?thesis using assms by (simp add: list_tenants_def revoke_tenant_eq)
qed

theorem revoke_tenant_complete_witness:
  "\<exists>n ks'. revoke_tenant ''a'' (add_existing (\<lambda>s. s) ''k'' (new_tenant ''a'' ''A'') ''x'' []) = (n, ks')
    \<and> n = 1 \<and> lookup (\<lambda>s. s) ''k'' ks' = None \<and> fst (revoke_tenant ''a'' ks') = 0"
proof -
  define ks where "ks = add_existing (\<lambda>s. s) ''k'' (new_tenant ''a'' ''A'') ''x'' []"
  obtain n ks' where e: "revoke_tenant ''a'' ks = (n, ks')" by fastforce
  have gone: "lookup (\<lambda>s. s) ''k'' ks' \<noteq> Some r" for r
    using revoke_tenant_complete [OF e, of "\<lambda>s. s" "''k''" r]
    by (auto simp: ks_def lookup_add_existing new_record_def new_tenant_def)
  have "n = 1"
    using revoke_tenant_complete [OF e]
    by (simp add: ks_def add_existing_def new_record_def new_tenant_def Let_def)
  moreover have "fst (revoke_tenant ''a'' ks') = 0" using revoke_tenant_complete [OF e] by blast
  ultimately show ?thesis using gone e by (auto simp: ks_def)
qed

text \<open>
  The tenants the dashboard lists: each tenant id that ever had a key exactly once, in the
  order of the store, and for each the tenant of its first key.
\<close>

theorem list_tenants_each_once:
  "distinct (map tid (list_tenants ks))
    \<and> tid ` set (list_tenants ks) = (\<lambda>(h, r). tid (ktenant r)) ` set ks
    \<and> subseq (list_tenants ks) (map (ktenant \<circ> snd) ks)
    \<and> (\<forall>t \<in> set (list_tenants ks). \<exists>us h r vs. ks = us @ (h, r) # vs \<and> ktenant r = t
         \<and> (\<forall>(h', r') \<in> set us. tid (ktenant r') \<noteq> tid t))"
proof -
  have "\<exists>us h r vs. ks = us @ (h, r) # vs \<and> ktenant r = t
      \<and> (\<forall>(h', r') \<in> set us. tid (ktenant r') \<noteq> tid t)" if t: "t \<in> set (list_tenants ks)" for t
  proof -
    obtain us vs where e: "map (ktenant \<circ> snd) ks = us @ t # vs" "tid t \<notin> tid ` set us"
      using dedup_by_first [OF t [unfolded list_tenants_def]] by auto
    then obtain us' h r vs' where ks: "ks = us' @ (h, r) # vs'" "map (ktenant \<circ> snd) us' = us"
        "ktenant r = t"
      by (auto simp: map_eq_append_conv map_eq_Cons_conv)
    from e(2) have "\<forall>x \<in> set us'. tid (ktenant (snd x)) \<noteq> tid t"
      unfolding ks(2) [symmetric] by (simp add: image_iff) metis
    then have "\<forall>(h', r') \<in> set us'. tid (ktenant r') \<noteq> tid t" by auto
    with ks show ?thesis by blast
  qed
  moreover have "tid ` set (list_tenants ks) = (\<lambda>(h, r). tid (ktenant r)) ` set ks"
    by (auto simp: list_tenants_def set_dedup_by image_image case_prod_unfold)
  ultimately show ?thesis
    by (simp add: distinct_dedup_by subseq_dedup_by list_tenants_def)
qed

theorem list_tenants_each_once_witness:
  "map tid (list_tenants (add_existing (\<lambda>s. s) ''k2'' (new_tenant ''a'' ''A'') ''x''
      (add_existing (\<lambda>s. s) ''k1'' (new_tenant ''a'' ''A'') ''x'' []))) = [''a'']"
proof -
  define ks where "ks = add_existing (\<lambda>s. s) ''k2'' (new_tenant ''a'' ''A'') ''x''
      (add_existing (\<lambda>s. s) ''k1'' (new_tenant ''a'' ''A'') ''x'' [])"
  have "distinct (map tid (list_tenants ks)) \<and> set (map tid (list_tenants ks)) = {''a''}"
    using list_tenants_each_once [of ks]
    by (simp add: ks_def add_existing_def new_record_def new_tenant_def Let_def)
  then have "map tid (list_tenants ks) = [''a'']"
    by (cases "map tid (list_tenants ks)"; cases "tl (map tid (list_tenants ks))") auto
  then show ?thesis by (simp add: ks_def)
qed

end
