(* ===== verification/Usage.thy ===== *)
theory Usage
  imports Schemas "HOL-Library.List_Lexorder" "HOL-Library.Multiset"
begin

text \<open>
  The usage records of \<open>usage/models.py\<close> and the queries of \<open>usage/repository.py\<close>. The table is
  the list of its rows in insertion order; each SQLAlchemy query is the list operation the
  SQL it builds means (\<open>WHERE\<close>, \<open>GROUP BY\<close>, \<open>SUM\<close> that skips NULLs, \<open>COALESCE\<close>, \<open>ORDER BY\<close> with
  \<open>LIMIT\<close>). SQL fixes neither the order of groups nor that of rows with equal time stamps; the
  model takes the insertion order and no property depends on it. The engine, its sessions
  and the transactions are not modelled.
\<close>

section \<open>UTC date-times\<close>

datatype datetime =
  Datetime (year: int) (month: nat) (day: nat) (hour: nat) (minute: nat) (second: nat)
    (microsecond: nat)

definition dt_key :: "datetime \<Rightarrow> int list" where
  "dt_key d = [year d, int (month d), int (day d), int (hour d), int (minute d), int (second d),
     int (microsecond d)]"

lemma dt_key_inj: "dt_key d = dt_key d' \<longleftrightarrow> d = d'"
  by (cases d; cases d') (simp add: dt_key_def)

instantiation datetime :: linorder
begin

definition less_eq_datetime :: "datetime \<Rightarrow> datetime \<Rightarrow> bool" where
  "less_eq_datetime d d' \<longleftrightarrow> dt_key d \<le> dt_key d'"

definition less_datetime :: "datetime \<Rightarrow> datetime \<Rightarrow> bool" where
  "less_datetime d d' \<longleftrightarrow> dt_key d < dt_key d'"

instance
proof
  fix x y z :: datetime
  show "x < y \<longleftrightarrow> x \<le> y \<and> \<not> y \<le> x"
    by (auto simp: less_eq_datetime_def less_datetime_def)
  show "x \<le> x" by (simp add: less_eq_datetime_def)
  show "x \<le> y \<Longrightarrow> y \<le> z \<Longrightarrow> x \<le> z" by (auto simp: less_eq_datetime_def)
  show "x \<le> y \<Longrightarrow> y \<le> x \<Longrightarrow> x = y" by (auto simp: less_eq_datetime_def dt_key_inj)
  show "x \<le> y \<or> y \<le> x" by (auto simp: less_eq_datetime_def)
qed

end

text \<open>\<open>now.replace(day=1, hour=0, minute=0, second=0, microsecond=0)\<close>\<close>

definition month_start :: "datetime \<Rightarrow> datetime" where
  "month_start now = Datetime (year now) (month now) 1 0 0 0 0"

definition days_in_month :: "int \<Rightarrow> nat \<Rightarrow> nat" where
  "days_in_month y m =
     (if m = 2 then (if y mod 4 = 0 \<and> (y mod 100 \<noteq> 0 \<or> y mod 400 = 0) then 29 else 28)
      else if m \<in> {4, 6, 9, 11} then 30 else 31)"

text \<open>\<open>now - timedelta(hours=24)\<close>: the same time of the day before.\<close>

definition day_before :: "datetime \<Rightarrow> datetime" where
  "day_before d =
     (let (y, m, dd) =
        (if 1 < day d then (year d, month d, day d - 1)
         else if 1 < month d then (year d, month d - 1, days_in_month (year d) (month d - 1))
         else (year d - 1, 12, 31))
      in Datetime y m dd (hour d) (minute d) (second d) (microsecond d))"

definition valid_date :: "datetime \<Rightarrow> bool" where
  "valid_date d \<longleftrightarrow> 1 \<le> month d \<and> month d \<le> 12 \<and> 1 \<le> day d \<and> day d \<le> days_in_month (year d) (month d)"

lemma day_before_earlier:
  assumes "valid_date d"
  shows "day_before d < d \<and> valid_date (day_before d)"
proof -
  have dm: "28 \<le> days_in_month y m" "days_in_month y 12 = 31" for y m
    by (simp_all add: days_in_month_def)
  consider "1 < day d" | "day d = 1" "1 < month d" | "day d = 1" "month d = 1"
    using assms by (force simp: valid_date_def)
  then show ?thesis
  proof cases
    case 2
    then show ?thesis
      using assms dm(1) [of "year d" "month d - 1"]
      by (auto simp: day_before_def less_datetime_def dt_key_def valid_date_def)
  qed (use assms dm(2) in \<open>auto simp: day_before_def less_datetime_def dt_key_def valid_date_def\<close>)
qed

text \<open>From the month's first instant up to now lie exactly the moments of this month.\<close>

lemma month_start_le_iff:
  assumes "1 \<le> day ts" "ts \<le> now"
  shows "month_start now \<le> ts \<longleftrightarrow> year ts = year now \<and> month ts = month now"
  using assms by (auto simp: less_eq_datetime_def dt_key_def month_start_def)

section \<open>The table\<close>

record usage_record =
  ur_id :: int
  ur_ts :: datetime
  ur_request_id :: string
  ur_tenant_id :: tenant_id
  ur_requested_model :: model_id
  ur_upstream_provider :: string
  ur_upstream_model :: model_id
  ur_prompt_tokens :: int
  ur_completion_tokens :: int
  ur_total_tokens :: int
  ur_cost_usd :: "usd option"
  ur_latency_ms :: real
  ur_cache_status :: cache_status
  ur_fallback_used :: bool
  ur_status_code :: int

type_synonym usage_table = "usage_record list"

text \<open>An insert assigns the autoincremented primary key.\<close>

definition next_id :: "usage_table \<Rightarrow> int" where
  "next_id rows = fold (\<lambda>r n. max n (ur_id r)) rows 0 + 1"

definition insert_usage :: "usage_record \<Rightarrow> usage_table \<Rightarrow> usage_table" where
  "insert_usage r rows = rows @ [r\<lparr>ur_id := next_id rows\<rparr>]"

definition sum_cost :: "usage_table \<Rightarrow> usd" where
  "sum_cost rows = sum_list (map (\<lambda>r. case ur_cost_usd r of None \<Rightarrow> 0 | Some c \<Rightarrow> c) rows)"

definition rows_since :: "datetime \<Rightarrow> usage_table \<Rightarrow> usage_table" where
  "rows_since since rows = filter (\<lambda>r. since \<le> ur_ts r) rows"

definition since_or_day :: "datetime \<Rightarrow> datetime option \<Rightarrow> datetime" where
  "since_or_day now since = (case since of None \<Rightarrow> day_before now | Some s \<Rightarrow> s)"

record tenant_usage_summary =
  tu_tenant_id :: tenant_id
  tu_requests :: int
  tu_total_tokens :: int
  tu_cost_usd :: usd

definition usage_by_tenant ::
  "datetime \<Rightarrow> datetime option \<Rightarrow> usage_table \<Rightarrow> tenant_usage_summary list"
where
  "usage_by_tenant now since rows =
     (let rs = rows_since (since_or_day now since) rows
      in map (\<lambda>i. let g = filter (\<lambda>r. ur_tenant_id r = i) rs
                 in \<lparr>tu_tenant_id = i, tu_requests = int (length g),
                     tu_total_tokens = sum_list (map ur_total_tokens g), tu_cost_usd = sum_cost g\<rparr>)
             (dedup_by (\<lambda>i. i) [] (map ur_tenant_id rs)))"

definition usage_by_model ::
  "datetime \<Rightarrow> datetime option \<Rightarrow> usage_table \<Rightarrow> (model_id \<times> int \<times> usd) list"
where
  "usage_by_model now since rows =
     (let rs = rows_since (since_or_day now since) rows
      in map (\<lambda>m. let g = filter (\<lambda>r. ur_upstream_model r = m) rs
                 in (m, int (length g), sum_cost g))
             (dedup_by (\<lambda>m. m) [] (map ur_upstream_model rs)))"

text \<open>\<open>ORDER BY ts DESC LIMIT limit\<close>\<close>

definition newest_first :: "usage_table \<Rightarrow> usage_table" where
  "newest_first rows = rev (sort_key ur_ts rows)"

definition recent :: "nat \<Rightarrow> usage_table \<Rightarrow> usage_table" where
  "recent limit rows = take limit (newest_first rows)"

definition month_to_date_cost :: "datetime \<Rightarrow> tenant_id \<Rightarrow> usage_table \<Rightarrow> usd" where
  "month_to_date_cost now i rows =
     sum_cost (filter (\<lambda>r. ur_tenant_id r = i \<and> month_start now \<le> ur_ts r) rows)"

section \<open>Sums over groups\<close>

lemma sum_cost_simps [simp]:
  "sum_cost [] = 0"
  "sum_cost (r # rs) = (case ur_cost_usd r of None \<Rightarrow> 0 | Some c \<Rightarrow> c) + sum_cost rs"
  "sum_cost (rs @ rs') = sum_cost rs + sum_cost rs'"
  by (simp_all add: sum_cost_def)

text \<open>Summing a quantity group by group is summing it over all rows.\<close>

lemma sum_list_swap_add: "(\<Sum>k\<leftarrow>ks. f k + g k) = (\<Sum>k\<leftarrow>ks. f k) + (\<Sum>k\<leftarrow>ks. g k)"
  for f g :: "'a \<Rightarrow> 'b :: comm_monoid_add"
  by (induction ks) (auto simp: algebra_simps)

lemma sum_list_single:
  "distinct ks \<Longrightarrow> (\<Sum>k\<leftarrow>ks. if k = a then x else 0) = (if a \<in> set ks then x else 0)"
  for x :: "'b :: comm_monoid_add"
  by (induction ks) auto

lemma sum_by_group:
  fixes f :: "'r \<Rightarrow> 'b :: comm_monoid_add"
  assumes "distinct ks" "key ` set rs \<subseteq> set ks"
  shows "(\<Sum>k\<leftarrow>ks. \<Sum>r\<leftarrow>filter (\<lambda>r. key r = k) rs. f r) = (\<Sum>r\<leftarrow>rs. f r)"
  using assms
proof (induction rs)
  case (Cons r rs)
  have "(\<Sum>k\<leftarrow>ks. \<Sum>r\<leftarrow>filter (\<lambda>r. key r = k) (r # rs). f r)
      = (\<Sum>k\<leftarrow>ks. (if k = key r then f r else 0) + (\<Sum>r\<leftarrow>filter (\<lambda>r. key r = k) rs. f r))"
    by (intro arg_cong [of _ _ sum_list] map_cong) auto
  also have "\<dots> = f r + (\<Sum>r\<leftarrow>rs. f r)"
    using Cons by (simp add: sum_list_swap_add sum_list_single)
  finally show ?case by simp
qed simp

lemma groups_of:
  "distinct (dedup_by (\<lambda>k. k) [] ks)" "set (dedup_by (\<lambda>k. k) [] ks) = set ks"
  using distinct_dedup_by [of "\<lambda>k. k" "[]" ks] set_dedup_by [of "\<lambda>k. k" "[]" ks] by simp_all

section \<open>Properties\<close>

text \<open>
  The month-to-date cost is that of the current calendar month: for a table whose rows are
  dated up to now, it adds up the costs of exactly the tenant's rows with this year and month;
  inserting a row raises it by that row's cost if it is the tenant's and of this month, and
  otherwise leaves it alone.
\<close>

theorem month_to_date_cost_exact:
  assumes "\<forall>r \<in> set (insert_usage row rows). 1 \<le> day (ur_ts r) \<and> ur_ts r \<le> now"
  shows "month_to_date_cost now i (insert_usage row rows) =
      sum_cost (filter (\<lambda>r. ur_tenant_id r = i \<and> year (ur_ts r) = year now
        \<and> month (ur_ts r) = month now) rows)
      + (if ur_tenant_id row = i \<and> year (ur_ts row) = year now \<and> month (ur_ts row) = month now
         then (case ur_cost_usd row of None \<Rightarrow> 0 | Some c \<Rightarrow> c) else 0)"
proof -
  have m: "month_start now \<le> ur_ts r \<longleftrightarrow> year (ur_ts r) = year now \<and> month (ur_ts r) = month now"
    if "r \<in> set rows \<or> r = row" for r
    using month_start_le_iff [of "ur_ts r" now] assms that by (auto simp: insert_usage_def)
  have "filter (\<lambda>r. ur_tenant_id r = i \<and> month_start now \<le> ur_ts r) rows
      = filter (\<lambda>r. ur_tenant_id r = i \<and> year (ur_ts r) = year now \<and> month (ur_ts r) = month now) rows"
    using m by (intro filter_cong) auto
  with m [of row] show ?thesis by (simp add: month_to_date_cost_def insert_usage_def)
qed

definition demo_row :: "datetime \<Rightarrow> tenant_id \<Rightarrow> usd option \<Rightarrow> usage_record" where
  "demo_row ts i c =
     \<lparr>ur_id = 0, ur_ts = ts, ur_request_id = ''r'', ur_tenant_id = i, ur_requested_model = ''auto'',
      ur_upstream_provider = ''alpha'', ur_upstream_model = ''m'', ur_prompt_tokens = 3,
      ur_completion_tokens = 2, ur_total_tokens = 5, ur_cost_usd = c, ur_latency_ms = 1,
      ur_cache_status = CacheMiss, ur_fallback_used = False, ur_status_code = 200\<rparr>"

theorem month_to_date_cost_exact_witness:
  "month_to_date_cost (Datetime 2026 3 2 0 0 0 0) ''a''
     (insert_usage (demo_row (Datetime 2026 3 1 0 0 0 0) ''a'' (Some 2))
       [demo_row (Datetime 2026 2 28 23 59 59 0) ''a'' (Some 7)]) = 2"
  using month_to_date_cost_exact [of "demo_row (Datetime 2026 3 1 0 0 0 0) ''a'' (Some 2)"
      "[demo_row (Datetime 2026 2 28 23 59 59 0) ''a'' (Some 7)]" "Datetime 2026 3 2 0 0 0 0" "''a''"]
  by (simp add: insert_usage_def demo_row_def less_eq_datetime_def dt_key_def)

text \<open>
  The two dashboards agree with the table and with each other: each tenant (and each model)
  with a row in the period is listed exactly once, and the requests and the cost add up, over
  the tenants as over the models, to those of the period's rows; no request is dropped or
  counted twice.
\<close>

theorem usage_summaries_add_up:
  "let rs = rows_since (since_or_day now since) rows
    in distinct (map tu_tenant_id (usage_by_tenant now since rows))
    \<and> set (map tu_tenant_id (usage_by_tenant now since rows)) = ur_tenant_id ` set rs
    \<and> sum_list (map tu_requests (usage_by_tenant now since rows)) = int (length rs)
    \<and> sum_list (map (\<lambda>(m, n, c). n) (usage_by_model now since rows)) = int (length rs)
    \<and> sum_list (map tu_total_tokens (usage_by_tenant now since rows)) = sum_list (map ur_total_tokens rs)
    \<and> sum_list (map tu_cost_usd (usage_by_tenant now since rows)) = sum_cost rs
    \<and> sum_list (map (\<lambda>(m, n, c). c) (usage_by_model now since rows)) = sum_cost rs"
proof -
  define rs where "rs = rows_since (since_or_day now since) rows"
  define ks where "ks = dedup_by (\<lambda>i. i) [] (map ur_tenant_id rs)"
  define ms where "ms = dedup_by (\<lambda>i. i) [] (map ur_upstream_model rs)"
  have g: "distinct ks" "set ks = ur_tenant_id ` set rs" "distinct ms"
      "set ms = ur_upstream_model ` set rs"
    by (simp_all add: ks_def ms_def groups_of)
  have len: "int (length xs) = (\<Sum>r\<leftarrow>xs. 1)" for xs :: "usage_record list"
    by (induction xs) auto
  note by_tenant = sum_by_group [OF g(1), of ur_tenant_id rs]
  note by_model = sum_by_group [OF g(3), of ur_upstream_model rs]
  show ?thesis
    using g by_tenant [of "\<lambda>_. 1 :: int"] by_tenant [of ur_total_tokens]
      by_tenant [of "\<lambda>r. case ur_cost_usd r of None \<Rightarrow> 0 | Some c \<Rightarrow> c"]
      by_model [of "\<lambda>_. 1 :: int"]
      by_model [of "\<lambda>r. case ur_cost_usd r of None \<Rightarrow> 0 | Some c \<Rightarrow> c"]
    by (simp add: usage_by_tenant_def usage_by_model_def Let_def comp_def case_prod_unfold
        sum_cost_def len flip: ks_def ms_def rs_def)
qed

text \<open>
  The live log shows the newest completions: at most \<open>limit\<close> rows, all of the table's if it
  has no more, in descending order of time, and no row left out is newer than one shown.
\<close>

theorem recent_shows_newest:
  "length (recent limit rows) = min limit (length rows)
    \<and> sorted_wrt (\<lambda>r r'. ur_ts r' \<le> ur_ts r) (recent limit rows)
    \<and> (\<exists>rest. mset (recent limit rows @ rest) = mset rows
         \<and> (\<forall>r \<in> set (recent limit rows). \<forall>r' \<in> set rest. ur_ts r' \<le> ur_ts r))"
proof -
  have "sorted_wrt (\<lambda>r r'. ur_ts r' \<le> ur_ts r) (newest_first rows)"
    by (simp add: newest_first_def sorted_wrt_rev) (metis sorted_map sorted_sort_key)
  then have s: "sorted_wrt (\<lambda>r r'. ur_ts r' \<le> ur_ts r)
      (take limit (newest_first rows) @ drop limit (newest_first rows))"
    by simp
  have "mset (take limit (newest_first rows) @ drop limit (newest_first rows)) = mset rows"
    by (simp add: newest_first_def)
  with s show ?thesis
    unfolding recent_def sorted_wrt_append
    by (intro conjI exI [of _ "drop limit (newest_first rows)"]) (simp_all add: newest_first_def)
qed

theorem recent_shows_newest_witness:
  "length (recent 1 [demo_row (Datetime 2026 3 1 0 0 0 0) ''a'' None,
     demo_row (Datetime 2026 3 2 0 0 0 0) ''a'' None]) = 1"
  using recent_shows_newest [of 1 "[demo_row (Datetime 2026 3 1 0 0 0 0) ''a'' None,
     demo_row (Datetime 2026 3 2 0 0 0 0) ''a'' None]"] by simp

end
