(* ===== verification/Budget.thy ===== *)
theory Budget
  imports Tenants Usage
begin

text \<open>
  \<open>auth/budget.py\<close>: the monthly budget check with its in-process cache of month-to-date costs.
  Readings of \<open>time.monotonic()\<close> are arguments, one per reading; the repository's query is a
  function of the tenant, called only when the cache has no live entry.
\<close>

section \<open>The cache and the two operations\<close>

datatype budget_reason = BudgetExceeded usd usd

record budget_decision =
  bd_allowed :: bool
  spent_usd :: usd
  budget_usd :: "usd option"
  bd_reason :: "budget_reason option"

record mtd_cache =
  ttl :: seconds
  data :: "(tenant_id, usd \<times> seconds) dict"

definition new_mtd_cache :: mtd_cache where
  "new_mtd_cache = \<lparr>ttl = 30, data = []\<rparr>"

definition mtd_get :: "seconds \<Rightarrow> tenant_id \<Rightarrow> mtd_cache \<Rightarrow> usd option" where
  "mtd_get now i c = (case map_of (data c) i of
       None \<Rightarrow> None
     | Some (cost, expires_at) \<Rightarrow> if expires_at < now then None else Some cost)"

definition mtd_set :: "seconds \<Rightarrow> tenant_id \<Rightarrow> usd \<Rightarrow> mtd_cache \<Rightarrow> mtd_cache" where
  "mtd_set now i cost c = c\<lparr>data := AList.update i (cost, now + ttl c) (data c)\<rparr>"

definition mtd_invalidate :: "tenant_id \<Rightarrow> mtd_cache \<Rightarrow> mtd_cache" where
  "mtd_invalidate i c = c\<lparr>data := AList.delete i (data c)\<rparr>"

definition mtd_clear :: "mtd_cache \<Rightarrow> mtd_cache" where
  "mtd_clear c = c\<lparr>data := []\<rparr>"

definition check_budget ::
  "seconds \<Rightarrow> seconds \<Rightarrow> (tenant_id \<Rightarrow> usd) \<Rightarrow> tenant \<Rightarrow> mtd_cache \<Rightarrow> budget_decision \<times> mtd_cache"
where
  "check_budget t1 t2 mtd_cost t c =
     (case monthly_budget_usd t of
        None \<Rightarrow> (\<lparr>bd_allowed = True, spent_usd = 0, budget_usd = None, bd_reason = None\<rparr>, c)
      | Some budget \<Rightarrow>
          if budget \<le> 0
          then (\<lparr>bd_allowed = True, spent_usd = 0, budget_usd = Some budget, bd_reason = None\<rparr>, c)
          else (let (spent, c') = (case mtd_get t1 (tid t) c of
                      Some s \<Rightarrow> (s, c)
                    | None \<Rightarrow> (let s = mtd_cost (tid t) in (s, mtd_set t2 (tid t) s c)))
                in if budget \<le> spent
                   then (\<lparr>bd_allowed = False, spent_usd = spent, budget_usd = Some budget,
                          bd_reason = Some (BudgetExceeded spent budget)\<rparr>, c')
                   else (\<lparr>bd_allowed = True, spent_usd = spent, budget_usd = Some budget,
                          bd_reason = None\<rparr>, c')))"

definition record_spend :: "seconds \<Rightarrow> seconds \<Rightarrow> tenant_id \<Rightarrow> usd \<Rightarrow> mtd_cache \<Rightarrow> mtd_cache" where
  "record_spend t1 t2 i cost c =
     (if cost \<le> 0 then c
      else (case mtd_get t1 i c of
          None \<Rightarrow> c
        | Some cur \<Rightarrow> mtd_set t2 i (cur + cost) c))"

text \<open>
  \<open>check_budget\<close> in two halves. When the cache has no live entry the coroutine is suspended while
  the repository answers; everything else happens without a suspension.
\<close>

definition asks_repository :: "seconds \<Rightarrow> tenant \<Rightarrow> mtd_cache \<Rightarrow> bool" where
  "asks_repository now t c \<longleftrightarrow> (case monthly_budget_usd t of
       None \<Rightarrow> False
     | Some budget \<Rightarrow> \<not> budget \<le> 0 \<and> mtd_get now (tid t) c = None)"

definition after_answer :: "seconds \<Rightarrow> tenant \<Rightarrow> usd \<Rightarrow> mtd_cache \<Rightarrow> budget_decision \<times> mtd_cache" where
  "after_answer now t spent c =
     (let budget = the (monthly_budget_usd t); c' = mtd_set now (tid t) spent c
      in (if budget \<le> spent
          then \<lparr>bd_allowed = False, spent_usd = spent, budget_usd = Some budget,
                bd_reason = Some (BudgetExceeded spent budget)\<rparr>
          else \<lparr>bd_allowed = True, spent_usd = spent, budget_usd = Some budget, bd_reason = None\<rparr>, c'))"

lemma check_budget_asks:
  "asks_repository t1 t c \<Longrightarrow> check_budget t1 t2 f t c = after_answer t2 t (f (tid t)) c"
  by (auto simp: asks_repository_def check_budget_def after_answer_def Let_def split: option.splits)

lemma check_budget_no_query:
  "\<not> asks_repository t1 t c \<Longrightarrow> check_budget t1 t2 f t c = check_budget t1 t2' g t c"
  "\<not> asks_repository t1 t c \<Longrightarrow> snd (check_budget t1 t2 f t c) = c"
  by (auto simp: asks_repository_def check_budget_def split: option.splits)

section \<open>The cache against the ledger behind it\<close>

lemma mtd_get_set:
  "0 \<le> ttl c \<Longrightarrow> mtd_get now i (mtd_set t j x c) =
     (if i = j then (if t + ttl c < now then None else Some x) else mtd_get now i c)"
  by (simp add: mtd_get_def mtd_set_def dict_simps)

lemma mtd_get_earlier: "mtd_get now i c = Some x \<Longrightarrow> t \<le> now \<Longrightarrow> mtd_get t i c = Some x"
  by (auto simp: mtd_get_def split: option.splits if_splits)

lemma ttl_mtd_set [simp]: "ttl (mtd_set t i x c) = ttl c"
  by (simp add: mtd_set_def)

text \<open>What a budget answer is when it is computed from the ledger itself.\<close>

definition over_budget :: "tenant \<Rightarrow> usd \<Rightarrow> bool" where
  "over_budget t spent \<longleftrightarrow> (\<exists>b. monthly_budget_usd t = Some b \<and> 0 < b \<and> b \<le> spent)"

text \<open>
  The interface to the usage repository: booking a row adds its cost to what the tenant spent
  this month (if the row counts for it), and to nobody else's.
\<close>

locale cost_ledger =
  fixes mtd :: "'db \<Rightarrow> tenant_id \<Rightarrow> usd"
    and book :: "'r \<Rightarrow> 'db \<Rightarrow> 'db"
    and who :: "'r \<Rightarrow> tenant_id"
    and price :: "'r \<Rightarrow> usd option"
    and counts :: "'r \<Rightarrow> bool"
  assumes mtd_book: "mtd (book r db) i =
      mtd db i + (if who r = i \<and> counts r then (case price r of None \<Rightarrow> 0 | Some c \<Rightarrow> c) else 0)"
begin

text \<open>Every live entry of the cache is the ledger's figure.\<close>

definition coherent :: "seconds \<Rightarrow> 'db \<Rightarrow> mtd_cache \<Rightarrow> bool" where
  "coherent now db c \<longleftrightarrow> 0 \<le> ttl c \<and> (\<forall>i x. mtd_get now i c = Some x \<longrightarrow> x = mtd db i)"

lemma coherent_later: "coherent t db c \<Longrightarrow> t \<le> t' \<Longrightarrow> coherent t' db c"
  by (auto simp: coherent_def dest: mtd_get_earlier)

lemma coherent_fill: "coherent t db c \<Longrightarrow> coherent t db (mtd_set t' i (mtd db i) c)"
  by (auto simp: coherent_def mtd_get_set split: if_splits)

lemma check_coherent:
  assumes "coherent t1 db c"
  shows "coherent t1 db (snd (check_budget t1 t2 (mtd db) t c))"
    and "bd_allowed (fst (check_budget t1 t2 (mtd db) t c)) \<longleftrightarrow> \<not> over_budget t (mtd db (tid t))"
  using assms coherent_fill [OF assms, of t2 "tid t"]
  by (auto simp: check_budget_def over_budget_def Let_def not_le coherent_def
      split: option.split)

lemma complete_coherent:
  assumes "coherent t1 db c" "counts r" "price r = Some x" "0 < x"
  shows "coherent t1 (book r db) (record_spend t1 t2 (who r) x c)"
  using assms by (auto simp: coherent_def record_spend_def mtd_book mtd_get_set split: option.splits if_splits)

lemma complete_unpriced_coherent:
  assumes "coherent t1 db c" "price r = None \<or> price r = Some 0"
  shows "coherent t1 (book r db) c"
  using assms by (auto simp: coherent_def mtd_book)

end

text \<open>The usage table is such a ledger, for the month of any \<open>now\<close>.\<close>

interpretation usage_ledger: cost_ledger
    "\<lambda>rows i. month_to_date_cost now i rows" insert_usage ur_tenant_id ur_cost_usd
    "\<lambda>r. month_start now \<le> ur_ts r"
  for now
  by unfold_locales (simp add: month_to_date_cost_def insert_usage_def)

section \<open>One process within one month\<close>

text \<open>
  The budget-relevant events of the process: a check, and the bookkeeping of a completion (the
  row is inserted and, if it has a cost other than 0, \<open>record_spend\<close> is called).
\<close>

datatype budget_event = Check seconds seconds tenant | Complete seconds seconds usage_record

fun budget_time :: "budget_event \<Rightarrow> seconds" where
  "budget_time (Check t1 t2 t) = t1"
| "budget_time (Complete t1 t2 r) = t1"

definition book_completion ::
  "seconds \<Rightarrow> seconds \<Rightarrow> usage_record \<Rightarrow> usage_table \<times> mtd_cache \<Rightarrow> usage_table \<times> mtd_cache"
where
  "book_completion t1 t2 r s =
     (insert_usage r (fst s),
      (case ur_cost_usd r of
         None \<Rightarrow> snd s
       | Some c \<Rightarrow> if c = 0 then snd s else record_spend t1 t2 (ur_tenant_id r) c (snd s)))"

fun budget_run ::
  "datetime \<Rightarrow> budget_event list \<Rightarrow> usage_table \<times> mtd_cache \<Rightarrow> bool list \<times> (usage_table \<times> mtd_cache)"
where
  "budget_run now [] s = ([], s)"
| "budget_run now (Check t1 t2 t # evs) s =
     (let (d, c) = check_budget t1 t2 (\<lambda>i. month_to_date_cost now i (fst s)) t (snd s);
          (ds, s') = budget_run now evs (fst s, c)
      in (bd_allowed d # ds, s'))"
| "budget_run now (Complete t1 t2 r # evs) s = budget_run now evs (book_completion t1 t2 r s)"

text \<open>The same with no cache: every check asks the table.\<close>

fun uncached_run :: "datetime \<Rightarrow> budget_event list \<Rightarrow> usage_table \<Rightarrow> bool list" where
  "uncached_run now [] rows = []"
| "uncached_run now (Check t1 t2 t # evs) rows =
     (\<not> over_budget t (month_to_date_cost now (tid t) rows)) # uncached_run now evs rows"
| "uncached_run now (Complete t1 t2 r # evs) rows = uncached_run now evs (insert_usage r rows)"

definition this_month :: "datetime \<Rightarrow> budget_event \<Rightarrow> bool" where
  "this_month now ev = (case ev of
       Check t1 t2 t \<Rightarrow> True
     | Complete t1 t2 r \<Rightarrow> month_start now \<le> ur_ts r \<and> (\<forall>c. ur_cost_usd r = Some c \<longrightarrow> 0 \<le> c))"

lemma book_completion_coherent:
  assumes "usage_ledger.coherent now t1 rows c" "this_month now (Complete t1 t2 r)"
    and "book_completion t1 t2 r (rows, c) = (rows', c')"
  shows "rows' = insert_usage r rows \<and> usage_ledger.coherent now t1 rows' c'"
proof (cases "ur_cost_usd r = None \<or> ur_cost_usd r = Some 0")
  case True
  then show ?thesis
    using assms usage_ledger.complete_unpriced_coherent [OF assms(1) True]
    by (auto simp: book_completion_def)
next
  case False
  then obtain x where x: "ur_cost_usd r = Some x" "x \<noteq> 0" by auto
  then have "0 < x" "month_start now \<le> ur_ts r"
    using assms(2) by (auto simp: this_month_def less_le)
  with usage_ledger.complete_coherent [OF assms(1) _ x(1), of t2] assms(3) x show ?thesis
    by (auto simp: book_completion_def)
qed

lemma budget_run_uncached:
  "usage_ledger.coherent now t0 rows c \<Longrightarrow> sorted (t0 # map budget_time evs) \<Longrightarrow>
     list_all (this_month now) evs \<Longrightarrow> fst (budget_run now evs (rows, c)) = uncached_run now evs rows"
proof (induction evs arbitrary: t0 rows c)
  case (Cons ev evs)
  have t: "t0 \<le> budget_time ev" "sorted (budget_time ev # map budget_time evs)"
    using Cons.prems(2) by auto
  note coh = usage_ledger.coherent_later [OF Cons.prems(1) t(1)]
  show ?case
  proof (cases ev)
    case (Check t1 t2 tn)
    then have co: "usage_ledger.coherent now t1 rows c" using coh by simp
    note ck = usage_ledger.check_coherent [OF co, of t2 tn]
    from Cons.IH [OF ck(1)] ck(2) t(2) Cons.prems(3) Check show ?thesis
      by (simp add: case_prod_unfold Let_def)
  next
    case (Complete t1 t2 r)
    obtain rows' c' where b: "book_completion t1 t2 r (rows, c) = (rows', c')" by fastforce
    from coh Complete Cons.prems(3) have "usage_ledger.coherent now t1 rows c"
        "this_month now (Complete t1 t2 r)"
      by simp_all
    note bc = book_completion_coherent [OF this b]
    from Cons.IH [OF conjunct2 [OF bc]] conjunct1 [OF bc] t(2) Cons.prems(3) Complete b
    show ?thesis by simp
  qed
qed simp

section \<open>Properties\<close>



text \<open>
  With several processes the cache is not a 30 second window: each spend of a process renews
  its own entry, so the table is not read again as long as the requests keep coming, and what
  other processes spend stays unseen.
\<close>

lemma record_spend_renews:
  "mtd_get t1 i c = Some x \<Longrightarrow> 0 < cost \<Longrightarrow> 0 \<le> ttl c \<Longrightarrow> now \<le> t2 + ttl c \<Longrightarrow>
     mtd_get now i (record_spend t1 t2 i cost c) = Some (x + cost)"
  by (auto simp: record_spend_def mtd_get_set)

text \<open>
  Nor is it exact when a check waits for the table. What other requests spend in the meantime is
  not noted (there is no entry yet to add it to), and then the answer that does not contain
  it is stored as if it were fresh.
\<close>

lemma late_answer_loses_spend:
  assumes "asks_repository t1 t c" "t1 \<le> t2" "0 \<le> ttl c" "now \<le> t4 + ttl c"
  shows "mtd_get now (tid t) (snd (after_answer t4 t v (record_spend t2 t3 (tid t) cost c))) = Some v"
proof -
  have "mtd_get t2 (tid t) c = None"
    using assms(1) mtd_get_earlier [OF _ assms(2), of "tid t" c]
    by (cases "mtd_get t2 (tid t) c") (auto simp: asks_repository_def split: option.splits)
  with assms(3,4) show ?thesis by (simp add: record_spend_def after_answer_def mtd_get_set Let_def)
qed

end
