(* ===== verification/Auth.thy ===== *)
theory Auth
  imports Rate_Limit Budget Provider_API Config
begin

text \<open>
  \<open>auth/dependencies.py\<close>: the dependency every metered endpoint runs first. The process state it
  touches is a record: the key store (made at its first use), the limiter, the budget cache
  and the usage table the budget check may query. The limiter is the in-memory one, which
  \<open>get_rate_limiter\<close> selects when no \<open>redis_url\<close> is set. Time readings are a function of a counter.
\<close>

section \<open>Errors of a handler\<close>

datatype http_detail =
    MissingBearer
  | InvalidKey
  | Limited limit_reason
  | RateLimitExceeded
  | TokenLimitExceeded
  | BudgetSpent budget_reason usd "usd option"
  | BudgetSpentUnexplained usd "usd option"
  | ModelForbidden tenant_id model_id
  | NoProvider model_id
  | UpstreamsFailed "string list" last_error
  | AdminDisabled
  | BadAdminKey

record http_exception =
  status_code :: int
  detail :: http_detail
  headers :: "(string \<times> string) list"

text \<open>A handler raises an \<open>HTTPException\<close> or, through a fault, another exception (status 500).\<close>

datatype api_error = Http http_exception | Internal py_exc

section \<open>The pipeline\<close>

record auth_state =
  keystore_of :: "keystore option"
  limiter_of :: limiter
  budget_of :: mtd_cache
  usage_of :: usage_table

record auth_env =
  ae_hash :: "string \<Rightarrow> string"
  ae_environ :: "string \<Rightarrow> string option"
  ae_mono :: "nat \<Rightarrow> seconds"
  ae_utc :: datetime

definition anonymous :: tenant where
  "anonymous = (new_tenant ''anonymous'' ''Anonymous'')\<lparr>rpm_limit := 10000, tpm_limit := 10000000\<rparr>"

definition http_error :: "int \<Rightarrow> http_detail \<Rightarrow> (string \<times> string) list \<Rightarrow> api_error" where
  "http_error s d h = Http \<lparr>status_code = s, detail = d, headers = h\<rparr>"

text \<open>The three checks on a resolved tenant, in order.\<close>

definition budget_stage ::
  "auth_env \<Rightarrow> tenant \<Rightarrow> 'a auth_state_scheme \<Rightarrow> (api_error + tenant) \<times> 'a auth_state_scheme"
where
  "budget_stage ae t s =
     (let (d, c) = check_budget (ae_mono ae 2) (ae_mono ae 3)
                     (\<lambda>i. month_to_date_cost (ae_utc ae) i (usage_of s)) t (budget_of s);
          s' = s\<lparr>budget_of := c\<rparr>
      in if \<not> bd_allowed d
         then (Inl (http_error 402 (case bd_reason d of
                 None \<Rightarrow> BudgetSpentUnexplained (spent_usd d) (budget_usd d)
               | Some r \<Rightarrow> BudgetSpent r (spent_usd d) (budget_usd d)) []), s')
         else (Inr t, s'))"

definition token_stage ::
  "auth_env \<Rightarrow> tenant \<Rightarrow> 'a auth_state_scheme \<Rightarrow> (api_error + tenant) \<times> 'a auth_state_scheme"
where
  "token_stage ae t s =
     (let (d, lm) = check_tokens (ae_mono ae 1) (tid t) (tpm_limit t) (limiter_of s);
          s' = s\<lparr>limiter_of := lm\<rparr>
      in if \<not> allowed d
         then (Inl (http_error 429 (case reason d of None \<Rightarrow> TokenLimitExceeded | Some r \<Rightarrow> Limited r) []), s')
         else budget_stage ae t s')"

definition request_stage ::
  "auth_env \<Rightarrow> tenant \<Rightarrow> 'a auth_state_scheme \<Rightarrow> (api_error + tenant) \<times> 'a auth_state_scheme"
where
  "request_stage ae t s =
     (let (r, lm) = check_request (ae_mono ae 0) (tid t) (rpm_limit t) (limiter_of s);
          s' = s\<lparr>limiter_of := lm\<rparr>
      in case r of
           Inl e \<Rightarrow> (Inl (Internal e), s')
         | Inr d \<Rightarrow>
             if \<not> allowed d
             then (let hs = (case retry_after_seconds d of None \<Rightarrow> []
                       | Some x \<Rightarrow> [(''Retry-After'', show_int (trunc x + 1))])
                   in (Inl (http_error 429 (case reason d of None \<Rightarrow> RateLimitExceeded
                         | Some r \<Rightarrow> Limited r) hs), s'))
             else token_stage ae t s')"

definition get_current_tenant ::
  "settings \<Rightarrow> auth_env \<Rightarrow> string option \<Rightarrow> 'a auth_state_scheme
     \<Rightarrow> (api_error + tenant) \<times> 'a auth_state_scheme"
where
  "get_current_tenant st ae creds s =
     (if \<not> auth_enabled st then (Inr anonymous, s)
      else if \<not> given creds
      then (Inl (http_error 401 MissingBearer [(''WWW-Authenticate'', ''Bearer'')]), s)
      else (let (ks, kst) = get_keystore (ae_hash ae) (ae_environ ae) (keystore_of s);
                s1 = s\<lparr>keystore_of := kst\<rparr>
            in case ks of
                 Inl e \<Rightarrow> (Inl (Internal e), s1)
               | Inr ks \<Rightarrow> (case lookup (ae_hash ae) (the creds) ks of
                     None \<Rightarrow> (Inl (http_error 401 InvalidKey []), s1)
                   | Some r \<Rightarrow> request_stage ae (ktenant r) s1)))"

text \<open>\<open>optional_tenant\<close> swallows an \<open>HTTPException\<close>, not another exception.\<close>

definition optional_tenant ::
  "settings \<Rightarrow> auth_env \<Rightarrow> string option \<Rightarrow> 'a auth_state_scheme
     \<Rightarrow> (api_error + tenant option) \<times> 'a auth_state_scheme"
where
  "optional_tenant st ae creds s =
     (let (r, s') = get_current_tenant st ae creds s
      in (case r of Inr t \<Rightarrow> Inr (Some t) | Inl (Http e) \<Rightarrow> Inr None | Inl (Internal e) \<Rightarrow> Inl (Internal e), s'))"

section \<open>Facts\<close>

lemma reason_refuse [simp]: "reason (refuse r x) = Some r" "allowed (refuse r x) = False"
    "retry_after_seconds (refuse r x) = x" "allowed admit = True"
  by (simp_all add: refuse_def admit_def)

lemma check_request_cases:
  obtains (admitted) "fst (check_request now i l lm) = Inr admit"
  | (refused) x where "fst (check_request now i l lm) = Inr (refuse (RpmExceeded l) (Some x))" "0 \<le> x"
  | (crashed) "fst (check_request now i l lm) = Inl IndexError" "l \<le> 0"
  by (cases "fst (check_request now i l lm)")
     (auto simp: check_request_current Let_def split: if_splits list.splits)

definition within_tpm :: "seconds \<Rightarrow> tenant \<Rightarrow> limiter \<Rightarrow> bool" where
  "within_tpm now t lm \<longleftrightarrow>
     sum_list (map snd (token_events (prune now 60 (current lm (tid t))))) < tpm_limit t"

definition within_rpm :: "seconds \<Rightarrow> tenant \<Rightarrow> limiter \<Rightarrow> bool" where
  "within_rpm now t lm \<longleftrightarrow>
     int (length (timestamps (prune now 60 (current lm (tid t))))) < rpm_limit t"

lemma check_tokens_allowed: "allowed (fst (check_tokens now (tid t) (tpm_limit t) lm)) \<longleftrightarrow> within_tpm now t lm"
  by (simp add: check_tokens_current within_tpm_def Let_def)

lemma check_request_allowed:
  "fst (check_request now (tid t) (rpm_limit t) lm) = Inr admit \<longleftrightarrow> within_rpm now t lm"
  by (auto simp: check_request_current within_rpm_def Let_def split: list.split)

lemma check_budget_allowed:
  "bd_allowed (fst (check_budget t1 t2 f t c)) \<longleftrightarrow>
     \<not> over_budget t (case mtd_get t1 (tid t) c of None \<Rightarrow> f (tid t) | Some x \<Rightarrow> x)"
  by (auto simp: check_budget_def over_budget_def Let_def not_le split: option.split)

text \<open>What the budget stage takes the tenant to have spent.\<close>

definition spent_now :: "auth_env \<Rightarrow> tenant \<Rightarrow> 'a auth_state_scheme \<Rightarrow> usd" where
  "spent_now ae t s = (case mtd_get (ae_mono ae 2) (tid t) (budget_of s) of
       None \<Rightarrow> month_to_date_cost (ae_utc ae) (tid t) (usage_of s)
     | Some x \<Rightarrow> x)"

definition limiter_after_request :: "auth_env \<Rightarrow> tenant \<Rightarrow> 'a auth_state_scheme \<Rightarrow> limiter" where
  "limiter_after_request ae t s =
     snd (check_request (ae_mono ae 0) (tid t) (rpm_limit t) (limiter_of s))"

lemma budget_stage_result:
  "fst (budget_stage ae t s) =
     (if \<not> over_budget t (spent_now ae t s) then Inr t else fst (budget_stage ae t s))"
  "over_budget t (spent_now ae t s) \<Longrightarrow> \<exists>d h. fst (budget_stage ae t s) = Inl (http_error 402 d h)"
  using check_budget_allowed [of "ae_mono ae 2" "ae_mono ae 3"
      "\<lambda>i. month_to_date_cost (ae_utc ae) i (usage_of s)" t "budget_of s"]
  by (auto simp: budget_stage_def spent_now_def case_prod_unfold Let_def)

lemma token_stage_result:
  assumes "lm = limiter_of s"
  shows "within_tpm (ae_mono ae 1) t lm \<Longrightarrow> \<not> over_budget t (spent_now ae t s) \<Longrightarrow>
      fst (token_stage ae t s) = Inr t"
    and "within_tpm (ae_mono ae 1) t lm \<Longrightarrow> over_budget t (spent_now ae t s) \<Longrightarrow>
      \<exists>d h. fst (token_stage ae t s) = Inl (http_error 402 d h)"
    and "\<not> within_tpm (ae_mono ae 1) t lm \<Longrightarrow>
      \<exists>d h. fst (token_stage ae t s) = Inl (http_error 429 d h)"
proof -
  define s1 where "s1 = s\<lparr>limiter_of := snd (check_tokens (ae_mono ae 1) (tid t) (tpm_limit t) lm)\<rparr>"
  have sp: "spent_now ae t s1 = spent_now ae t s" by (simp add: s1_def spent_now_def split: option.split)
  have eq: "token_stage ae t s = (if within_tpm (ae_mono ae 1) t lm then budget_stage ae t s1
      else token_stage ae t s)"
    using check_tokens_allowed [of "ae_mono ae 1" t lm] assms
    by (auto simp: token_stage_def s1_def case_prod_unfold Let_def)
  show "within_tpm (ae_mono ae 1) t lm \<Longrightarrow> \<not> over_budget t (spent_now ae t s) \<Longrightarrow>
      fst (token_stage ae t s) = Inr t"
    using eq budget_stage_result(1) [of ae t s1] sp by auto
  show "within_tpm (ae_mono ae 1) t lm \<Longrightarrow> over_budget t (spent_now ae t s) \<Longrightarrow>
      \<exists>d h. fst (token_stage ae t s) = Inl (http_error 402 d h)"
    using eq budget_stage_result(2) [of t ae s1] sp by auto
  show "\<not> within_tpm (ae_mono ae 1) t lm \<Longrightarrow>
      \<exists>d h. fst (token_stage ae t s) = Inl (http_error 429 d h)"
    using check_tokens_allowed [of "ae_mono ae 1" t lm] assms
    by (auto simp: token_stage_def case_prod_unfold Let_def)
qed

text \<open>The verdict on a resolved tenant, as one case distinction.\<close>

definition verdict_on :: "auth_env \<Rightarrow> tenant \<Rightarrow> 'a auth_state_scheme \<Rightarrow> int" where
  "verdict_on ae t s =
     (if \<not> within_rpm (ae_mono ae 0) t (limiter_of s) then 429
      else if \<not> within_tpm (ae_mono ae 1) t (limiter_after_request ae t s) then 429
      else if over_budget t (spent_now ae t s) then 402 else 200)"

definition crashes :: "auth_env \<Rightarrow> tenant \<Rightarrow> 'a auth_state_scheme \<Rightarrow> bool" where
  "crashes ae t s \<longleftrightarrow> (case fst (check_request (ae_mono ae 0) (tid t) (rpm_limit t) (limiter_of s)) of
     Inl e \<Rightarrow> True | Inr d \<Rightarrow> False)"

lemma request_stage_result:
  "if crashes ae t s then fst (request_stage ae t s) = Inl (Internal IndexError) \<and> rpm_limit t \<le> 0
   else if verdict_on ae t s = 200 then fst (request_stage ae t s) = Inr t
   else (\<exists>d h. fst (request_stage ae t s) = Inl (http_error (verdict_on ae t s) d h))"
proof -
  define s1 where "s1 = s\<lparr>limiter_of := limiter_after_request ae t s\<rparr>"
  have sp: "spent_now ae t s1 = spent_now ae t s"
    by (simp add: s1_def spent_now_def split: option.split)
  show ?thesis
  proof (cases rule: check_request_cases [of "ae_mono ae 0" "tid t" "rpm_limit t" "limiter_of s"])
    case admitted
    then have "within_rpm (ae_mono ae 0) t (limiter_of s)"
      using check_request_allowed by blast
    moreover have "request_stage ae t s = token_stage ae t s1"
      using admitted by (simp add: request_stage_def s1_def limiter_after_request_def
          case_prod_unfold Let_def)
    moreover have "limiter_after_request ae t s = limiter_of s1" by (simp add: s1_def)
    moreover have "\<not> crashes ae t s" using admitted by (simp add: crashes_def)
    ultimately show ?thesis
      using token_stage_result [OF refl, of ae t s1] by (auto simp: verdict_on_def sp)
  next
    case (refused x)
    then have "verdict_on ae t s = 429"
      using check_request_allowed [of "ae_mono ae 0" t "limiter_of s"] by (simp add: verdict_on_def)
    with refused show ?thesis by (auto simp: crashes_def request_stage_def case_prod_unfold Let_def)
  next
    case crashed
    then show ?thesis by (simp add: crashes_def request_stage_def case_prod_unfold Let_def)
  qed
qed

text \<open>The tenant a request stage lets through is the one it was given, on one condition.\<close>

lemma request_stage_Inr:
  "fst (request_stage ae t s) = Inr t' \<longleftrightarrow> t' = t \<and> \<not> crashes ae t s \<and> verdict_on ae t s = 200"
  using request_stage_result [of ae t s] by (auto simp: http_error_def split: if_splits)

lemma keystore_same: "keystore_of s = Some ks \<Longrightarrow> s\<lparr>keystore_of := Some ks\<rparr> = s"
  by (cases s) simp

lemma get_current_tenant_stages:
  assumes "auth_enabled st" "keystore_of s = Some ks" "given creds"
  shows "get_current_tenant st ae creds s = (case lookup (ae_hash ae) (the creds) ks of
       None \<Rightarrow> (Inl (http_error 401 InvalidKey []), s)
     | Some r \<Rightarrow> request_stage ae (ktenant r) s)"
  using assms by (auto simp: get_current_tenant_def get_keystore_def keystore_same split: option.split)

section \<open>Properties\<close>


text \<open>
  Revoking a tenant's keys locks it out: after \<open>revoke_tenant\<close> no credential whatsoever is
  resolved to that tenant, while a request of another tenant is decided as before.
\<close>

theorem revoked_tenant_locked_out:
  assumes "auth_enabled st" "keystore_of s = Some ks"
    and "s1 = s\<lparr>keystore_of := Some (snd (revoke_tenant i ks))\<rparr>"
  shows "(\<forall>t. fst (get_current_tenant st ae creds s1) = Inr t \<longrightarrow> tid t \<noteq> i)
    \<and> (\<forall>t. fst (get_current_tenant st ae creds s) = Inr t \<longrightarrow> tid t \<noteq> i \<longrightarrow>
         fst (get_current_tenant st ae creds s1) = Inr t)"
proof (cases "given creds")
  case False
  then show ?thesis using assms(1) by (simp add: get_current_tenant_def)
next
  case True
  define h k where "h = ae_hash ae" and "k = the creds"
  have g1: "get_current_tenant st ae creds s1 = (case lookup h k (snd (revoke_tenant i ks)) of
       None \<Rightarrow> (Inl (http_error 401 InvalidKey []), s1) | Some r \<Rightarrow> request_stage ae (ktenant r) s1)"
    using get_current_tenant_stages [OF assms(1) _ True, of s1] assms(3) by (simp add: h_def k_def)
  have g: "get_current_tenant st ae creds s = (case lookup h k ks of
       None \<Rightarrow> (Inl (http_error 401 InvalidKey []), s) | Some r \<Rightarrow> request_stage ae (ktenant r) s)"
    using get_current_tenant_stages [OF assms(1,2) True] by (simp add: h_def k_def)
  have v: "verdict_on ae t s1 = verdict_on ae t s" "crashes ae t s1 = crashes ae t s" for t
    by (simp_all add: assms(3) verdict_on_def limiter_after_request_def spent_now_def crashes_def
        split: option.split)
  have r: "fst (get_current_tenant st ae creds s1) = Inr t \<longleftrightarrow>
      (\<exists>r. lookup h k (snd (revoke_tenant i ks)) = Some r \<and> t = ktenant r
        \<and> \<not> crashes ae t s \<and> verdict_on ae t s = 200)"
    "fst (get_current_tenant st ae creds s) = Inr t \<longleftrightarrow>
      (\<exists>r. lookup h k ks = Some r \<and> t = ktenant r \<and> \<not> crashes ae t s \<and> verdict_on ae t s = 200)" for t
    by (auto simp: g1 g request_stage_Inr v split: option.split)
  have k: "tenant_of_key h ks k = map_option ktenant (lookup h k ks)"
    "tenant_of_key h (snd (revoke_tenant i ks)) k = map_option ktenant (lookup h k (snd (revoke_tenant i ks)))"
    by (simp_all add: tenant_of_key_def)
  have "tid t \<noteq> i" if "fst (get_current_tenant st ae creds s1) = Inr t" for t
    using that keys.closed_gone [of h i ks k t] unfolding r k by auto
  moreover have "fst (get_current_tenant st ae creds s1) = Inr t"
    if "fst (get_current_tenant st ae creds s) = Inr t" "tid t \<noteq> i" for t
    using that keys.close_others [of h ks k t i] unfolding r k by auto
  ultimately show ?thesis by blast
qed

text \<open>
  Honouring \<open>Retry-After\<close> works: when a live key is refused for its request rate, the
  response is a 429 with the header \<open>Retry-After: k\<close> for some positive \<open>k\<close>, and after \<open>k\<close>
  seconds without requests the tenant is below its request limit again.
\<close>

theorem retry_after_header_sound:
  assumes "auth_enabled st" "keystore_of s = Some ks" "given creds"
    and "lookup (ae_hash ae) (the creds) ks = Some r" "0 < rpm_limit (ktenant r)"
    and "int (length (timestamps (current (limiter_of s) (tid (ktenant r))))) \<le> rpm_limit (ktenant r)"
    and "\<not> within_rpm (ae_mono ae 0) (ktenant r) (limiter_of s)"
  shows "\<exists>d k s'. get_current_tenant st ae creds s
      = (Inl (http_error 429 d [(''Retry-After'', show_int k)]), s') \<and> 0 < k
    \<and> (\<forall>later \<ge> ae_mono ae 0 + of_int k. within_rpm later (ktenant r) (limiter_of s'))"
proof -
  define t where "t = ktenant r"
  obtain res lm where c: "check_request (ae_mono ae 0) (tid t) (rpm_limit t) (limiter_of s) = (res, lm)"
    by fastforce
  obtain x where x: "res = Inr (refuse (RpmExceeded (rpm_limit t)) (Some x))" "0 \<le> x"
    using assms(5,7) c check_request_allowed [of "ae_mono ae 0" t "limiter_of s"]
    by (cases rule: check_request_cases [of "ae_mono ae 0" "tid t" "rpm_limit t" "limiter_of s"])
       (auto simp: t_def)
  define k where "k = trunc x + 1"
  have k: "0 < k" "x < of_int k" using x(2) by (auto simp: k_def trunc_def)
  have "fst (check_request later (tid t) (rpm_limit t) lm) = Inr admit"
    if "ae_mono ae 0 + of_int k \<le> later" for later
    using retry_hint_sound [OF c [unfolded x(1)]] assms(5,6) k(2) that by (simp add: t_def)
  then have later: "within_rpm later t lm" if "ae_mono ae 0 + of_int k \<le> later" for later
    using that by (simp add: check_request_allowed)
  have "get_current_tenant st ae creds s = request_stage ae t s"
    using get_current_tenant_stages [OF assms(1-3), of ae] assms(4) by (simp add: t_def)
  also have "\<dots> = (Inl (http_error 429 (Limited (RpmExceeded (rpm_limit t)))
      [(''Retry-After'', show_int k)]), s\<lparr>limiter_of := lm\<rparr>)"
    using c x(1) by (simp add: request_stage_def k_def)
  finally show ?thesis using k(1) later by (auto simp: t_def)
qed

section \<open>A small process state\<close>

definition demo_tenant :: tenant where
  "demo_tenant = (new_tenant ''a'' ''A'')\<lparr>rpm_limit := 1\<rparr>"

definition demo_keys :: keystore where
  "demo_keys = add_existing (\<lambda>s. s) ''key'' demo_tenant ''x'' []"

definition demo_auth_state :: "seconds list \<Rightarrow> auth_state" where
  "demo_auth_state ts =
     \<lparr>keystore_of = Some demo_keys, limiter_of = [(''a'', new_window\<lparr>timestamps := ts\<rparr>)],
      budget_of = new_mtd_cache, usage_of = []\<rparr>"

definition demo_auth_env :: auth_env where
  "demo_auth_env = \<lparr>ae_hash = (\<lambda>s. s), ae_environ = (\<lambda>_. None), ae_mono = (\<lambda>_. 30),
     ae_utc = Datetime 2026 3 1 0 0 0 0\<rparr>"

abbreviation "auth_on \<equiv> default_settings\<lparr>auth_enabled := True\<rparr>"

lemma demo_lookup:
  "lookup (ae_hash demo_auth_env) ''key'' demo_keys = Some (new_record ''key'' demo_tenant ''x'')"
  "keystore_of (demo_auth_state ts) = Some demo_keys"
  by (simp_all add: demo_auth_env_def demo_keys_def lookup_add_existing demo_auth_state_def)

lemmas demo_auth_defs = demo_auth_state_def demo_auth_env_def demo_tenant_def new_tenant_def
  new_record_def current_def prune_def new_window_def Let_def


theorem revoked_tenant_locked_out_witness:
  "tid demo_tenant = ''a'' \<and> fst (get_current_tenant auth_on demo_auth_env (Some ''key'') ((demo_auth_state [])
     \<lparr>keystore_of := Some (snd (revoke_tenant ''a'' demo_keys))\<rparr>)) \<noteq> Inr demo_tenant"
proof -
  have "tid demo_tenant = ''a''" by (simp add: demo_auth_defs)
  moreover note revoked_tenant_locked_out [where st = auth_on and ae = demo_auth_env and creds = "Some ''key''"
      and i = "''a''", OF _ demo_lookup(2) refl]
  ultimately show ?thesis by auto
qed

theorem retry_after_header_sound_witness:
  "\<exists>d k s'. get_current_tenant auth_on demo_auth_env (Some ''key'') (demo_auth_state [0])
      = (Inl (http_error 429 d [(''Retry-After'', show_int k)]), s') \<and> 0 < k"
  using retry_after_header_sound [where st = auth_on and s = "demo_auth_state [0]" and ks = demo_keys
      and creds = "Some ''key''" and ae = demo_auth_env and r = "new_record ''key'' demo_tenant ''x''"]
    demo_lookup
  by (simp add: within_rpm_def demo_auth_defs) blast

end
