(* ===== verification/Regex.thy ===== *)
theory Regex
  imports Py_Strings
begin

text \<open>
  The fragment of Python's \<open>re\<close> that the gateway uses: character classes, \<open>\b\<close>, sequence,
  alternatives, bounded repetition \<open>{m,n}\<close> (and \<open>?\<close>), and greedy or lazy \<open>*\<close> of a character
  class; \<open>search\<close> and \<open>sub\<close>. A match is tried at a position given by what \<open>\b\<close> can see there
  (was the previous character a word character?) and the rest of the text. The result is the
  list of the lengths of all matches in the order in which the backtracking engine finds them, so
  that its head is the match \<open>re\<close> reports.
\<close>

section \<open>Patterns and their matches\<close>

datatype regex =
    Chr "char \<Rightarrow> bool"
  | WordB
  | Seq regex regex
  | Alt regex regex
  | Times nat nat regex
  | Many bool "char \<Rightarrow> bool"

text \<open>The context after \<open>n\<close> characters of the text.\<close>

definition ctx :: "bool \<Rightarrow> string \<Rightarrow> nat \<Rightarrow> bool" where
  "ctx pw xs n = (if n = 0 then pw else is_word (xs ! (n - 1)))"

definition word_next :: "string \<Rightarrow> bool" where
  "word_next xs \<longleftrightarrow> xs \<noteq> [] \<and> is_word (hd xs)"

definition boundary :: "bool \<Rightarrow> string \<Rightarrow> bool" where
  "boundary pw xs \<longleftrightarrow> pw \<noteq> word_next xs"

text \<open>Greedy repetition: one more iteration is tried before stopping.\<close>

fun times_from :: "(nat \<Rightarrow> nat list) \<Rightarrow> nat \<Rightarrow> nat \<Rightarrow> nat \<Rightarrow> nat list" where
  "times_from step lo 0 i = (if lo = 0 then [i] else [])"
| "times_from step lo (Suc k) i =
     concat (map (times_from step (lo - 1) k) (step i)) @ (if lo = 0 then [i] else [])"

primrec ends :: "regex \<Rightarrow> bool \<Rightarrow> string \<Rightarrow> nat \<Rightarrow> nat list" where
  "ends (Chr P) pw xs i = (if i < length xs \<and> P (xs ! i) then [i + 1] else [])"
| "ends WordB pw xs i = (if boundary (ctx pw xs i) (drop i xs) then [i] else [])"
| "ends (Seq a b) pw xs i = concat (map (ends b pw xs) (ends a pw xs i))"
| "ends (Alt a b) pw xs i = ends a pw xs i @ ends b pw xs i"
| "ends (Times lo hi r) pw xs i = times_from (ends r pw xs) lo hi i"
| "ends (Many greedy P) pw xs i =
     (let js = map (\<lambda>k. i + k) [0 ..< length (takeWhile P (drop i xs)) + 1]
      in if greedy then rev js else js)"

definition matches :: "regex \<Rightarrow> bool \<Rightarrow> string \<Rightarrow> nat list" where
  "matches r pw xs = ends r pw xs 0"

text \<open>\<open>pattern.search(text)\<close>: is there a match anywhere?\<close>

fun occurs :: "regex \<Rightarrow> bool \<Rightarrow> string \<Rightarrow> bool" where
  "occurs r pw [] = (matches r pw [] \<noteq> [])"
| "occurs r pw (x # xs) = (matches r pw (x # xs) \<noteq> [] \<or> occurs r (is_word x) xs)"

definition search :: "regex \<Rightarrow> string \<Rightarrow> bool" where
  "search r text = occurs r False text"

text \<open>
  \<open>pattern.sub(repl, text)\<close>: from left to right, the reported match at the first position that
  has one is replaced. (A pattern that can match the empty string, which none here can, is
  left as it is at such a position.)
\<close>

function sub_from :: "regex \<Rightarrow> string \<Rightarrow> bool \<Rightarrow> string \<Rightarrow> string" where
  "sub_from r repl pw [] = []"
| "sub_from r repl pw (x # xs) =
     (case matches r pw (x # xs) of
        [] \<Rightarrow> x # sub_from r repl (is_word x) xs
      | n # _ \<Rightarrow> if n = 0 then x # sub_from r repl (is_word x) xs
                else repl @ sub_from r repl (ctx pw (x # xs) n) (drop n (x # xs)))"
  by pat_completeness auto
termination
  by (relation "measure (\<lambda>(r, repl, pw, xs). length xs)") auto

declare sub_from.simps(2) [simp del]

definition sub :: "regex \<Rightarrow> string \<Rightarrow> string \<Rightarrow> string" where
  "sub r repl text = sub_from r repl False text"

section \<open>What every match consumes\<close>

text \<open>The characters a pattern can consume, and those it must.\<close>

primrec accepts :: "regex \<Rightarrow> char \<Rightarrow> bool" where
  "accepts (Chr P) c = P c"
| "accepts WordB c = False"
| "accepts (Seq a b) c = (accepts a c \<or> accepts b c)"
| "accepts (Alt a b) c = (accepts a c \<or> accepts b c)"
| "accepts (Times lo hi r) c = accepts r c"
| "accepts (Many g P) c = P c"

primrec requires :: "(char \<Rightarrow> bool) \<Rightarrow> regex \<Rightarrow> bool" where
  "requires D (Chr P) = (\<forall>c. P c \<longrightarrow> D c)"
| "requires D WordB = False"
| "requires D (Seq a b) = (requires D a \<or> requires D b)"
| "requires D (Alt a b) = (requires D a \<and> requires D b)"
| "requires D (Times lo hi r) = (0 < lo \<and> requires D r)"
| "requires D (Many g P) = False"

lemma set_times_from_induct:
  assumes "e \<in> set (times_from step lo k i)"
    and stop: "\<And>i. Q i i" and more: "\<And>i j e. j \<in> set (step i) \<Longrightarrow> Q j e \<Longrightarrow> Q i e"
  shows "Q i e"
  using assms(1)
proof (induction k arbitrary: lo i)
  case 0
  then show ?case by (auto intro: stop split: if_splits)
next
  case (Suc k)
  then show ?case by (auto intro: stop more split: if_splits)
qed

lemma le_takeWhile_iff:
  "m \<le> length (takeWhile P zs) \<longleftrightarrow> m \<le> length zs \<and> (\<forall>k < m. P (zs ! k))"
proof (induction zs arbitrary: m)
  case (Cons z zs)
  then show ?case by (cases m) (auto simp: less_Suc_eq_0_disj)
qed auto

lemma ends_Many_iff:
  assumes "i \<le> length xs"
  shows "e \<in> set (ends (Many g P) pw xs i) \<longleftrightarrow>
    i \<le> e \<and> e \<le> length xs \<and> (\<forall>k. i \<le> k \<and> k < e \<longrightarrow> P (xs ! k))"
proof -
  have "e \<in> set (ends (Many g P) pw xs i) \<longleftrightarrow> i \<le> e \<and> e - i \<le> length (takeWhile P (drop i xs))"
    by (auto simp: Let_def image_iff)
  also have "\<dots> \<longleftrightarrow> i \<le> e \<and> e \<le> length xs \<and> (\<forall>k < e - i. P (xs ! (i + k)))"
    using assms by (auto simp: le_takeWhile_iff)
  also have "\<dots> \<longleftrightarrow> i \<le> e \<and> e \<le> length xs \<and> (\<forall>k. i \<le> k \<and> k < e \<longrightarrow> P (xs ! k))"
    by (metis add_diff_cancel_left' add_less_cancel_left diff_less_mono le_add1 le_add_diff_inverse)
  finally show ?thesis .
qed

lemma ends_bounds:
  "e \<in> set (ends r pw xs i) \<Longrightarrow> i \<le> length xs \<Longrightarrow> i \<le> e \<and> e \<le> length xs"
proof (induction r arbitrary: i e)
  case (Seq a b)
  then show ?case by fastforce
next
  case (Times lo hi r)
  have "i \<le> length xs \<longrightarrow> i \<le> e \<and> e \<le> length xs"
  proof (rule set_times_from_induct [OF Times.prems(1) [unfolded ends.simps]])
    fix i j e assume "j \<in> set (ends r pw xs i)" "j \<le> length xs \<longrightarrow> j \<le> e \<and> e \<le> length xs"
    then show "i \<le> length xs \<longrightarrow> i \<le> e \<and> e \<le> length xs" using Times.IH [of j i] by auto
  qed simp
  with Times.prems(2) show ?case by blast
next
  case (Many g P)
  then show ?case using ends_Many_iff by blast
qed (auto split: if_splits)

lemma ends_accepts:
  "e \<in> set (ends r pw xs i) \<Longrightarrow> i \<le> length xs \<Longrightarrow> i \<le> k \<Longrightarrow> k < e \<Longrightarrow> accepts r (xs ! k)"
proof (induction r arbitrary: i e)
  case (Seq a b)
  then obtain j where j: "j \<in> set (ends a pw xs i)" "e \<in> set (ends b pw xs j)" by auto
  then have "j \<le> length xs" using ends_bounds Seq.prems(2) by blast
  with j Seq show ?case by (cases "k < j") auto
next
  case (Times lo hi r)
  have "i \<le> length xs \<longrightarrow> i \<le> k \<longrightarrow> k < e \<longrightarrow> accepts r (xs ! k)"
  proof (rule set_times_from_induct [OF Times.prems(1) [unfolded ends.simps]])
    fix i j e assume j: "j \<in> set (ends r pw xs i)"
      and "j \<le> length xs \<longrightarrow> j \<le> k \<longrightarrow> k < e \<longrightarrow> accepts r (xs ! k)"
    then show "i \<le> length xs \<longrightarrow> i \<le> k \<longrightarrow> k < e \<longrightarrow> accepts r (xs ! k)"
      using Times.IH [OF j] ends_bounds [OF j] by (cases "k < j") auto
  qed simp
  with Times.prems show ?case by simp
next
  case (Many g P)
  then show ?case using ends_Many_iff by simp
qed (auto split: if_splits simp: less_Suc_eq)

lemma ends_requires:
  "e \<in> set (ends r pw xs i) \<Longrightarrow> i \<le> length xs \<Longrightarrow> requires D r \<Longrightarrow>
     \<exists>k. i \<le> k \<and> k < e \<and> D (xs ! k)"
proof (induction r arbitrary: i e)
  case (Seq a b)
  then obtain j where j: "j \<in> set (ends a pw xs i)" "e \<in> set (ends b pw xs j)" by auto
  then have b: "j \<le> length xs" "i \<le> j" "j \<le> e" using ends_bounds Seq.prems(2) by blast+
  show ?case
  proof (cases "requires D a")
    case True
    from Seq.IH(1) [OF j(1) Seq.prems(2) True] b show ?thesis by (meson less_le_trans)
  next
    case False
    with Seq.prems(3) Seq.IH(2) [OF j(2) b(1)] b show ?thesis by (auto intro: order_trans)
  qed
next
  case (Times lo hi r)
  from Times.prems(1,3) obtain j hi' where j: "j \<in> set (ends r pw xs i)"
      "e \<in> set (times_from (ends r pw xs) (lo - 1) hi' j)"
    by (cases hi) auto
  have "j \<le> length xs" using ends_bounds [OF j(1) Times.prems(2)] by simp
  then have "e \<in> set (ends (Times (lo - 1) hi' r) pw xs j)" using j(2) by simp
  from ends_bounds [OF this \<open>j \<le> length xs\<close>] Times.IH [OF j(1) Times.prems(2)] Times.prems(3)
  show ?case by (auto intro: less_le_trans)
qed (auto split: if_splits)

text \<open>
  A match carries over to another text that has the same characters where the match is and a
  word boundary wherever the first text has one.
\<close>

definition agrees :: "nat \<Rightarrow> bool \<Rightarrow> string \<Rightarrow> bool \<Rightarrow> string \<Rightarrow> bool" where
  "agrees n pw xs pw' ys \<longleftrightarrow> n \<le> length xs \<and> n \<le> length ys \<and> (\<forall>k < n. xs ! k = ys ! k)
     \<and> (\<forall>k \<le> n. boundary (ctx pw' ys k) (drop k ys) \<longrightarrow> boundary (ctx pw xs k) (drop k xs))"

lemma ends_transfer:
  assumes "agrees n pw xs pw' ys"
  shows "e \<in> set (ends r pw' ys i) \<Longrightarrow> e \<le> n \<Longrightarrow> i \<le> n \<Longrightarrow> e \<in> set (ends r pw xs i)"
proof (induction r arbitrary: i e)
  case (Seq a b)
  then obtain j where j: "j \<in> set (ends a pw' ys i)" "e \<in> set (ends b pw' ys j)" by auto
  have "n \<le> length ys" using assms by (simp add: agrees_def)
  with j Seq.prems have "j \<le> n" using ends_bounds [OF j(1)] ends_bounds [OF j(2)] by linarith
  then have "j \<in> set (ends a pw xs i)" using Seq.IH(1) j(1) Seq.prems(3) by blast
  moreover have "e \<in> set (ends b pw xs j)" using Seq.IH(2) j(2) Seq.prems(2) \<open>j \<le> n\<close> by blast
  ultimately show ?case by auto
next
  case (Times lo hi r)
  have ys: "n \<le> length ys" using assms by (simp add: agrees_def)
  have "e \<in> set (times_from (ends r pw' ys) lo k i) \<Longrightarrow> e \<le> n \<Longrightarrow> i \<le> n \<Longrightarrow>
      e \<in> set (times_from (ends r pw xs) lo k i)" for lo k i e
  proof (induction k arbitrary: lo i)
    case (Suc k)
    show ?case
    proof (cases "lo = 0 \<and> e = i")
      case False
      with Suc.prems(1) obtain j where j: "j \<in> set (ends r pw' ys i)"
          "e \<in> set (times_from (ends r pw' ys) (lo - 1) k j)"
        by (auto split: if_splits)
      have jy: "j \<le> length ys" using ends_bounds [OF j(1)] Suc.prems(3) ys by simp
      have "e \<in> set (ends (Times (lo - 1) k r) pw' ys j)" using j(2) by simp
      from ends_bounds [OF this jy] Suc.prems(2) have "j \<le> n" by simp
      with Times.IH [OF j(1) _ Suc.prems(3)] Suc.IH [OF j(2) Suc.prems(2)] show ?thesis by auto
    qed simp
  qed (auto split: if_splits)
  with Times.prems show ?case by simp
next
  case (Many g P)
  have l: "i \<le> length xs" "i \<le> length ys" "n \<le> length xs" and eq: "\<forall>k < n. xs ! k = ys ! k"
    using assms Many.prems by (auto simp: agrees_def)
  from Many.prems(1) [unfolded ends_Many_iff [OF l(2)]] Many.prems(2) l(3) eq
  show ?case unfolding ends_Many_iff [OF l(1)] by (auto intro: order_trans)
qed (use assms in \<open>auto simp: agrees_def split: if_splits\<close>)

section \<open>Substitution leaves no match\<close>

text \<open>Patterns that match only between word boundaries.\<close>

definition word_bounded :: "regex \<Rightarrow> regex" where
  "word_bounded r = Seq WordB (Seq r WordB)"

lemma matches_word_bounded:
  assumes "n \<in> set (matches (word_bounded r) pw xs)"
  shows "boundary pw xs" and "boundary (ctx pw xs n) (drop n xs)" and "n \<le> length xs"
  using assms ends_bounds [of n "word_bounded r" pw xs 0]
  by (auto simp: matches_def word_bounded_def ctx_def split: if_splits)

text \<open>
  A pattern is insulated from a replacement when no match can overlap the inserted text: it
  cannot consume the replacement's first or last character, and every match contains a
  character the replacement does not have.
\<close>

definition insulated :: "regex \<Rightarrow> string \<Rightarrow> bool" where
  "insulated q repl \<longleftrightarrow> repl \<noteq> [] \<and> \<not> accepts q (hd repl) \<and> \<not> accepts q (last repl)
     \<and> requires (\<lambda>c. c \<notin> set repl) q \<and> \<not> is_word (hd repl) \<and> \<not> is_word (last repl)"

lemma insulated_nonempty: "insulated q repl \<Longrightarrow> n \<in> set (matches q pw xs) \<Longrightarrow> 0 < n"
  using ends_requires [of n q pw xs 0] by (fastforce simp: insulated_def matches_def)

lemma no_match_Nil: "insulated q repl \<Longrightarrow> matches q pw [] = []"
  using insulated_nonempty [of q repl _ pw "[]"] ends_bounds [of _ q pw "[]" 0]
  by (cases "matches q pw []") (auto simp: matches_def)

text \<open>No match starts inside the replacement.\<close>

lemma no_match_in_replacement:
  assumes "insulated q repl" "repl = us @ vs" "vs \<noteq> []"
  shows "matches q pw (vs @ rest) = []"
proof (rule ccontr)
  assume "matches q pw (vs @ rest) \<noteq> []"
  then obtain n where n: "n \<in> set (ends q pw (vs @ rest) 0)"
    unfolding matches_def by (meson last_in_set)
  have acc: "accepts q ((vs @ rest) ! k)" if "k < n" for k
    using ends_accepts [OF n _ _ that] by simp
  have last: "last repl = (vs @ rest) ! (length vs - 1)"
    using assms(2,3) last_conv_nth [of vs] by (simp add: nth_append)
  have "n \<le> length vs - 1"
    using acc [of "length vs - 1"] assms(1) unfolding insulated_def last by linarith
  moreover obtain k where k: "k < n" "(vs @ rest) ! k \<notin> set repl"
    using ends_requires [OF n] assms(1) by (auto simp: insulated_def)
  ultimately have "k < length vs" by linarith
  then have "(vs @ rest) ! k \<in> set repl" using assms(2) by (simp add: nth_append)
  with k(2) show False by simp
qed

lemma sub_from_keep:
  "matches r pw (x # xs) = [] \<or> hd (matches r pw (x # xs)) = 0 \<Longrightarrow>
     sub_from r repl pw (x # xs) = x # sub_from r repl (is_word x) xs"
  by (auto simp: sub_from.simps(2) split: list.split)

lemma sub_from_replace:
  "matches r pw (x # xs) = n # ns \<Longrightarrow> n \<noteq> 0 \<Longrightarrow>
     sub_from r repl pw (x # xs) = repl @ sub_from r repl (ctx pw (x # xs) n) (drop n (x # xs))"
  by (simp add: sub_from.simps(2))

text \<open>Up to the first inserted character, the result is the text itself.\<close>

lemma sub_from_prefix:
  assumes "repl \<noteq> []"
  shows "n \<le> length (sub_from r repl pw xs) \<Longrightarrow> hd repl \<notin> set (take n (sub_from r repl pw xs)) \<Longrightarrow>
    n \<le> length xs \<and> take n (sub_from r repl pw xs) = take n xs
      \<and> drop n (sub_from r repl pw xs) = sub_from r repl (ctx pw xs n) (drop n xs)"
proof (induction n arbitrary: pw xs)
  case 0
  then show ?case by (simp add: ctx_def)
next
  case (Suc m)
  then obtain x xs' where xs: "xs = x # xs'" by (cases xs) auto
  have keep: "matches r pw xs = [] \<or> hd (matches r pw xs) = 0"
  proof (rule ccontr)
    assume "\<not> (matches r pw xs = [] \<or> hd (matches r pw xs) = 0)"
    then obtain k ks where "matches r pw xs = k # ks" "k \<noteq> 0" by (cases "matches r pw xs") auto
    then have "sub_from r repl pw xs = repl @ sub_from r repl (ctx pw xs k) (drop k xs)"
      by (simp add: xs sub_from_replace)
    with assms Suc.prems(2) show False by (cases repl) auto
  qed
  note eq = sub_from_keep [OF keep [unfolded xs], of repl]
  have "ctx (is_word x) xs' m = ctx pw xs (Suc m)"
    by (cases m) (simp_all add: ctx_def xs)
  with Suc.IH [of "is_word x" xs'] Suc.prems show ?case by (simp add: xs eq)
qed

lemma boundary_sub_from:
  assumes "boundary p (sub_from (word_bounded r) repl p ys)"
  shows "boundary p ys"
proof (cases ys)
  case (Cons y ys')
  show ?thesis
  proof (cases "matches (word_bounded r) p ys")
    case Nil
    with assms show ?thesis
      using sub_from_keep [of "word_bounded r" p y ys' repl] by (simp add: Cons boundary_def word_next_def)
  next
    case (Cons n ns)
    then have "n \<in> set (matches (word_bounded r) p ys)" by simp
    then show ?thesis by (rule matches_word_bounded(1))
  qed
qed (use assms in simp)

lemma ctx_take: "take n xs = take n ys \<Longrightarrow> k \<le> n \<Longrightarrow> 0 < k \<Longrightarrow> ctx pw xs k = ctx pw' ys k"
  by (simp add: ctx_def) (metis Suc_less_eq Suc_pred le_imp_less_Suc nth_take)

lemma agrees_sub_from:
  assumes "repl \<noteq> []" "pw' = pw \<or> boundary pw xs"
    and "n \<le> length (sub_from (word_bounded r) repl pw xs)"
    and "hd repl \<notin> set (take n (sub_from (word_bounded r) repl pw xs))"
  shows "agrees n pw xs pw' (sub_from (word_bounded r) repl pw xs)"
proof -
  define out where "out = sub_from (word_bounded r) repl pw xs"
  have pre: "n \<le> length xs" "take n out = take n xs"
    using sub_from_prefix [OF assms(1,3,4)] by (simp_all add: out_def)
  have "boundary (ctx pw xs k) (drop k xs)"
    if k: "k \<le> n" "boundary (ctx pw' out k) (drop k out)" for k
  proof -
    have "set (take k out) \<subseteq> set (take n out)" using k(1) by (simp add: set_take_subset_set_take)
    then have d: "drop k out = sub_from (word_bounded r) repl (ctx pw xs k) (drop k xs)"
      using sub_from_prefix [OF assms(1), of k "word_bounded r" pw xs] assms(3,4) k(1)
      by (auto simp: out_def)
    show ?thesis
    proof (cases "k = 0 \<and> pw' \<noteq> pw")
      case True
      with assms(2) show ?thesis by (simp add: ctx_def)
    next
      case False
      then have "ctx pw' out k = ctx pw xs k"
        using ctx_take [OF pre(2) k(1)] by (cases "k = 0") (simp_all add: ctx_def)
      with k(2) d show ?thesis
        using boundary_sub_from [of "ctx pw xs k" r repl "drop k xs"] by simp
    qed
  qed
  moreover have "xs ! k = out ! k" if "k < n" for k using pre(2) that by (metis nth_take)
  ultimately show ?thesis using pre(1) assms(3) by (auto simp: agrees_def out_def)
qed

text \<open>A match at the start of the result is a match at the start of the text.\<close>

lemma match_sub_from:
  assumes "insulated q repl" "pw' = pw \<or> boundary pw xs"
    and "n \<in> set (matches q pw' (sub_from (word_bounded r) repl pw xs))"
  shows "n \<in> set (matches q pw xs)"
proof -
  define out where "out = sub_from (word_bounded r) repl pw xs"
  have n: "n \<in> set (ends q pw' out 0)" using assms(3) by (simp add: matches_def out_def)
  have len: "n \<le> length out" using ends_bounds [OF n] by simp
  have "accepts q c" if "c \<in> set (take n out)" for c
    using that ends_accepts [OF n] len by (auto simp: in_set_conv_nth)
  then have "hd repl \<notin> set (take n out)" using assms(1) by (auto simp: insulated_def)
  with len have "agrees n pw xs pw' out"
    using agrees_sub_from [OF _ assms(2), of repl n r] assms(1) by (simp add: out_def insulated_def)
  from ends_transfer [OF this n] show ?thesis by (simp add: matches_def)
qed

lemma occurs_append:
  "\<forall>us vs. repl = us @ vs \<and> vs \<noteq> [] \<longrightarrow> (\<forall>p. matches q p (vs @ rest) = []) \<Longrightarrow>
     occurs q pw (repl @ rest) = occurs q (ctx pw repl (length repl)) rest"
proof (induction repl arbitrary: pw)
  case Nil
  then show ?case by (simp add: ctx_def)
next
  case (Cons x repl)
  have "occurs q (is_word x) (repl @ rest) = occurs q (ctx (is_word x) repl (length repl)) rest"
  proof (rule Cons.IH, intro allI impI)
    fix us vs p assume "repl = us @ vs \<and> vs \<noteq> []"
    then show "matches q p (vs @ rest) = []" using Cons.prems by (metis append_Cons)
  qed
  moreover have "matches q pw (x # repl @ rest) = []"
    using Cons.prems [rule_format, of "[]" "x # repl" pw] by simp
  moreover have "ctx (is_word x) repl (length repl) = ctx pw (x # repl) (length (x # repl))"
    by (cases "length repl") (simp_all add: ctx_def)
  ultimately show ?case by simp
qed

lemma occurs_drop: "n \<le> length xs \<Longrightarrow> occurs q (ctx pw xs n) (drop n xs) \<Longrightarrow> occurs q pw xs"
proof (induction n arbitrary: pw xs)
  case 0
  then show ?case by (simp add: ctx_def)
next
  case (Suc n)
  then obtain x xs' where xs: "xs = x # xs'" by (cases xs) auto
  have "ctx pw xs (Suc n) = ctx (is_word x) xs' n" by (cases n) (simp_all add: ctx_def xs)
  with Suc show ?case by (simp add: xs)
qed

text \<open>
  The two halves: substitution creates no match of an insulated pattern, and leaves none of
  its own pattern.
\<close>

lemma occurs_sub_from:
  assumes "insulated q repl"
  shows "pw' = pw \<or> boundary pw xs \<Longrightarrow> occurs q pw' (sub_from (word_bounded r) repl pw xs) \<Longrightarrow>
    occurs q pw xs \<and> q \<noteq> word_bounded r"
proof (induction "length xs" arbitrary: pw pw' xs rule: less_induct)
  case less
  let ?r = "word_bounded r"
  show ?case
  proof (cases xs)
    case Nil
    with less.prems(2) no_match_Nil [OF assms] show ?thesis by simp
  next
    case (Cons x xs')
    show ?thesis
    proof (cases "matches ?r pw xs = [] \<or> hd (matches ?r pw xs) = 0")
      case True
      then have eq: "sub_from ?r repl pw xs = x # sub_from ?r repl (is_word x) xs'"
        unfolding Cons by (rule sub_from_keep)
      show ?thesis
      proof (cases "matches q pw' (sub_from ?r repl pw xs) = []")
        case False
        then obtain n where "n \<in> set (matches q pw' (sub_from ?r repl pw xs))"
          by (meson last_in_set)
        from match_sub_from [OF assms less.prems(1) this] have n: "n \<in> set (matches q pw xs)" .
        moreover have "q \<noteq> ?r"
          using True n insulated_nonempty [OF assms] by (metis empty_iff hd_in_set less_numeral_extra(3) list.set(1))
        ultimately show ?thesis by (auto simp: Cons)
      next
        case True
        with less.prems(2) eq have "occurs q (is_word x) (sub_from ?r repl (is_word x) xs')" by simp
        with less.hyps [of xs' "is_word x" "is_word x"] show ?thesis by (simp add: Cons)
      qed
    next
      case False
      then obtain n ns where m: "matches ?r pw xs = n # ns" "n \<noteq> 0"
        by (cases "matches ?r pw xs") auto
      then have n: "boundary (ctx pw xs n) (drop n xs)" "n \<le> length xs"
        using matches_word_bounded(2,3) [of n r pw xs] by simp_all
      define rest where "rest = sub_from ?r repl (ctx pw xs n) (drop n xs)"
      have "sub_from ?r repl pw xs = repl @ rest"
        using m by (simp add: Cons sub_from_replace rest_def)
      moreover have "occurs q pw' (repl @ rest) = occurs q (ctx pw' repl (length repl)) rest"
        using no_match_in_replacement [OF assms] by (intro occurs_append) auto
      ultimately have "occurs q (ctx pw' repl (length repl)) rest" using less.prems(2) by simp
      with less.hyps [of "drop n xs" "ctx pw' repl (length repl)" "ctx pw xs n"] n m(2)
      have "occurs q (ctx pw xs n) (drop n xs) \<and> q \<noteq> ?r" by (auto simp: rest_def Cons)
      with occurs_drop [OF n(2)] show ?thesis by blast
    qed
  qed
qed

lemma search_sub:
  assumes "insulated q repl" "search q (sub (word_bounded r) repl text)"
  shows "search q text" and "q \<noteq> word_bounded r"
  using occurs_sub_from [OF assms(1), of False False "text" r] assms(2)
  by (auto simp: search_def sub_def)

text \<open>Without a match, substitution changes nothing.\<close>

lemma sub_from_no_match: "\<not> occurs r pw xs \<Longrightarrow> sub_from r repl pw xs = xs"
  by (induction xs arbitrary: pw) (simp_all add: sub_from_keep)

lemma sub_no_match: "\<not> search r text \<Longrightarrow> sub r repl text = text"
  by (simp add: search_def sub_def sub_from_no_match)

end
