(* ===== verification/Guardrails.thy ===== *)
theory Guardrails
  imports Regex Schemas
begin

text \<open>
  \<open>middleware/guardrails.py\<close>: the four PII patterns, \<open>redact_pii\<close> and \<open>apply_to_messages\<close>.
\<close>

section \<open>Patterns\<close>

text \<open>A character class given by its characters, and the pieces the patterns are built of.\<close>

definition one_of :: "string \<Rightarrow> char \<Rightarrow> bool" where
  "one_of cs c \<longleftrightarrow> c \<in> set cs"

definition word_or :: "string \<Rightarrow> char \<Rightarrow> bool" where
  "word_or cs c \<longleftrightarrow> is_word c \<or> c \<in> set cs"

definition lit :: "char \<Rightarrow> regex" where
  "lit a = Chr (\<lambda>c. c = a)"

definition digits :: "nat \<Rightarrow> regex" where
  "digits n = Times n n (Chr is_digit)"

definition opt :: "regex \<Rightarrow> regex" where
  "opt r = Times 0 1 r"

definition some_of :: "(char \<Rightarrow> bool) \<Rightarrow> regex" where
  "some_of P = Seq (Chr P) (Many True P)"

text \<open>\<open>\b\d{3}-\d{2}-\d{4}\b\<close>\<close>

definition ssn_pattern :: regex where
  "ssn_pattern = word_bounded
     (Seq (digits 3) (Seq (lit (CHR ''-'')) (Seq (digits 2) (Seq (lit (CHR ''-'')) (digits 4)))))"

text \<open>\<open>\b(?:\d[ -]*?){13,16}\b\<close>\<close>

definition card_pattern :: regex where
  "card_pattern = word_bounded (Times 13 16 (Seq (Chr is_digit) (Many False (one_of '' -''))))"

text \<open>\<open>\b[\w.+-]+@[\w-]+\.[\w.-]+\b\<close>\<close>

definition email_pattern :: regex where
  "email_pattern = word_bounded
     (Seq (some_of (word_or ''.+-'')) (Seq (lit (CHR ''@'')) (Seq (some_of (word_or ''-''))
       (Seq (lit (CHR ''.'')) (some_of (word_or ''.-''))))))"

text \<open>\<open>\b(?:\+?1[-. ]?)?(?:\(\d{3}\)|\d{3})[-. ]?\d{3}[-. ]?\d{4}\b\<close>\<close>

definition phone_pattern :: regex where
  "phone_pattern =
     (let sep = opt (Chr (one_of ''-. ''))
      in word_bounded
        (Seq (opt (Seq (opt (lit (CHR ''+''))) (Seq (lit (CHR ''1'')) sep)))
        (Seq (Alt (Seq (lit (CHR ''('')) (Seq (digits 3) (lit (CHR '')'')))) (digits 3))
        (Seq sep (Seq (digits 3) (Seq sep (digits 4)))))))"

definition PATTERNS :: "(string \<times> regex) list" where
  "PATTERNS = [(''ssn'', ssn_pattern), (''credit_card'', card_pattern), (''email'', email_pattern),
     (''phone_us'', phone_pattern)]"

section \<open>Redaction\<close>

record guardrail_result =
  gr_text :: string
  gr_detected :: "string list"
  gr_redacted :: bool

text \<open>\<open>label.upper()\<close>, for labels of ASCII letters and underscores.\<close>

definition upper_char :: "char \<Rightarrow> char" where
  "upper_char c = (if in_range 97 122 c then char_of (of_char c - 32 :: nat) else c)"

definition placeholder :: "string \<Rightarrow> string" where
  "placeholder l = ''[REDACTED:'' @ map upper_char l @ '']''"

text \<open>The loop over the patterns.\<close>

fun redact_loop :: "(string \<times> regex) list \<Rightarrow> string list \<Rightarrow> string \<Rightarrow> string list \<times> string" where
  "redact_loop [] detected cleaned = (detected, cleaned)"
| "redact_loop ((l, pattern) # ps) detected cleaned =
     (if search pattern cleaned
      then redact_loop ps (detected @ [l]) (sub pattern (placeholder l) cleaned)
      else redact_loop ps detected cleaned)"

definition redact_pii :: "string \<Rightarrow> guardrail_result" where
  "redact_pii t =
     (let (detected, cleaned) = redact_loop PATTERNS [] t
      in \<lparr>gr_text = cleaned, gr_detected = detected, gr_redacted = (detected \<noteq> [])\<rparr>)"

fun apply_loop ::
  "bool \<Rightarrow> chat_message list \<Rightarrow> string list \<Rightarrow> chat_message list \<Rightarrow> chat_message list \<times> string list"
where
  "apply_loop redact [] all_detected new_messages = (new_messages, all_detected)"
| "apply_loop redact (m # ms) all_detected new_messages =
     (case content m of
        Text t \<Rightarrow>
          if redact
          then (let result = redact_pii t
                in if gr_redacted result
                   then apply_loop redact ms (all_detected @ gr_detected result)
                          (new_messages @ [m\<lparr>content := Text (gr_text result)\<rparr>])
                   else apply_loop redact ms all_detected (new_messages @ [m]))
          else apply_loop redact ms all_detected (new_messages @ [m])
      | Parts ps \<Rightarrow> apply_loop redact ms all_detected (new_messages @ [m]))"

definition apply_to_messages :: "chat_message list \<Rightarrow> bool \<Rightarrow> chat_message list \<times> string list" where
  "apply_to_messages ms redact =
     (let (new_messages, all_detected) = apply_loop redact ms [] []
      in (new_messages, dedup_by (\<lambda>d. d) [] all_detected))"

section \<open>The patterns are insulated from the placeholders\<close>

lemma placeholders:
  "placeholder ''ssn'' = ''[REDACTED:SSN]''"
  "placeholder ''credit_card'' = ''[REDACTED:CREDIT_CARD]''"
  "placeholder ''email'' = ''[REDACTED:EMAIL]''"
  "placeholder ''phone_us'' = ''[REDACTED:PHONE_US]''"
  by (simp_all add: placeholder_def upper_char_def in_range_def char_of_eq_iff)

definition labels :: "string list" where
  "labels = [''ssn'', ''credit_card'', ''email'', ''phone_us'']"

lemma labels_PATTERNS: "map fst PATTERNS = labels"
  by (simp add: PATTERNS_def labels_def)

text \<open>What a placeholder looks like to a pattern.\<close>

definition inert :: "string \<Rightarrow> bool" where
  "inert s \<longleftrightarrow> s \<noteq> [] \<and> hd s = CHR ''['' \<and> last s = CHR '']''
     \<and> list_all (\<lambda>c. \<not> is_digit c \<and> c \<noteq> CHR ''@'') s"

lemma inert_placeholder: "l \<in> set labels \<Longrightarrow> inert (placeholder l)"
  by (auto simp: labels_def placeholders inert_def is_digit_def in_range_def)

lemma inertD: "inert s \<Longrightarrow> is_digit c \<Longrightarrow> c \<notin> set s" "inert s \<Longrightarrow> CHR ''@'' \<notin> set s"
  by (auto simp: inert_def list_all_iff)

lemma brackets_not_word: "\<not> is_word (CHR ''['')" "\<not> is_word (CHR '']'')"
    "\<not> is_digit (CHR ''['')" "\<not> is_digit (CHR '']'')"
  by (simp_all add: char_class_defs)

lemmas pattern_defs = ssn_pattern_def card_pattern_def email_pattern_def phone_pattern_def
  word_bounded_def digits_def lit_def opt_def some_of_def one_of_def word_or_def Let_def

lemma insulated_patterns:
  assumes "q \<in> snd ` set PATTERNS" "l \<in> set labels"
  shows "insulated q (placeholder l)"
proof -
  note i = inert_placeholder [OF assms(2)]
  then have ends: "placeholder l \<noteq> []" "hd (placeholder l) = CHR ''[''" "last (placeholder l) = CHR '']''"
    by (simp_all add: inert_def)
  have "q = ssn_pattern \<or> q = card_pattern \<or> q = email_pattern \<or> q = phone_pattern"
    using assms(1) by (auto simp: PATTERNS_def)
  then show ?thesis
    unfolding insulated_def ends
    by (elim disjE) (simp_all add: pattern_defs brackets_not_word ends inertD [OF i])
qed

lemma PATTERNS_word_bounded: "q \<in> snd ` set PATTERNS \<Longrightarrow> \<exists>r. q = word_bounded r"
  by (auto simp: PATTERNS_def ssn_pattern_def card_pattern_def email_pattern_def phone_pattern_def
      Let_def)

section \<open>What the loops establish\<close>

lemma redact_loop_clean:
  assumes "set ps \<subseteq> set PATTERNS" "redact_loop ps ds s = (ds', s')"
  shows "(\<forall>q \<in> snd ` set ps. \<not> search q s')
    \<and> (\<forall>q \<in> snd ` set PATTERNS. search q s' \<longrightarrow> search q s)
    \<and> (\<exists>new. ds' = ds @ new \<and> subseq new (map fst ps)
         \<and> (new = [] \<longleftrightarrow> (\<forall>p \<in> set ps. \<not> search (snd p) s)) \<and> (new = [] \<longrightarrow> s' = s))"
  using assms
proof (induction ps arbitrary: ds s)
  case (Cons p ps)
  obtain l r where p: "p = (l, r)" by fastforce
  have rl: "r \<in> snd ` set PATTERNS" "l \<in> set labels"
    using Cons.prems(1) by (force simp: p labels_PATTERNS [symmetric])+
  show ?case
  proof (cases "search r s")
    case False
    have run: "redact_loop ps ds s = (ds', s')" and ps: "set ps \<subseteq> set PATTERNS"
      using Cons.prems False by (simp_all add: p)
    note IH = Cons.IH [OF ps run]
    have "\<not> search r s'" using IH rl(1) False by blast
    then have "\<forall>q \<in> snd ` set (p # ps). \<not> search q s'" using IH by (simp add: p)
    moreover obtain new where new: "ds' = ds @ new" "subseq new (map fst ps)"
        "new = [] \<longleftrightarrow> (\<forall>p \<in> set ps. \<not> search (snd p) s)" "new = [] \<longrightarrow> s' = s"
      using IH by blast
    have "subseq new (map fst (p # ps))"
        "new = [] \<longleftrightarrow> (\<forall>p' \<in> set (p # ps). \<not> search (snd p') s)"
      using False new(2,3) by (simp_all add: p list_emb_Cons)
    with new(1,4) have "\<exists>new. ds' = ds @ new \<and> subseq new (map fst (p # ps))
        \<and> (new = [] \<longleftrightarrow> (\<forall>p' \<in> set (p # ps). \<not> search (snd p') s)) \<and> (new = [] \<longrightarrow> s' = s)"
      by (intro exI [of _ new] conjI)
    moreover have "\<forall>q \<in> snd ` set PATTERNS. search q s' \<longrightarrow> search q s" using IH by blast
    ultimately show ?thesis by (intro conjI)
  next
    case True
    define s1 where "s1 = sub r (placeholder l) s"
    have run: "redact_loop ps (ds @ [l]) s1 = (ds', s')" using Cons.prems(2) True by (simp add: p s1_def)
    obtain r0 where r0: "r = word_bounded r0" using PATTERNS_word_bounded rl(1) by blast
    have from_s: "search q s" "q \<noteq> r" if "q \<in> snd ` set PATTERNS" "search q s1" for q
      using search_sub [OF insulated_patterns [OF that(1) rl(2)], of r0 s] that(2)
      by (simp_all add: s1_def r0)
    note IH = Cons.IH [OF _ run]
    have ps: "set ps \<subseteq> set PATTERNS" using Cons.prems(1) by simp
    then have sub: "snd ` set ps \<subseteq> snd ` set PATTERNS" by auto
    have "\<not> search r s'" using IH [OF ps] from_s(2) [of r] rl(1) by blast
    then have clean_ps: "\<forall>q \<in> snd ` set (p # ps). \<not> search q s'" using IH [OF ps] by (simp add: p)
    have back_ps: "\<forall>q \<in> snd ` set PATTERNS. search q s' \<longrightarrow> search q s"
      using IH [OF ps] from_s(1) by blast
    obtain new where "ds' = (ds @ [l]) @ new" "subseq new (map fst ps)"
      using IH [OF ps] by blast
    then have "ds' = ds @ (l # new)" "subseq (l # new) (map fst (p # ps))" by (simp_all add: p)
    moreover have "\<not> (\<forall>p' \<in> set (p # ps). \<not> search (snd p') s)" using True by (simp add: p)
    ultimately have "\<exists>new. ds' = ds @ new \<and> subseq new (map fst (p # ps))
        \<and> (new = [] \<longleftrightarrow> (\<forall>p' \<in> set (p # ps). \<not> search (snd p') s)) \<and> (new = [] \<longrightarrow> s' = s)"
      by (intro exI [of _ "l # new"] conjI) simp_all
    with clean_ps back_ps show ?thesis by (intro conjI)
  qed
qed simp

text \<open>A text in which no pattern is found.\<close>

definition clean :: "string \<Rightarrow> bool" where
  "clean t \<longleftrightarrow> (\<forall>(l, q) \<in> set PATTERNS. \<not> search q t)"

lemma redact_pii_loop:
  obtains ds s where "redact_loop PATTERNS [] t = (ds, s)"
    "redact_pii t = \<lparr>gr_text = s, gr_detected = ds, gr_redacted = (ds \<noteq> [])\<rparr>"
  by (cases "redact_loop PATTERNS [] t") (simp add: redact_pii_def)

lemma redact_pii_facts:
  "clean (gr_text (redact_pii t))"
  "gr_redacted (redact_pii t) \<longleftrightarrow> \<not> clean t"
  "clean t \<Longrightarrow> redact_pii t = \<lparr>gr_text = t, gr_detected = [], gr_redacted = False\<rparr>"
  "subseq (gr_detected (redact_pii t)) labels"
  "gr_detected (redact_pii t) = [] \<longleftrightarrow> clean t"
proof -
  obtain ds s where r: "redact_loop PATTERNS [] t = (ds, s)"
    "redact_pii t = \<lparr>gr_text = s, gr_detected = ds, gr_redacted = (ds \<noteq> [])\<rparr>"
    by (rule redact_pii_loop)
  note f = redact_loop_clean [OF subset_refl r(1)]
  have "\<forall>q \<in> snd ` set PATTERNS. \<not> search q s" using f by blast
  then show "clean (gr_text (redact_pii t))" by (auto simp: r(2) clean_def)
  obtain new where "ds = new" "subseq new labels" "new = [] \<longrightarrow> s = t"
      "new = [] \<longleftrightarrow> (\<forall>p \<in> set PATTERNS. \<not> search (snd p) t)"
    using f unfolding labels_PATTERNS append_Nil by blast
  then have "ds = [] \<longleftrightarrow> clean t" "ds = [] \<longrightarrow> s = t" "subseq ds labels"
    by (simp_all add: clean_def case_prod_unfold)
  then show "gr_redacted (redact_pii t) \<longleftrightarrow> \<not> clean t"
    "clean t \<Longrightarrow> redact_pii t = \<lparr>gr_text = t, gr_detected = [], gr_redacted = False\<rparr>"
    "subseq (gr_detected (redact_pii t)) labels"
    "gr_detected (redact_pii t) = [] \<longleftrightarrow> clean t"
    by (simp_all add: r(2))
qed

text \<open>What happens to one message, and the types it contributes.\<close>

definition redact_message :: "chat_message \<Rightarrow> chat_message" where
  "redact_message m = (case content m of
       Text t \<Rightarrow> m\<lparr>content := Text (gr_text (redact_pii t))\<rparr>
     | Parts ps \<Rightarrow> m)"

definition detected_in :: "chat_message \<Rightarrow> string list" where
  "detected_in m = (case content m of Text t \<Rightarrow> gr_detected (redact_pii t) | Parts ps \<Rightarrow> [])"

lemma content_same: "content m = Text t \<Longrightarrow> m\<lparr>content := Text t\<rparr> = m"
  by (cases m) simp

lemma apply_loop_redact:
  "apply_loop True ms ds new = (new @ map redact_message ms, ds @ concat (map detected_in ms))"
proof (induction ms arbitrary: ds new)
  case (Cons m ms)
  show ?case
  proof (cases "content m")
    case (Text t)
    show ?thesis
    proof (cases "clean t")
      case True
      with Cons Text redact_pii_facts(2,3) [of t] show ?thesis
        by (simp add: redact_message_def detected_in_def content_same)
    next
      case False
      with Cons Text redact_pii_facts(2) [of t] show ?thesis
        by (simp add: redact_message_def detected_in_def Let_def)
    qed
  qed (use Cons in \<open>simp add: redact_message_def detected_in_def\<close>)
qed simp

lemma apply_loop_off: "apply_loop False ms ds new = (new @ ms, ds)"
  by (induction ms arbitrary: new) (simp_all split: content.split)

section \<open>Properties\<close>

text \<open>
  C38. Redaction is complete and stable. After \<open>redact_pii\<close> none of the four patterns is found
  anywhere in the text: no replacement uncovers or creates a match, of its own pattern or of
  another. Running it again changes nothing, it reports a detection exactly when some pattern
  was found in the original text, and a text without PII is returned as it is.
\<close>

theorem redact_pii_complete:
  "clean (gr_text (redact_pii t))
    \<and> redact_pii (gr_text (redact_pii t)) =
        \<lparr>gr_text = gr_text (redact_pii t), gr_detected = [], gr_redacted = False\<rparr>
    \<and> (gr_redacted (redact_pii t) \<longleftrightarrow> (\<exists>(l, q) \<in> set PATTERNS. search q t))
    \<and> (gr_redacted (redact_pii t) \<or> gr_text (redact_pii t) = t)
    \<and> subseq (gr_detected (redact_pii t)) [''ssn'', ''credit_card'', ''email'', ''phone_us'']"
proof -
  have "gr_redacted (redact_pii t) \<or> gr_text (redact_pii t) = t"
    using redact_pii_facts(2,3) [of t] by (cases "clean t") auto
  then show ?thesis
    using redact_pii_facts(3) [OF redact_pii_facts(1)] redact_pii_facts(1,2,4)
    by (auto simp: clean_def labels_def)
qed

text \<open>
  The guardrail over a conversation. With redaction on, every text message comes out clean,
  and nothing else of the conversation changes: the number and order of the messages, their
  roles, names and tool ids, and every content that is not a string. The detected types are
  distinct, and empty exactly when no text message had PII. With redaction off the messages pass
  unchanged and nothing is reported.
\<close>

theorem guardrails_clean_conversation:
  "let (out, types) = apply_to_messages ms True
    in length out = length ms
      \<and> (\<forall>i < length ms. (case content (ms ! i) of
             Text t \<Rightarrow> \<exists>t'. out ! i = (ms ! i)\<lparr>content := Text t'\<rparr> \<and> clean t' \<and> (clean t \<longrightarrow> t' = t)
           | Parts ps \<Rightarrow> out ! i = ms ! i))
      \<and> distinct types \<and> set types \<subseteq> {''ssn'', ''credit_card'', ''email'', ''phone_us''}
      \<and> (types = [] \<longleftrightarrow> (\<forall>m \<in> set ms. \<forall>t. content m = Text t \<longrightarrow> clean t))
      \<and> apply_to_messages ms False = (ms, [])"
proof -
  define types where "types = dedup_by (\<lambda>d. d) [] (concat (map detected_in ms))"
  have out: "apply_to_messages ms True = (map redact_message ms, types)"
    by (simp add: apply_to_messages_def apply_loop_redact types_def)
  have off: "apply_to_messages ms False = (ms, [])"
    by (simp add: apply_to_messages_def apply_loop_off)
  have msg: "case content m of
      Text t \<Rightarrow> \<exists>t'. redact_message m = m\<lparr>content := Text t'\<rparr> \<and> clean t' \<and> (clean t \<longrightarrow> t' = t)
    | Parts ps \<Rightarrow> redact_message m = m" for m
    using redact_pii_facts(1,3) by (auto simp: redact_message_def split: content.split)
  have d: "distinct types" "set types = (\<Union>m \<in> set ms. set (detected_in m))"
    using distinct_dedup_by [of "\<lambda>d. d" "[]" "concat (map detected_in ms)"]
      set_dedup_by [of "\<lambda>d. d" "[]" "concat (map detected_in ms)"]
    by (simp_all add: types_def)
  have "set (detected_in m) \<subseteq> set labels" for m
    using redact_pii_facts(4) by (auto simp: detected_in_def split: content.splits dest: subseq_in)
  then have "set types \<subseteq> set labels" using d(2) by blast
  moreover have "types = [] \<longleftrightarrow> (\<forall>m \<in> set ms. \<forall>t. content m = Text t \<longrightarrow> clean t)"
  proof -
    have "set types = {} \<longleftrightarrow> (\<forall>m \<in> set ms. detected_in m = [])" unfolding d(2) by auto
    then have "types = [] \<longleftrightarrow> (\<forall>m \<in> set ms. detected_in m = [])" by simp
    also have "\<dots> \<longleftrightarrow> (\<forall>m \<in> set ms. \<forall>t. content m = Text t \<longrightarrow> clean t)"
      by (intro ball_cong refl) (auto simp: detected_in_def redact_pii_facts(5) split: content.split)
    finally show ?thesis .
  qed
  moreover have "\<forall>i < length ms. (case content (ms ! i) of
        Text t \<Rightarrow> \<exists>t'. map redact_message ms ! i = (ms ! i)\<lparr>content := Text t'\<rparr> \<and> clean t' \<and> (clean t \<longrightarrow> t' = t)
      | Parts ps \<Rightarrow> map redact_message ms ! i = ms ! i)"
  proof (intro allI impI)
    fix i assume "i < length ms"
    with msg [of "ms ! i"] show "case content (ms ! i) of
        Text t \<Rightarrow> \<exists>t'. map redact_message ms ! i = (ms ! i)\<lparr>content := Text t'\<rparr> \<and> clean t' \<and> (clean t \<longrightarrow> t' = t)
      | Parts ps \<Rightarrow> map redact_message ms ! i = ms ! i"
      by (simp split: content.splits)
  qed
  ultimately show ?thesis
    unfolding out off Let_def prod.case labels_def list.set length_map using d(1) by blast
qed

theorem redact_pii_complete_witness:
  "clean (gr_text (redact_pii ''id 123-45-6789''))"
  using redact_pii_complete [of "''id 123-45-6789''"] by simp

theorem guardrails_clean_conversation_witness:
  "length (fst (apply_to_messages [plain_message User ''hello''] True)) = 1
    \<and> apply_to_messages [plain_message User ''hello''] False = ([plain_message User ''hello''], [])"
  using guardrails_clean_conversation [of "[plain_message User ''hello'']"]
  by (auto simp: Let_def case_prod_unfold)

end
