(* ===== verification/Json_Inj.thy ===== *)
theory Json_Inj
  imports Json_Dump
begin

text \<open>
  \<open>json.dumps\<close> loses nothing: two JSON values with the same text are equal. The cache key
  rests on this. The only assumption is on \<open>float.__repr__\<close>: it tells the floats in use apart
  and writes each as a number with a point or an exponent.
\<close>

section \<open>Strings\<close>

definition plain_char :: "char \<Rightarrow> bool" where
  "plain_char c \<longleftrightarrow> c \<noteq> quote \<and> c \<noteq> char_of (92 :: nat)"

text \<open>Reading back one escaped character, on the text after it.\<close>

definition bs :: char where
  "bs = char_of (92 :: nat)"

lemma of_char_bs [simp]: "of_char bs = (92 :: nat)" "of_char quote = (34 :: nat)"
  by (simp_all add: bs_def quote_def)

lemma hex_digit_inj: "d < 16 \<Longrightarrow> d' < 16 \<Longrightarrow> hex_digit d = hex_digit d' \<Longrightarrow> d = d'"
proof -
  assume "d < 16" "d' < 16" "hex_digit d = hex_digit d'"
  then have "(of_char (hex_digit d) :: nat) = of_char (hex_digit d')" by simp
  with \<open>d < 16\<close> \<open>d' < 16\<close> show ?thesis by (auto simp: hex_digit_def split: if_splits)
qed

definition short_escapes :: "(nat \<times> char) list" where
  "short_escapes = [(34, quote), (92, bs), (10, CHR ''n''), (13, CHR ''r''), (9, CHR ''t''),
     (8, CHR ''b''), (12, CHR ''f'')]"

lemma esc_char_cases:
  obtains (short) x where "map_of short_escapes (of_char c) = Some x" "esc_char c = [bs, x]"
  | (self) "map_of short_escapes (of_char c) = None" "esc_char c = [c]" "c \<noteq> bs" "c \<noteq> quote"
  | (hex) "map_of short_escapes (of_char c) = None"
      "esc_char c = bs # CHR ''u'' # CHR ''0'' # CHR ''0'' # [hex_digit (of_char c div 16), hex_digit (of_char c mod 16)]"
proof -
  have ne: "c \<noteq> bs" "c \<noteq> quote" if "(of_char c :: nat) \<noteq> 92" "(of_char c :: nat) \<noteq> 34"
    using that by auto
  show thesis
  proof (cases "map_of short_escapes (of_char c :: nat)")
    case (Some x)
    then have "esc_char c = [bs, x]"
      by (auto simp: short_escapes_def esc_char_def Let_def bs_def quote_def split: if_splits)
    with Some show thesis by (rule short)
  next
    case None
    then have n: "(of_char c :: nat) \<notin> {34, 92, 10, 13, 9, 8, 12}"
      by (auto simp: short_escapes_def split: if_splits)
    show thesis
    proof (cases "32 \<le> (of_char c :: nat) \<and> (of_char c :: nat) \<le> 126")
      case True
      with n have "esc_char c = [c]" by (simp add: esc_char_def Let_def)
      with None ne n show thesis by (intro self) auto
    next
      case False
      with n have "esc_char c = bs # CHR ''u'' # CHR ''0'' # CHR ''0''
          # [hex_digit (of_char c div 16), hex_digit (of_char c mod 16)]"
        by (simp add: esc_char_def Let_def bs_def)
      with None show thesis by (rule hex)
    qed
  qed
qed

lemma short_escapes_inj:
  "map_of short_escapes n = Some x \<Longrightarrow> map_of short_escapes n' = Some x \<Longrightarrow> n = n'"
  by (auto simp: short_escapes_def bs_def quote_def char_of_eq_iff split: if_splits)

lemma short_escapes_not_u: "map_of short_escapes n = Some x \<Longrightarrow> x \<noteq> CHR ''u''"
  by (auto simp: short_escapes_def bs_def quote_def char_of_eq_iff split: if_splits)

lemma esc_char_inj:
  assumes "esc_char c @ r = esc_char c' @ r'"
  shows "c = c' \<and> r = r'"
proof -
  have hexd: "(of_char x :: nat) div 16 < 16" for x :: char
    by (rule less_mult_imp_div_less) simp
  show ?thesis
  proof (cases c rule: esc_char_cases)
    case (short x)
    then show ?thesis
      using assms by (cases c' rule: esc_char_cases)
        (auto dest: short_escapes_inj short_escapes_not_u)
  next
    case self
    then show ?thesis using assms by (cases c' rule: esc_char_cases) auto
  next
    case hex
    show ?thesis
    proof (cases c' rule: esc_char_cases)
      case hex': hex
      with hex assms have "hex_digit (of_char c div 16) = hex_digit (of_char c' div 16)"
          "hex_digit (of_char c mod 16) = hex_digit (of_char c' mod 16)" "r = r'"
        by auto
      then have "(of_char c :: nat) div 16 = of_char c' div 16" "(of_char c :: nat) mod 16 = of_char c' mod 16"
        using hex_digit_inj [OF hexd [of c] hexd [of c']]
          hex_digit_inj [of "of_char c mod 16" "of_char c' mod 16"] by auto
      then have "(of_char c :: nat) = of_char c'" by (metis div_mult_mod_eq)
      with \<open>r = r'\<close> show ?thesis by simp
    qed (use hex assms in \<open>auto dest: short_escapes_not_u\<close>)
  qed
qed

lemma esc_char_not_quote: "esc_char c @ r \<noteq> quote # r'"
  by (cases c rule: esc_char_cases) (auto simp: bs_def quote_def char_of_eq_iff)

lemma dump_string_inj:
  assumes "dump_string s @ r = dump_string s' @ r'"
  shows "s = s' \<and> r = r'"
proof -
  have "concat (map esc_char s) @ quote # r = concat (map esc_char s') @ quote # r' \<Longrightarrow> s = s' \<and> r = r'"
    for s s'
  proof (induction s arbitrary: s')
    case Nil
    show ?case
    proof (cases s')
      case Nil
      with Nil.prems show ?thesis by simp
    next
      case (Cons c' s'')
      from Nil.prems [unfolded Cons]
      have "esc_char c' @ (concat (map esc_char s'') @ quote # r') = quote # r"
        by (simp only: list.map concat.simps append_assoc append_Nil)
      with esc_char_not_quote show ?thesis by blast
    qed
  next
    case (Cons c s)
    show ?case
    proof (cases s')
      case Nil
      from Cons.prems [unfolded Nil]
      have "esc_char c @ (concat (map esc_char s) @ quote # r) = quote # r'"
        by (simp only: list.map concat.simps append_assoc append_Nil)
      with esc_char_not_quote show ?thesis by blast
    next
      case s': (Cons c' s'')
      from Cons.prems [unfolded s']
      have "esc_char c @ (concat (map esc_char s) @ quote # r)
          = esc_char c' @ (concat (map esc_char s'') @ quote # r')"
        by (simp only: list.map concat.simps append_assoc)
      then have "c = c' \<and> concat (map esc_char s) @ quote # r = concat (map esc_char s'') @ quote # r'"
        by (rule esc_char_inj)
      with Cons.IH [of s''] show ?thesis unfolding s' by blast
    qed
  qed
  moreover have "concat (map esc_char s) @ quote # r = concat (map esc_char s') @ quote # r'"
    using assms by (simp add: dump_string_def)
  ultimately show ?thesis by blast
qed

section \<open>Numbers\<close>

definition number_char :: "char \<Rightarrow> bool" where
  "number_char c \<longleftrightarrow> is_digit c \<or> c \<in> set ''+-.e''"

definition frepr_ok :: "real set \<Rightarrow> (real \<Rightarrow> string) \<Rightarrow> bool" where
  "frepr_ok F frepr \<longleftrightarrow> inj_on frepr F
     \<and> (\<forall>x \<in> F. (\<forall>c \<in> set (frepr x). number_char c) \<and> (\<exists>c \<in> set (frepr x). c \<in> set ''.e''))"

text \<open>What can follow a value inside a larger text.\<close>

definition delim :: "string \<Rightarrow> bool" where
  "delim r \<longleftrightarrow> r = [] \<or> hd r \<in> set '',]}''"

lemma delim_not_number: "delim r \<Longrightarrow> r = [] \<or> \<not> number_char (hd r)"
  by (auto simp: delim_def number_char_def is_digit_def in_range_def)

lemma number_split:
  assumes "u @ r = u' @ r'" "\<forall>c \<in> set u. number_char c" "\<forall>c \<in> set u'. number_char c" "delim r" "delim r'"
  shows "u = u' \<and> r = r'"
proof -
  have tw: "takeWhile number_char (v @ s) = v" if "\<forall>c \<in> set v. number_char c" "delim s" for v s
    using that delim_not_number [OF that(2)] by (cases s) (auto simp: takeWhile_append)
  from tw [OF assms(2,4)] tw [OF assms(3,5)] assms(1) show ?thesis by simp
qed

lemma show_nat_inj: "show_nat n = show_nat m \<Longrightarrow> n = m"
  by (metis int_of_str_show_nat of_nat_eq_iff option.inject)

lemma show_nat_not_minus: "show_nat n \<noteq> CHR ''-'' # s"
proof
  assume "show_nat n = CHR ''-'' # s"
  then have "CHR ''-'' \<in> set (show_nat n)" by (metis list.set_intros(1))
  with show_nat_digits [of n] have "is_digit (CHR ''-'')" by blast
  then show False by (simp add: is_digit_def in_range_def)
qed

lemma show_int_inj:
  assumes "show_int i = show_int j"
  shows "i = j"
proof -
  have "(i < 0) = (j < 0)"
  proof (rule ccontr)
    assume "(i < 0) \<noteq> (j < 0)"
    then consider "i < 0" "\<not> j < 0" | "j < 0" "\<not> i < 0" by blast
    then show False
      by cases (use assms show_nat_not_minus in \<open>metis show_int_def\<close>)+
  qed
  with assms have "nat \<bar>i\<bar> = nat \<bar>j\<bar>"
    by (auto simp: show_int_def split: if_splits dest!: show_nat_inj)
  with \<open>(i < 0) = (j < 0)\<close> show ?thesis by auto
qed

lemma show_int_chars: "c \<in> set (show_int i) \<Longrightarrow> is_digit c \<or> c = CHR ''-''"
  using show_nat_digits by (auto simp: show_int_def split: if_splits)

lemma show_int_number: "\<forall>c \<in> set (show_int i). number_char c"
  using show_int_chars by (auto simp: number_char_def)

lemma show_int_nonempty: "show_int i \<noteq> []"
  by (simp add: show_int_def show_nat_nonempty)

lemma frepr_not_int:
  assumes "frepr_ok F frepr" "x \<in> F"
  shows "frepr x \<noteq> show_int i"
proof
  assume "frepr x = show_int i"
  with assms obtain c where "c \<in> set (show_int i)" "c \<in> set ''.e''"
    by (auto simp: frepr_ok_def)
  with show_int_chars [of c i] show False by (auto simp: is_digit_def in_range_def)
qed

section \<open>Values\<close>

fun floats_in :: "real set \<Rightarrow> json \<Rightarrow> bool" where
  "floats_in F (JFloat x) = (x \<in> F)"
| "floats_in F (JList xs) = (\<forall>x \<in> set xs. floats_in F x)"
| "floats_in F (JObj d) = (\<forall>kv \<in> set d. floats_in F (snd kv))"
| "floats_in F j = True"

text \<open>The first character tells the kind of a value.\<close>

fun starts :: "json \<Rightarrow> char \<Rightarrow> bool" where
  "starts JNull c = (c = CHR ''n'')"
| "starts (JBool b) c = (c = (if b then CHR ''t'' else CHR ''f''))"
| "starts (JInt i) c = number_char c"
| "starts (JFloat x) c = number_char c"
| "starts (JStr s) c = (c = quote)"
| "starts (JList xs) c = (c = CHR ''['')"
| "starts (JObj d) c = (c = CHR ''{'')"

lemma dumps_starts:
  assumes "frepr_ok F frepr" "floats_in F j"
  shows "dumps isep ksep frepr j \<noteq> [] \<and> starts j (hd (dumps isep ksep frepr j))"
proof (cases j)
  case (JInt i)
  then show ?thesis
    using show_int_nonempty [of i] show_int_number [of i] hd_in_set [of "show_int i"] by auto
next
  case (JFloat x)
  with assms have "frepr x \<noteq> []" "\<forall>c \<in> set (frepr x). number_char c"
    by (auto simp: frepr_ok_def)
  with JFloat hd_in_set [of "frepr x"] show ?thesis by auto
qed (auto simp: dump_string_def)

lemma quote_neq [simp]: "quote \<noteq> CHR ''['' " "quote \<noteq> CHR ''{''" "quote \<noteq> CHR ''n''" "quote \<noteq> CHR ''t''"
    "quote \<noteq> CHR ''f''" "quote \<noteq> CHR '']''" "quote \<noteq> CHR ''}''"
  by (simp_all add: quote_def char_of_eq_iff)

lemmas neq_quote [simp] = quote_neq [symmetric]

lemma quote_not_number [simp]: "\<not> number_char quote"
  by (simp add: quote_def char_of_eq_iff number_char_def is_digit_def in_range_def)

lemma number_char_neq [simp]: "\<not> number_char (CHR ''['')" "\<not> number_char (CHR ''{'')"
    "\<not> number_char (CHR ''n'')" "\<not> number_char (CHR ''t'')" "\<not> number_char (CHR ''f'')"
    "\<not> number_char (CHR '']'')" "\<not> number_char (CHR ''}'')"
  by (simp_all add: number_char_def is_digit_def in_range_def)

fun kind :: "json \<Rightarrow> nat" where
  "kind JNull = 0" | "kind (JBool b) = (if b then 1 else 2)" | "kind (JInt i) = 3"
| "kind (JFloat x) = 3" | "kind (JStr s) = 4" | "kind (JList xs) = 5" | "kind (JObj d) = 6"

lemma starts_kind: "starts j c \<Longrightarrow> starts j' c \<Longrightarrow> kind j = kind j'"
  by (cases j; cases j') (auto split: if_splits)

lemma starts_not_close: "starts j c \<Longrightarrow> c \<notin> {CHR '']'', CHR ''}''}"
  by (cases j) (auto split: if_splits)

text \<open>Elements between separators, up to a closing character.\<close>

lemma join_inj:
  assumes "\<And>x y u u'. x \<in> set xs \<Longrightarrow> y \<in> set ys \<Longrightarrow> delim u \<Longrightarrow> delim u' \<Longrightarrow> f x @ u = f y @ u' \<Longrightarrow>
      x = y \<and> u = u'"
    and "\<And>x. x \<in> set xs \<union> set ys \<Longrightarrow> f x \<noteq> [] \<and> hd (f x) \<noteq> cl"
    and "cl \<in> {CHR '']'', CHR ''}''}"
    and "join (CHR '','' # i) (map f xs) @ cl # r = join (CHR '','' # i) (map f ys) @ cl # r'"
  shows "xs = ys \<and> r = r'"
  using assms(1,2,4)
proof (induction xs arbitrary: ys)
  case Nil
  show ?case
  proof (cases ys)
    case (Cons y ys')
    have "hd (join (CHR '','' # i) (map f ys) @ cl # r') = hd (f y)" "f y \<noteq> []"
      using Nil.prems(2) [of y] by (cases ys'; simp add: Cons)+
    moreover have "hd (join (CHR '','' # i) (map f ys) @ cl # r') = cl"
      using arg_cong [OF Nil.prems(3), of hd] by simp
    ultimately show ?thesis using Nil.prems(2) [of y] by (simp add: Cons)
  qed (use Nil.prems(3) in simp)
next
  case (Cons x xs)
  show ?case
  proof (cases ys)
    case Nil
    have "hd (join (CHR '','' # i) (map f (x # xs)) @ cl # r) = hd (f x)" "f x \<noteq> []"
      using Cons.prems(2) [of x] by (cases xs; simp)+
    moreover have "hd (join (CHR '','' # i) (map f (x # xs)) @ cl # r) = cl"
      using arg_cong [OF Cons.prems(3), of hd] by (simp add: Nil)
    ultimately show ?thesis using Cons.prems(2) [of x] by simp
  next
    case ys: (Cons y ys')
    define tail where "tail zs s = (if zs = [] then cl # s
        else CHR '','' # i @ join (CHR '','' # i) (map f zs) @ cl # s)" for zs s
    have split: "join (CHR '','' # i) (map f (z # zs)) @ cl # s = f z @ tail zs s" for z zs s
      by (cases zs) (simp_all add: tail_def)
    have d: "delim (tail zs s)" for zs s using assms(3) by (auto simp: tail_def delim_def)
    have "f x @ tail xs r = f y @ tail ys' r'"
      using Cons.prems(3) by (simp only: ys split)
    with Cons.prems(1) [of x y, OF _ _ d d] have xy: "x = y" "tail xs r = tail ys' r'"
      by (auto simp: ys)
    have "cl \<noteq> CHR '',''" using assms(3) by auto
    with xy(2) have "join (CHR '','' # i) (map f xs) @ cl # r = join (CHR '','' # i) (map f ys') @ cl # r'"
      by (auto simp: tail_def split: if_splits)
    then have "xs = ys' \<and> r = r'"
    proof (rule Cons.IH [rotated 2])
      show "f z \<noteq> [] \<and> hd (f z) \<noteq> cl" if "z \<in> set xs \<union> set ys'" for z
        using Cons.prems(2) [of z] that by (auto simp: ys)
      show "x = y \<and> u = u'" if "x \<in> set xs" "y \<in> set ys'" "delim u" "delim u'" "f x @ u = f y @ u'"
        for x y u u'
        using Cons.prems(1) [OF _ _ that(3-5)] that(1,2) by (simp add: ys)
    qed
    with xy(1) show ?thesis by (simp add: ys)
  qed
qed

text \<open>The cases of the injectivity of the encoder: numbers, lists and objects.\<close>

lemma dumps_number_inj:
  assumes F: "frepr_ok F frepr" and fl: "floats_in F j" "floats_in F j'" and d: "delim r" "delim r'"
    and num: "j \<in> range JInt \<union> range JFloat" "j' \<in> range JInt \<union> range JFloat"
    and eq: "dumps isep ksep frepr j @ r = dumps isep ksep frepr j' @ r'"
  shows "j = j' \<and> r = r'"
proof -
  have chars: "\<forall>c \<in> set (dumps isep ksep frepr k). number_char c"
    if "k \<in> range JInt \<union> range JFloat" "floats_in F k" for k
    using that F show_int_number by (auto simp: frepr_ok_def)
  from number_split [OF _ chars [OF num(1) fl(1)] chars [OF num(2) fl(2)] d] eq
  have tok: "dumps isep ksep frepr j = dumps isep ksep frepr j'" "r = r'" by auto
  from num have "j = j'"
  proof (elim UnE rangeE)
    fix n m assume "j = JInt n" "j' = JInt m"
    then show ?thesis using tok(1) by (auto dest: show_int_inj)
  next
    fix n x assume "j = JInt n" "j' = JFloat x"
    then show ?thesis using tok(1) fl(2) frepr_not_int [OF F, of x n] by auto
  next
    fix n x assume "j = JFloat x" "j' = JInt n"
    then show ?thesis using tok(1) fl(1) frepr_not_int [OF F, of x n] by auto
  next
    fix x y assume "j = JFloat x" "j' = JFloat y"
    then show ?thesis using tok(1) fl F by (auto simp: frepr_ok_def dest: inj_onD)
  qed
  with tok(2) show ?thesis by blast
qed

lemma dumps_list_inj:
  fixes i ksep frepr
  defines "dmp \<equiv> dumps (CHR '','' # i) ksep frepr"
  assumes F: "frepr_ok F frepr" and fl: "\<And>x. x \<in> set xs \<union> set ys \<Longrightarrow> floats_in F x"
    and elems: "\<And>x y u u'. x \<in> set xs \<Longrightarrow> y \<in> set ys \<Longrightarrow> delim u \<Longrightarrow> delim u' \<Longrightarrow> dmp x @ u = dmp y @ u' \<Longrightarrow>
      x = y \<and> u = u'"
    and eq: "dmp (JList xs) @ r = dmp (JList ys) @ r'"
  shows "xs = ys \<and> r = r'"
proof (rule join_inj [where cl = "CHR '']''" and f = dmp])
  fix x assume "x \<in> set xs \<union> set ys"
  from dumps_starts [OF F fl [OF this], of "CHR '','' # i" ksep]
  show "dmp x \<noteq> [] \<and> hd (dmp x) \<noteq> CHR '']''" unfolding dmp_def using starts_not_close by blast
qed (use elems eq in \<open>simp_all add: dmp_def\<close>)

lemma dumps_object_inj:
  fixes i ksep frepr
  defines "dmp \<equiv> dumps (CHR '','' # i) ksep frepr"
  assumes vals: "\<And>x y u u'. x \<in> set d \<Longrightarrow> y \<in> set d' \<Longrightarrow> delim u \<Longrightarrow> delim u' \<Longrightarrow>
      dmp (snd x) @ u = dmp (snd y) @ u' \<Longrightarrow> snd x = snd y \<and> u = u'"
    and eq: "dmp (JObj d) @ r = dmp (JObj d') @ r'"
  shows "d = d' \<and> r = r'"
proof (rule join_inj [where cl = "CHR ''}''" and f = "\<lambda>(k, v). dump_string k @ ksep @ dmp v"])
  fix x y u u' assume in_d: "x \<in> set d" "y \<in> set d'" and u: "delim u" "delim u'"
    and e: "(case x of (k, v) \<Rightarrow> dump_string k @ ksep @ dmp v) @ u
      = (case y of (k, v) \<Rightarrow> dump_string k @ ksep @ dmp v) @ u'"
  obtain k v k' v' where xy: "x = (k, v)" "y = (k', v')" by fastforce
  from e have "dump_string k @ (ksep @ dmp v @ u) = dump_string k' @ (ksep @ dmp v' @ u')" by (simp add: xy)
  then have "k = k'" "dmp v @ u = dmp v' @ u'" by (auto dest: dump_string_inj)
  with vals [OF in_d u] show "x = y \<and> u = u'" by (simp add: xy)
qed (use eq in \<open>auto simp: dmp_def dump_string_def split: prod.splits\<close>)

lemma dumps_inj_aux:
  assumes F: "frepr_ok F frepr"
  shows "floats_in F j \<Longrightarrow> floats_in F j' \<Longrightarrow> delim r \<Longrightarrow> delim r' \<Longrightarrow>
    dumps (CHR '','' # i) ksep frepr j @ r = dumps (CHR '','' # i) ksep frepr j' @ r' \<Longrightarrow>
    j = j' \<and> r = r'"
proof (induction j arbitrary: j' r r')
  let ?d = "dumps (CHR '','' # i) ksep frepr"
  have kinds: "kind j = kind j'" if "floats_in F j" "floats_in F j'" "?d j @ r = ?d j' @ r'" for j j' r r'
    using dumps_starts [OF F that(1), of "CHR '','' # i" ksep]
      dumps_starts [OF F that(2), of "CHR '','' # i" ksep] that(3) starts_kind
    by (metis hd_append2)
  {
    case JNull
    then show ?case using kinds [OF JNull.prems(1,2,5)] by (cases j') (auto split: if_splits)
  next
    case (JBool b)
    then show ?case using kinds [OF JBool.prems(1,2,5)] by (cases j') (auto split: if_splits)
  next
    case (JInt n)
    have "j' \<in> range JInt \<union> range JFloat"
      using kinds [OF JInt.prems(1,2,5)] by (cases j') (auto split: if_splits)
    then show ?case by (intro dumps_number_inj [OF F JInt.prems(1-4) _ _ JInt.prems(5)]) simp
  next
    case (JFloat x)
    have "j' \<in> range JInt \<union> range JFloat"
      using kinds [OF JFloat.prems(1,2,5)] by (cases j') (auto split: if_splits)
    then show ?case by (intro dumps_number_inj [OF F JFloat.prems(1-4) _ _ JFloat.prems(5)]) simp
  next
    case (JStr s)
    from kinds [OF JStr.prems(1,2,5)] obtain s' where s': "j' = JStr s'"
      by (cases j') (auto split: if_splits)
    with dump_string_inj [of s r s' r'] JStr.prems(5) show ?case by simp
  next
    case (JList xs)
    from kinds [OF JList.prems(1,2,5)] obtain ys where ys: "j' = JList ys"
      by (cases j') (auto split: if_splits)
    have fl: "floats_in F x" if "x \<in> set xs \<union> set ys" for x
      using JList.prems(1,2) that by (auto simp: ys)
    have "xs = ys \<and> r = r'"
      using dumps_list_inj [OF F fl _ JList.prems(5) [unfolded ys]] JList.IH fl by blast
    then show ?case by (simp add: ys)
  next
    case (JObj d)
    from kinds [OF JObj.prems(1,2,5)] obtain d' where d': "j' = JObj d'"
      by (cases j') (auto split: if_splits)
    have fl: "floats_in F (snd kv)" if "kv \<in> set d \<union> set d'" for kv
      using JObj.prems(1,2) that by (auto simp: d')
    have "d = d' \<and> r = r'"
    proof (rule dumps_object_inj [OF _ JObj.prems(5) [unfolded d']])
      show "snd x = snd y \<and> u = u'" if "x \<in> set d" "y \<in> set d'" "delim u" "delim u'" "?d (snd x) @ u = ?d (snd y) @ u'"
        for x y u u'
        using JObj.IH [of x "snd x" "snd y" u u'] that fl [of x] fl [of y] by (cases x) auto
    qed
    then show ?case by (simp add: d')
  }
qed

text \<open>The two forms in use: the default separators and the compact ones.\<close>

lemma json_dumps_inj:
  assumes "frepr_ok F frepr" "floats_in F j" "floats_in F j'" "json_dumps frepr j = json_dumps frepr j'"
  shows "j = j'"
  using dumps_inj_aux [OF assms(1-3), of "[]" "[]" "'' ''" "'': ''"] assms(4) by (simp add: delim_def)

lemma json_dumps_compact_inj:
  assumes "frepr_ok F frepr" "floats_in F j" "floats_in F j'"
    and "json_dumps_compact frepr j = json_dumps_compact frepr j'"
  shows "j = j'"
  using dumps_inj_aux [OF assms(1-3), of "[]" "[]" "[]" "'':''"] assms(4) by (simp add: delim_def)

end
