(* ===== verification/Cache_Key.thy ===== *)
theory Cache_Key
  imports Json_Inj Provider_API
begin

text \<open>
  \<open>cache_key\<close> and \<open>prompt_text\<close> of \<open>middleware/cache.py\<close>: what of a request the response cache
  looks at. SHA-256 (over the hexadecimal text) is the argument \<open>sha\<close>.
\<close>

definition json_opt :: "('a \<Rightarrow> json) \<Rightarrow> 'a option \<Rightarrow> json" where
  "json_opt f v = (case v of None \<Rightarrow> JNull | Some x \<Rightarrow> f x)"

definition key_message :: "(real \<Rightarrow> string) \<Rightarrow> chat_message \<Rightarrow> json" where
  "key_message frepr m =
     JObj [(''role'', JStr (role_name (role m))), (''content'', JStr (content_text frepr (content m)))]"

definition key_payload :: "(real \<Rightarrow> string) \<Rightarrow> chat_request \<Rightarrow> json" where
  "key_payload frepr r =
     JObj [(''model'', JStr (model r)),
           (''messages'', JList (map (key_message frepr) (messages r))),
           (''temperature'', json_opt JFloat (temperature r)),
           (''max_tokens'', json_opt JInt (max_tokens r)),
           (''top_p'', json_opt JFloat (top_p r))]"

definition key_blob :: "(real \<Rightarrow> string) \<Rightarrow> chat_request \<Rightarrow> string" where
  "key_blob frepr r = json_dumps frepr (sort_keys (key_payload frepr r))"

definition cache_key :: "(string \<Rightarrow> string) \<Rightarrow> (real \<Rightarrow> string) \<Rightarrow> chat_request \<Rightarrow> string" where
  "cache_key sha frepr r = sha (key_blob frepr r)"

fun prompt_part :: "(real \<Rightarrow> string) \<Rightarrow> content \<Rightarrow> string" where
  "prompt_part frepr (Text t) = t"
| "prompt_part frepr (Parts ps) = json_dumps frepr (sort_keys (JList ps))"

definition prompt_text :: "(real \<Rightarrow> string) \<Rightarrow> chat_request \<Rightarrow> string" where
  "prompt_text frepr r = join [CHR 0x0A] (map (\<lambda>m. prompt_part frepr (content m)) (messages r))"

section \<open>The key tells requests apart\<close>

lemma key_order:
  "sort_key fst [(''model'', a), (''messages'', b), (''temperature'', c), (''max_tokens'', d), (''top_p'', e)]
     = [(''max_tokens'', d), (''messages'', b), (''model'', a), (''temperature'', c), (''top_p'', e :: json)]"
  "sort_key fst [(''role'', a), (''content'', b)] = [(''content'', b), (''role'', a)]"
  by (simp_all add: sort_key_simps insort_key.simps less_eq_char_def)

lemma sort_keys_opt [simp]:
  "sort_keys (json_opt JInt v) = json_opt JInt v" "sort_keys (json_opt JFloat x) = json_opt JFloat x"
  by (simp_all add: json_opt_def split: option.split)

definition sorted_message :: "(real \<Rightarrow> string) \<Rightarrow> chat_message \<Rightarrow> json" where
  "sorted_message frepr m =
     JObj [(''content'', JStr (content_text frepr (content m))), (''role'', JStr (role_name (role m)))]"

lemma sort_keys_message: "sort_keys (key_message frepr m) = sorted_message frepr m"
  by (simp add: key_message_def sorted_message_def key_order)

lemma sort_keys_payload:
  "sort_keys (key_payload frepr r) =
     JObj [(''max_tokens'', json_opt JInt (max_tokens r)),
           (''messages'', JList (map (sorted_message frepr) (messages r))),
           (''model'', JStr (model r)),
           (''temperature'', json_opt JFloat (temperature r)),
           (''top_p'', json_opt JFloat (top_p r))]"
  by (simp add: key_payload_def key_order comp_def sort_keys_message)

lemma json_opt_inj [simp]:
  "json_opt JInt v = json_opt JInt v' \<longleftrightarrow> v = v'" "json_opt JFloat x = json_opt JFloat x' \<longleftrightarrow> x = x'"
  by (auto simp: json_opt_def split: option.splits)

lemma role_name_inj: "role_name r = role_name r' \<longleftrightarrow> r = r'"
  by (cases r; cases r') simp_all

text \<open>What the payload keeps of a message.\<close>

definition key_part :: "(real \<Rightarrow> string) \<Rightarrow> chat_message \<Rightarrow> role \<times> string" where
  "key_part frepr m = (role m, content_text frepr (content m))"

lemma sorted_message_inj: "sorted_message frepr m = sorted_message frepr m' \<longleftrightarrow> key_part frepr m = key_part frepr m'"
  by (auto simp: sorted_message_def key_part_def role_name_inj)

lemma map_sorted_message_inj:
  "map (sorted_message frepr) ms = map (sorted_message frepr) ms' \<longleftrightarrow>
     map (key_part frepr) ms = map (key_part frepr) ms'"
  by (induction ms arbitrary: ms'; case_tac ms') (simp_all add: sorted_message_inj)

definition sampling_in :: "real set \<Rightarrow> chat_request \<Rightarrow> bool" where
  "sampling_in F r \<longleftrightarrow> set_option (temperature r) \<union> set_option (top_p r) \<subseteq> F"

lemma floats_in_payload:
  "sampling_in F r \<Longrightarrow> floats_in F (sort_keys (key_payload frepr r))"
  by (auto simp: sort_keys_payload sampling_in_def json_opt_def sorted_message_def split: option.splits)

lemma cache_keys_agree:
  assumes "frepr_ok F frepr" "sampling_in F r" "sampling_in F r'"
    and "inj_on sha {key_blob frepr r, key_blob frepr r'}"
  shows "cache_key sha frepr r = cache_key sha frepr r' \<longleftrightarrow>
    model r = model r' \<and> map (key_part frepr) (messages r) = map (key_part frepr) (messages r')
    \<and> temperature r = temperature r' \<and> max_tokens r = max_tokens r' \<and> top_p r = top_p r'"
proof -
  have "cache_key sha frepr r = cache_key sha frepr r' \<longleftrightarrow> key_blob frepr r = key_blob frepr r'"
    using assms(4) by (auto simp: cache_key_def dest: inj_onD)
  also have "\<dots> \<longleftrightarrow> sort_keys (key_payload frepr r) = sort_keys (key_payload frepr r')"
    using json_dumps_inj [OF assms(1) floats_in_payload [OF assms(2)] floats_in_payload [OF assms(3)]]
    by (auto simp: key_blob_def)
  also have "\<dots> \<longleftrightarrow> model r = model r' \<and> map (key_part frepr) (messages r) = map (key_part frepr) (messages r')
      \<and> temperature r = temperature r' \<and> max_tokens r = max_tokens r' \<and> top_p r = top_p r'"
    by (auto simp: sort_keys_payload map_sorted_message_inj)
  finally show ?thesis .
qed

section \<open>Property\<close>

text \<open>
  C37. The cache key is exact: provided SHA-256 does not collide on the two texts and
  \<open>float.__repr__\<close> is faithful on the sampling parameters in use, two requests have the same
  key if and only if they agree in the model, in the sequence of roles and message texts (a
  structured content counts as its JSON text), and in temperature, token limit and top-p. No
  difference in quoting, separators or message boundaries can be confused.
\<close>

theorem cache_key_exact:
  assumes "frepr_ok F frepr" "sampling_in F r" "sampling_in F r'"
    and "inj_on sha {key_blob frepr r, key_blob frepr r'}"
  shows "cache_key sha frepr r = cache_key sha frepr r' \<longleftrightarrow>
    model r = model r' \<and> map (key_part frepr) (messages r) = map (key_part frepr) (messages r')
    \<and> temperature r = temperature r' \<and> max_tokens r = max_tokens r' \<and> top_p r = top_p r'"
  using assms by (rule cache_keys_agree)

theorem cache_key_exact_witness:
  "cache_key (\<lambda>s. s) (\<lambda>x. ''0.5'') ((plain_request ''m'' [plain_message User ''a''])\<lparr>temperature := Some (1 / 2)\<rparr>)
    \<noteq> cache_key (\<lambda>s. s) (\<lambda>x. ''0.5'') ((plain_request ''m'' [plain_message User ''a'', plain_message User []])
        \<lparr>temperature := Some (1 / 2)\<rparr>)"
proof -
  have "frepr_ok {1 / 2} (\<lambda>x. ''0.5'')"
    by (simp add: frepr_ok_def number_char_def is_digit_def in_range_def)
  from cache_key_exact [OF this, where sha = "\<lambda>s. s"
      and r = "(plain_request ''m'' [plain_message User ''a''])\<lparr>temperature := Some (1 / 2)\<rparr>"
      and r' = "(plain_request ''m'' [plain_message User ''a'', plain_message User []])
        \<lparr>temperature := Some (1 / 2)\<rparr>"]
  show ?thesis by (simp add: sampling_in_def plain_request_def)
qed

text \<open>The stop sequences are not part of the key, although they determine the response.\<close>

lemma cache_key_ignores_stop: "cache_key sha frepr (r\<lparr>stop := s\<rparr>) = cache_key sha frepr r"
  by (simp add: cache_key_def key_blob_def key_payload_def)

end
