(* ===== verification/Cache.thy ===== *)
theory Cache
  imports Cache_Key Embeddings Config
begin

text \<open>
  The two response caches of \<open>middleware/cache.py\<close>: the LRU cache with time-to-live and the
  semantic cache. The type of the cached responses is a parameter. Readings of \<open>time.time()\<close> are
  arguments. An operation that raises half way returns the state it had reached.
\<close>

record 'v cache_entry =
  ce_value :: 'v
  ce_expires :: seconds
  ce_embedding :: "real list option"
  ce_namespace :: string
  ce_text :: string

definition plain_entry :: "'v \<Rightarrow> seconds \<Rightarrow> 'v cache_entry" where
  "plain_entry v t = \<lparr>ce_value = v, ce_expires = t, ce_embedding = None, ce_namespace = [], ce_text = []\<rparr>"

section \<open>InMemoryCache\<close>

record 'v lru_cache =
  lru_max :: int
  lru_data :: "(string, 'v cache_entry) dict"

definition new_lru :: "int \<Rightarrow> 'v lru_cache" where
  "new_lru m = \<lparr>lru_max = m, lru_data = []\<rparr>"

text \<open>\<open>OrderedDict.move_to_end\<close>, for a key that is present.\<close>

definition move_to_end :: "'k \<Rightarrow> ('k, 'v) dict \<Rightarrow> ('k, 'v) dict" where
  "move_to_end k d = (case map_of d k of None \<Rightarrow> d | Some v \<Rightarrow> AList.delete k d @ [(k, v)])"

definition lru_get :: "seconds \<Rightarrow> string \<Rightarrow> 'v lru_cache \<Rightarrow> 'v option \<times> 'v lru_cache" where
  "lru_get now k c = (case map_of (lru_data c) k of
       None \<Rightarrow> (None, c)
     | Some e \<Rightarrow>
         if ce_expires e < now then (None, c\<lparr>lru_data := AList.delete k (lru_data c)\<rparr>)
         else (Some (ce_value e), c\<lparr>lru_data := move_to_end k (lru_data c)\<rparr>))"

text \<open>\<open>while len(d) > max: d.popitem(last=False)\<close>; \<open>popitem\<close> on an empty dictionary raises.\<close>

fun evict :: "int \<Rightarrow> ('k, 'v) dict \<Rightarrow> (py_exc + unit) \<times> ('k, 'v) dict" where
  "evict m [] = (if m < 0 then (Inl KeyError, []) else (Inr (), []))"
| "evict m (kv # d) = (if m < int (length (kv # d)) then evict m d else (Inr (), kv # d))"

definition lru_set ::
  "seconds \<Rightarrow> string \<Rightarrow> 'v \<Rightarrow> int \<Rightarrow> 'v lru_cache \<Rightarrow> (py_exc + unit) \<times> 'v lru_cache"
where
  "lru_set now k v ttl c =
     (let d = move_to_end k (AList.update k (plain_entry v (now + of_int ttl)) (lru_data c));
          (res, d') = evict (lru_max c) d
      in (res, c\<lparr>lru_data := d'\<rparr>))"

section \<open>SemanticCache\<close>

record 'v semantic_cache =
  sc_threshold :: real
  sc_max :: int
  sc_partitions :: "(string, 'v cache_entry list) dict"
  sc_by_key :: "(string, 'v cache_entry) dict"

definition new_semantic :: "real \<Rightarrow> int \<Rightarrow> 'v semantic_cache" where
  "new_semantic th m = \<lparr>sc_threshold = th, sc_max = m, sc_partitions = [], sc_by_key = []\<rparr>"

definition evict_expired :: "seconds \<Rightarrow> 'v cache_entry list \<Rightarrow> 'v cache_entry list" where
  "evict_expired now es = filter (\<lambda>e. now \<le> ce_expires e) es"

definition sc_get :: "seconds \<Rightarrow> string \<Rightarrow> 'v semantic_cache \<Rightarrow> 'v option \<times> 'v semantic_cache" where
  "sc_get now k c = (case map_of (sc_by_key c) k of
       None \<Rightarrow> (None, c\<lparr>sc_by_key := AList.delete k (sc_by_key c)\<rparr>)
     | Some e \<Rightarrow>
         if ce_expires e < now then (None, c\<lparr>sc_by_key := AList.delete k (sc_by_key c)\<rparr>)
         else (Some (ce_value e), c))"

definition sc_set :: "seconds \<Rightarrow> string \<Rightarrow> 'v \<Rightarrow> int \<Rightarrow> 'v semantic_cache \<Rightarrow> 'v semantic_cache" where
  "sc_set now k v ttl c =
     c\<lparr>sc_by_key := AList.update k (plain_entry v (now + of_int ttl)) (sc_by_key c)\<rparr>"

text \<open>The search for the nearest neighbour: the best entry so far and its similarity.\<close>

fun best_loop ::
  "real list \<Rightarrow> 'v cache_entry list \<Rightarrow> 'v cache_entry option \<Rightarrow> real
     \<Rightarrow> py_exc + 'v cache_entry option \<times> real"
where
  "best_loop query [] best best_sim = Inr (best, best_sim)"
| "best_loop query (e # es) best best_sim = (case ce_embedding e of
       None \<Rightarrow> best_loop query es best best_sim
     | Some v \<Rightarrow> res_bind (cosine query v) (\<lambda>sim.
         if best_sim < sim then best_loop query es (Some e) sim
         else best_loop query es best best_sim))"

definition get_semantic ::
  "seconds \<Rightarrow> (string \<Rightarrow> real list) \<Rightarrow> string \<Rightarrow> string \<Rightarrow> 'v semantic_cache
     \<Rightarrow> (py_exc + ('v \<times> real) option) \<times> 'v semantic_cache"
where
  "get_semantic now emb ns txt c = (case map_of (sc_partitions c) ns of
       None \<Rightarrow> (Inr None, c)
     | Some [] \<Rightarrow> (Inr None, c)
     | Some es \<Rightarrow>
         (let es' = evict_expired now es;
              c' = c\<lparr>sc_partitions := AList.update ns es' (sc_partitions c)\<rparr>
          in if es' = [] then (Inr None, c')
             else (res_bind (best_loop (emb txt) es' None (- 1)) (\<lambda>(best, best_sim).
                case best of
                  None \<Rightarrow> Inr None
                | Some e \<Rightarrow> Inr (if best_sim < sc_threshold c then None
                                else Some (ce_value e, best_sim))), c')))"

text \<open>\<open>while len(partition) > max: partition.pop(0)\<close>\<close>

fun trim :: "int \<Rightarrow> 'a list \<Rightarrow> (py_exc + unit) \<times> 'a list" where
  "trim m [] = (if m < 0 then (Inl IndexError, []) else (Inr (), []))"
| "trim m (x # xs) = (if m < int (length (x # xs)) then trim m xs else (Inr (), x # xs))"

definition set_semantic ::
  "seconds \<Rightarrow> (string \<Rightarrow> real list) \<Rightarrow> string \<Rightarrow> string \<Rightarrow> 'v \<Rightarrow> int \<Rightarrow> 'v semantic_cache
     \<Rightarrow> (py_exc + unit) \<times> 'v semantic_cache"
where
  "set_semantic now emb ns txt v ttl c =
     (let e = \<lparr>ce_value = v, ce_expires = now + of_int ttl, ce_embedding = Some (emb txt),
               ce_namespace = ns, ce_text = txt\<rparr>;
          es = (case map_of (sc_partitions c) ns of None \<Rightarrow> [] | Some es \<Rightarrow> es);
          (res, es') = trim (sc_max c) (es @ [e])
      in (res, c\<lparr>sc_partitions := AList.update ns es' (sc_partitions c)\<rparr>))"

text \<open>\<open>get_cache\<close>: the process-wide cache, made at its first use from the settings.\<close>

datatype 'v backend = Exact "'v lru_cache" | Semantic "'v semantic_cache"

definition get_cache :: "settings \<Rightarrow> 'v backend option \<Rightarrow> 'v backend" where
  "get_cache s b = (case b of
       Some c \<Rightarrow> c
     | None \<Rightarrow>
         if semantic_cache_mode s = ''semantic''
         then Semantic (new_semantic (semantic_cache_threshold s) (semantic_cache_max_entries s))
         else Exact (new_lru (semantic_cache_max_entries s)))"

section \<open>The dictionary operations\<close>

lemma map_of_move_to_end [cache_simps]: "map_of (move_to_end k d) j = map_of d j"
  by (auto simp: move_to_end_def map_add_def dict_simps split: option.split)

lemma dict_ok_move_to_end [simp]: "dict_ok d \<Longrightarrow> dict_ok (move_to_end k d)"
  by (auto simp: move_to_end_def dict_ok_def distinct_delete delete_keys distinct_removeAll split: option.split)

lemma keys_move_to_end: "fst ` set (move_to_end k d) = fst ` set d"
proof -
  have "dom (map_of (move_to_end k d)) = dom (map_of d)" by (simp add: dom_def cache_simps)
  then show ?thesis by (simp add: dom_map_of_conv_image_fst)
qed

lemma length_dict: "dict_ok d \<Longrightarrow> length d = card (fst ` set d)"
  unfolding dict_ok_def by (metis distinct_card length_map list.set_map)

lemma length_move_to_end: "dict_ok d \<Longrightarrow> length (move_to_end k d) = length d"
  by (simp add: length_dict keys_move_to_end)

lemma evict_suffix: "suffix (snd (evict m d)) d"
proof (induction m d rule: evict.induct)
  case (2 m kv d)
  then show ?case by (auto intro: suffix_ConsI)
qed auto

lemma evict_length: "0 \<le> m \<Longrightarrow> int (length (snd (evict m d))) \<le> m \<and> fst (evict m d) = Inr ()"
  by (induction m d rule: evict.induct) auto

lemma evict_keep: "int (length d) \<le> m \<Longrightarrow> snd (evict m d) = d"
  by (cases d) auto

lemma evict_append: "int (length vs) \<le> m \<Longrightarrow> \<exists>us'. suffix us' us \<and> snd (evict m (us @ vs)) = us' @ vs"
proof (induction us)
  case Nil
  then show ?case by (simp add: evict_keep)
next
  case (Cons u us)
  then show ?case by (cases "m < int (length (u # us @ vs))") (auto intro: suffix_ConsI)
qed

lemma dict_ok_suffix: "suffix d' d \<Longrightarrow> dict_ok d \<Longrightarrow> dict_ok d'"
  by (auto simp: suffix_def dict_ok_def)

lemma map_of_suffix: "suffix d' d \<Longrightarrow> dict_ok d \<Longrightarrow> map_of d' k = None \<or> map_of d' k = map_of d k"
proof -
  assume "suffix d' d" "dict_ok d"
  then obtain us where d: "d = us @ d'" by (auto simp: suffix_def)
  show ?thesis
  proof (cases "map_of d' k")
    case (Some v)
    then have "(k, v) \<in> set d" using map_of_SomeD by (force simp: d)
    with dict_get_iff [OF \<open>dict_ok d\<close>, of k v] Some show ?thesis by simp
  qed simp
qed

section \<open>The cache interface\<close>

datatype 'v cache_op = Get seconds string | Put seconds string 'v int

text \<open>The newest write of a key in a history, newest operation first, with its expiry.\<close>

fun last_put :: "'v cache_op list \<Rightarrow> string \<Rightarrow> ('v \<times> seconds) option" where
  "last_put [] k = None"
| "last_put (Get t j # ops) k = last_put ops k"
| "last_put (Put t j v ttl # ops) k = (if k = j then Some (v, t + of_int ttl) else last_put ops k)"

text \<open>
  What the \<open>CacheBackend\<close> protocol promises: a lookup returns what the cache holds for the key
  unless it has expired, a lookup may forget but not change entries, and a write replaces the
  key's entry and may forget others.
\<close>

locale cache_backend =
  fixes get :: "seconds \<Rightarrow> string \<Rightarrow> 'c \<Rightarrow> 'v option \<times> 'c"
    and put :: "seconds \<Rightarrow> string \<Rightarrow> 'v \<Rightarrow> int \<Rightarrow> 'c \<Rightarrow> 'c"
    and holds :: "'c \<Rightarrow> string \<Rightarrow> ('v \<times> seconds) option"
    and inv :: "'c \<Rightarrow> bool"
  assumes get_inv: "inv c \<Longrightarrow> inv (snd (get now k c))"
    and put_inv: "inv c \<Longrightarrow> inv (put now k v ttl c)"
    and get_result: "inv c \<Longrightarrow> fst (get now k c) = (case holds c k of
        None \<Rightarrow> None | Some (v, t) \<Rightarrow> if t < now then None else Some v)"
    and get_holds: "inv c \<Longrightarrow> holds (snd (get now k c)) j = None \<or> holds (snd (get now k c)) j = holds c j"
    and put_holds: "inv c \<Longrightarrow> holds (put now k v ttl c) j = None
        \<or> holds (put now k v ttl c) j = (if j = k then Some (v, now + of_int ttl) else holds c j)"
begin

definition apply_op :: "'v cache_op \<Rightarrow> 'c \<Rightarrow> 'c" where
  "apply_op op c = (case op of Get t k \<Rightarrow> snd (get t k c) | Put t k v ttl \<Rightarrow> put t k v ttl c)"

lemma apply_op_simps [simp]:
  "apply_op (Get t k) c = snd (get t k c)" "apply_op (Put t k v ttl) c = put t k v ttl c"
  by (simp_all add: apply_op_def)

lemma apply_inv: "inv c \<Longrightarrow> inv (apply_op op c)"
  by (simp add: apply_op_def get_inv put_inv split: cache_op.split)

lemma run_inv: "inv c \<Longrightarrow> inv (fold apply_op ops c)"
  by (induction ops arbitrary: c) (simp_all add: apply_inv)

lemma run_holds:
  assumes "inv c0" "\<forall>k. holds c0 k = None"
  shows "holds (fold apply_op ops c0) k = None \<or> holds (fold apply_op ops c0) k = last_put (rev ops) k"
proof (induction ops rule: rev_induct)
  case (snoc op ops)
  have "inv (fold apply_op ops c0)" using assms(1) by (rule run_inv)
  note g = get_holds [OF this] and p = put_holds [OF this]
  show ?case
  proof (cases op)
    case (Get t j)
    with g [of t j k] snoc show ?thesis by auto
  next
    case (Put t j v ttl)
    with p [of t j v ttl k] snoc show ?thesis by auto
  qed
qed (simp add: assms)

lemma served_is_last_put:
  assumes "inv c0" "\<forall>k. holds c0 k = None" "fst (get now k (fold apply_op ops c0)) = Some v"
  shows "\<exists>t. last_put (rev ops) k = Some (v, t) \<and> now \<le> t"
proof -
  obtain t where t: "holds (fold apply_op ops c0) k = Some (v, t)" "now \<le> t"
    using assms(3) unfolding get_result [OF run_inv [OF assms(1)]]
    by (auto split: option.splits if_splits)
  with run_holds [OF assms(1,2), of ops k] have "last_put (rev ops) k = Some (v, t)" by simp
  with t(2) show ?thesis by blast
qed

end

definition entry_view :: "'v cache_entry option \<Rightarrow> ('v \<times> seconds) option" where
  "entry_view e = map_option (\<lambda>e. (ce_value e, ce_expires e)) e"

definition lru_holds :: "'v lru_cache \<Rightarrow> string \<Rightarrow> ('v \<times> seconds) option" where
  "lru_holds c k = entry_view (map_of (lru_data c) k)"

definition sc_holds :: "'v semantic_cache \<Rightarrow> string \<Rightarrow> ('v \<times> seconds) option" where
  "sc_holds c k = entry_view (map_of (sc_by_key c) k)"

lemma entry_view_simps [simp]: "entry_view None = None" "entry_view (Some e) = Some (ce_value e, ce_expires e)"
  by (simp_all add: entry_view_def)

text \<open>The invariant of the LRU cache: distinct keys, and a capacity that is not negative.\<close>

definition lru_inv :: "'v lru_cache \<Rightarrow> bool" where
  "lru_inv c \<longleftrightarrow> dict_ok (lru_data c) \<and> 0 \<le> lru_max c \<and> int (length (lru_data c)) \<le> lru_max c"

lemma lru_set_data:
  "lru_data (snd (lru_set now k v ttl c)) =
     snd (evict (lru_max c) (move_to_end k (AList.update k (plain_entry v (now + of_int ttl)) (lru_data c))))"
  "lru_max (snd (lru_set now k v ttl c)) = lru_max c"
  by (simp_all add: lru_set_def case_prod_unfold Let_def)

lemma lru_set_map_of:
  assumes "dict_ok (lru_data c)"
  shows "map_of (lru_data (snd (lru_set now k v ttl c))) j = None
    \<or> map_of (lru_data (snd (lru_set now k v ttl c))) j =
        (if j = k then Some (plain_entry v (now + of_int ttl)) else map_of (lru_data c) j)"
  using map_of_suffix [OF evict_suffix, of "move_to_end k (AList.update k (plain_entry v (now + of_int ttl)) (lru_data c))"
      "lru_max c" j] assms
  by (simp add: lru_set_data cache_simps dict_simps)

lemma lru_inv_set: "lru_inv c \<Longrightarrow> lru_inv (snd (lru_set now k v ttl c))"
  using evict_length [of "lru_max c"]
  by (auto simp: lru_inv_def lru_set_data intro: dict_ok_suffix [OF evict_suffix])

lemma lru_inv_get: "lru_inv c \<Longrightarrow> lru_inv (snd (lru_get now k c))"
  by (auto simp: lru_inv_def lru_get_def length_move_to_end length_delete_le
      intro: order_trans [OF of_nat_mono [OF length_delete_le]] split: option.split)

interpretation lru: cache_backend lru_get "\<lambda>now k v ttl c. snd (lru_set now k v ttl c)" lru_holds lru_inv
proof unfold_locales
  fix c :: "'a lru_cache" and now :: seconds and k j :: string and v :: 'a and ttl :: int
  assume inv: "lru_inv c"
  show "lru_inv (snd (lru_get now k c))" by (rule lru_inv_get [OF inv])
  show "lru_inv (snd (lru_set now k v ttl c))" by (rule lru_inv_set [OF inv])
  show "fst (lru_get now k c) = (case lru_holds c k of
      None \<Rightarrow> None | Some (v, t) \<Rightarrow> if t < now then None else Some v)"
    by (simp add: lru_get_def lru_holds_def split: option.split)
  show "lru_holds (snd (lru_get now k c)) j = None \<or> lru_holds (snd (lru_get now k c)) j = lru_holds c j"
    by (simp add: lru_get_def lru_holds_def cache_simps dict_simps split: option.split)
  have "dict_ok (lru_data c)" using inv by (simp add: lru_inv_def)
  from lru_set_map_of [OF this, of now k v ttl j]
  show "lru_holds (snd (lru_set now k v ttl c)) j = None \<or> lru_holds (snd (lru_set now k v ttl c)) j =
      (if j = k then Some (v, now + of_int ttl) else lru_holds c j)"
    by (auto simp: lru_holds_def plain_entry_def split: if_splits)
qed

interpretation sc: cache_backend sc_get sc_set sc_holds "\<lambda>_. True"
  by unfold_locales
     (auto simp: sc_get_def sc_set_def sc_holds_def dict_simps plain_entry_def split: option.split)

section \<open>Recency in the LRU cache\<close>

fun op_key :: "'v cache_op \<Rightarrow> string" where
  "op_key (Get t k) = k"
| "op_key (Put t k v ttl) = k"

fun lru_step :: "'v cache_op \<Rightarrow> 'v lru_cache \<Rightarrow> 'v lru_cache" where
  "lru_step (Get t k) c = snd (lru_get t k c)"
| "lru_step (Put t k v ttl) c = snd (lru_set t k v ttl c)"

lemma lru_step_max: "lru_max (lru_step op c) = lru_max c"
  by (cases op) (auto simp: lru_set_data lru_get_def split: option.split)

lemma lru_step_eq: "lru_step = lru.apply_op"
proof (intro ext)
  fix op :: "'v cache_op" and c
  show "lru_step op c = lru.apply_op op c" by (cases op) simp_all
qed

lemma delete_filter: "AList.delete k d = filter (\<lambda>kv. k \<noteq> fst kv) d"
  by (simp add: AList.delete_eq case_prod_unfold)

lemma delete_update: "AList.delete k (AList.update k x d) = AList.delete k d"
  by (induction d) (auto simp: delete_filter)

lemma lru_set_moved:
  "lru_data (snd (lru_set now k v ttl c)) =
     snd (evict (lru_max c) (AList.delete k (lru_data c) @ [(k, plain_entry v (now + of_int ttl))]))"
  by (simp add: lru_set_data move_to_end_def dict_simps delete_update)

lemma delete_append: "AList.delete k (us @ vs) = AList.delete k us @ AList.delete k vs"
  by (simp add: delete_filter)

lemma keys_delete: "fst ` set (AList.delete k d) = fst ` set d - {k}"
  by (auto simp: delete_filter image_iff)

text \<open>The entry of a key, with the keys of the younger entries among \<open>T\<close>.\<close>

definition retains :: "string set \<Rightarrow> string \<Rightarrow> 'v cache_entry \<Rightarrow> 'v lru_cache \<Rightarrow> bool" where
  "retains T k e c \<longleftrightarrow> lru_inv c \<and> (\<exists>us vs. lru_data c = us @ (k, e) # vs \<and> fst ` set vs \<subseteq> T)"

lemma retains_step:
  assumes "retains T k e c" "finite T" "int (card T) < lru_max c" "op_key op \<in> T" "k \<notin> T"
  shows "retains T k e (lru_step op c) \<and> lru_max (lru_step op c) = lru_max c"
proof -
  define j where "j = op_key op"
  have jk: "j \<noteq> k" using assms(4,5) by (auto simp: j_def)
  obtain us vs where d: "lru_data c = us @ (k, e) # vs" "fst ` set vs \<subseteq> T" and inv: "lru_inv c"
    using assms(1) by (auto simp: retains_def)
  have del: "AList.delete j (lru_data c) = AList.delete j us @ (k, e) # AList.delete j vs"
    using jk by (simp add: d(1) delete_append delete_filter)
  have sub: "fst ` set (AList.delete j vs) \<subseteq> T" using d(2) by (auto simp: keys_delete)
  show ?thesis
  proof (cases op)
    case (Get t i)
    then have i: "i = j" by (simp add: j_def)
    have inv': "lru_inv (snd (lru_get t j c))" by (rule lru_inv_get [OF inv])
    have "\<exists>us vs. lru_data (snd (lru_get t j c)) = us @ (k, e) # vs \<and> fst ` set vs \<subseteq> T"
    proof (cases "map_of (lru_data c) j")
      case None
      then have "snd (lru_get t j c) = c" by (simp add: lru_get_def)
      with d show ?thesis by auto
    next
      case (Some x)
      have "lru_data (snd (lru_get t j c)) = AList.delete j us @ (k, e) # AList.delete j vs
          \<or> lru_data (snd (lru_get t j c)) = AList.delete j us @ (k, e) # (AList.delete j vs @ [(j, x)])"
        using Some by (auto simp: lru_get_def move_to_end_def del)
      with sub assms(4) show ?thesis by (fastforce simp: j_def)
    qed
    with inv' show ?thesis by (simp add: Get i retains_def lru_get_def split: option.split)
  next
    case (Put t i v ttl)
    then have i: "i = j" by (simp add: j_def)
    define new where "new = (j, plain_entry v (t + of_int ttl))"
    define vs' where "vs' = AList.delete j vs @ [new]"
    have ok: "dict_ok vs'"
    proof -
      have "dict_ok vs" using inv by (simp add: lru_inv_def dict_ok_def d(1))
      then have "distinct (map fst (AList.delete j vs))" by (simp add: dict_ok_def distinct_delete)
      moreover have "j \<notin> fst ` set (AList.delete j vs)" by (simp add: keys_delete)
      ultimately show ?thesis by (simp add: vs'_def new_def dict_ok_def)
    qed
    have keys: "fst ` set vs' \<subseteq> T" using sub assms(4) by (auto simp: vs'_def new_def j_def)
    have "length vs' = card (fst ` set vs')" using ok by (rule length_dict)
    also have "\<dots> \<le> card T" by (rule card_mono [OF assms(2) keys])
    finally have "int (length ((k, e) # vs')) \<le> lru_max c" using assms(3) by simp
    from evict_append [OF this, of "AList.delete j us"]
    obtain us' where "lru_data (snd (lru_set t j v ttl c)) = us' @ (k, e) # vs'"
      by (auto simp: lru_set_moved del vs'_def new_def)
    with keys lru_inv_set [OF inv] show ?thesis by (auto simp: Put i retains_def lru_set_data(2))
  qed
qed

lemma retains_run:
  assumes "retains T k e c" "finite T" "int (card T) < lru_max c" "op_key ` set ops \<subseteq> T" "k \<notin> T"
  shows "retains T k e (fold lru_step ops c)"
  using assms(1,3,4)
proof (induction ops arbitrary: c)
  case (Cons op ops)
  have "op_key op \<in> T" using Cons.prems(3) by simp
  note step = retains_step [OF Cons.prems(1) assms(2) Cons.prems(2) this assms(5)]
  with Cons show ?case by simp
qed simp

section \<open>Nearest neighbours\<close>

text \<open>What the search returns, when every vector has the query's dimension.\<close>

definition sim_of :: "real list \<Rightarrow> 'v cache_entry \<Rightarrow> real option" where
  "sim_of query e = (case ce_embedding e of
       None \<Rightarrow> None
     | Some w \<Rightarrow> (case cosine query w of Inl x \<Rightarrow> None | Inr s \<Rightarrow> Some s))"

definition same_dimension :: "real list \<Rightarrow> 'v cache_entry \<Rightarrow> bool" where
  "same_dimension query e \<longleftrightarrow> (\<forall>w. ce_embedding e = Some w \<longrightarrow> length w = length query)"

lemma best_loop_spec:
  "\<forall>e \<in> set es. same_dimension query e \<Longrightarrow>
     \<exists>b s. best_loop query es b0 s0 = Inr (b, s) \<and> s0 \<le> s
       \<and> (\<forall>e \<in> set es. \<forall>x. sim_of query e = Some x \<longrightarrow> x \<le> s)
       \<and> (b = b0 \<and> s = s0 \<or> (\<exists>e \<in> set es. b = Some e \<and> sim_of query e = Some s \<and> s0 < s))"
proof (induction es arbitrary: b0 s0)
  case (Cons e es)
  then have tl: "\<forall>e \<in> set es. same_dimension query e" by simp
  show ?case
  proof (cases "ce_embedding e")
    case None
    with Cons.IH [OF tl, of b0 s0] show ?thesis by (auto simp: sim_of_def)
  next
    case (Some w)
    with Cons.prems obtain x where x: "cosine query w = Inr x"
      by (auto simp: same_dimension_def cosine_eq)
    then have sx: "sim_of query e = Some x" by (simp add: sim_of_def Some)
    show ?thesis
    proof (cases "s0 < x")
      case True
      from Cons.IH [OF tl, of "Some e" x] obtain b s where
        r: "best_loop query es (Some e) x = Inr (b, s)" "x \<le> s"
        "\<forall>e \<in> set es. \<forall>x. sim_of query e = Some x \<longrightarrow> x \<le> s"
        "b = Some e \<and> s = x \<or> (\<exists>e \<in> set es. b = Some e \<and> sim_of query e = Some s \<and> x < s)"
        by blast
      with True Some x sx show ?thesis by (intro exI [of _ b] exI [of _ s]) auto
    next
      case False
      from Cons.IH [OF tl, of b0 s0] obtain b s where
        r: "best_loop query es b0 s0 = Inr (b, s)" "s0 \<le> s"
        "\<forall>e \<in> set es. \<forall>x. sim_of query e = Some x \<longrightarrow> x \<le> s"
        "b = b0 \<and> s = s0 \<or> (\<exists>e \<in> set es. b = Some e \<and> sim_of query e = Some s \<and> s0 < s)"
        by blast
      with False Some x sx show ?thesis by (intro exI [of _ b] exI [of _ s]) auto
    qed
  qed
qed simp

definition live :: "seconds \<Rightarrow> string \<Rightarrow> 'v semantic_cache \<Rightarrow> 'v cache_entry list" where
  "live now ns c = (case map_of (sc_partitions c) ns of None \<Rightarrow> [] | Some es \<Rightarrow> evict_expired now es)"

lemma get_semantic_live:
  "fst (get_semantic now emb ns txt c) =
     (if live now ns c = [] then Inr None
      else res_bind (best_loop (emb txt) (live now ns c) None (- 1)) (\<lambda>(best, best_sim).
        case best of None \<Rightarrow> Inr None
        | Some e \<Rightarrow> Inr (if best_sim < sc_threshold c then None else Some (ce_value e, best_sim))))"
  by (auto simp: get_semantic_def live_def evict_expired_def Let_def split: option.split list.split)

lemma get_semantic_partitions:
  "j \<noteq> ns \<Longrightarrow> map_of (sc_partitions (snd (get_semantic now emb ns txt c))) j = map_of (sc_partitions c) j"
  by (auto simp: get_semantic_def Let_def dict_simps split: option.split list.split)

lemma trim_subset: "set (snd (trim m xs)) \<subseteq> set xs"
  by (induction m xs rule: trim.induct) auto

lemma trim_length: "0 \<le> m \<Longrightarrow> int (length (snd (trim m xs))) \<le> m"
  by (induction m xs rule: trim.induct) auto

lemma set_semantic_partitions:
  "sc_partitions (snd (set_semantic now emb ns txt v ttl c)) = AList.update ns
     (snd (trim (sc_max c) ((case map_of (sc_partitions c) ns of None \<Rightarrow> [] | Some es \<Rightarrow> es)
        @ [\<lparr>ce_value = v, ce_expires = now + of_int ttl, ce_embedding = Some (emb txt),
            ce_namespace = ns, ce_text = txt\<rparr>]))) (sc_partitions c)"
  "sc_threshold (snd (set_semantic now emb ns txt v ttl c)) = sc_threshold c"
  by (simp_all add: set_semantic_def case_prod_unfold Let_def)

lemma get_semantic_subset:
  assumes "map_of (sc_partitions (snd (get_semantic now emb ns txt c))) j = Some es" "e \<in> set es"
  shows "\<exists>es'. map_of (sc_partitions c) j = Some es' \<and> e \<in> set es'"
  using assms
  by (auto simp: get_semantic_def evict_expired_def Let_def dict_simps split: option.splits list.splits if_splits)

text \<open>A history of uses of the semantic cache.\<close>

datatype 'v sem_op = Look seconds string string | Store seconds string string 'v int

fun sem_step :: "(string \<Rightarrow> real list) \<Rightarrow> 'v sem_op \<Rightarrow> 'v semantic_cache \<Rightarrow> 'v semantic_cache" where
  "sem_step emb (Look now ns txt) c = snd (get_semantic now emb ns txt c)"
| "sem_step emb (Store now ns txt v ttl) c = snd (set_semantic now emb ns txt v ttl c)"

lemma sem_step_threshold [simp]: "sc_threshold (sem_step emb op c) = sc_threshold c"
  by (cases op) (auto simp: set_semantic_partitions get_semantic_def Let_def split: option.split list.split)

lemma sem_run_threshold [simp]: "sc_threshold (fold (sem_step emb) ops c) = sc_threshold c"
  by (induction ops arbitrary: c) simp_all

context embedder
begin

text \<open>Where an entry of the partition \<open>ns\<close> comes from.\<close>

definition stored_by :: "'v sem_op list \<Rightarrow> string \<Rightarrow> 'v cache_entry \<Rightarrow> bool" where
  "stored_by ops ns e \<longleftrightarrow> (\<exists>t txt ttl. Store t ns txt (ce_value e) ttl \<in> set ops
     \<and> ce_expires e = t + of_int ttl \<and> ce_embedding e = Some (emb txt))"

definition all_stored :: "'v sem_op list \<Rightarrow> 'v semantic_cache \<Rightarrow> bool" where
  "all_stored ops c \<longleftrightarrow>
     (\<forall>ns es e. map_of (sc_partitions c) ns = Some es \<longrightarrow> e \<in> set es \<longrightarrow> stored_by ops ns e)"

lemma stored_by_more: "stored_by ops ns e \<Longrightarrow> set ops \<subseteq> set ops' \<Longrightarrow> stored_by ops' ns e"
  by (auto simp: stored_by_def)

lemma all_stored_step:
  assumes "all_stored ops c"
  shows "all_stored (ops @ [op]) (sem_step emb op c)"
proof (cases op)
  case (Look now ns s)
  show ?thesis
    unfolding all_stored_def
  proof (intro allI impI)
    fix j es e
    assume "map_of (sc_partitions (sem_step emb op c)) j = Some es" "e \<in> set es"
    then obtain es' where "map_of (sc_partitions c) j = Some es'" "e \<in> set es'"
      using get_semantic_subset Look by fastforce
    with assms have "stored_by ops j e" by (auto simp: all_stored_def)
    then show "stored_by (ops @ [op]) j e" by (rule stored_by_more) auto
  qed
next
  case (Store now ns s v ttl)
  define new where "new = \<lparr>ce_value = v, ce_expires = now + of_int ttl, ce_embedding = Some (emb s),
      ce_namespace = ns, ce_text = s\<rparr>"
  define old where "old = (case map_of (sc_partitions c) ns of None \<Rightarrow> [] | Some es \<Rightarrow> es)"
  have parts: "sc_partitions (sem_step emb op c) =
      AList.update ns (snd (trim (sc_max c) (old @ [new]))) (sc_partitions c)"
    by (simp add: Store set_semantic_partitions new_def old_def)
  have new: "stored_by (ops @ [op]) ns new" by (auto simp: stored_by_def new_def Store)
  have old: "stored_by ops ns e" if "e \<in> set old" for e
    using that assms by (cases "map_of (sc_partitions c) ns") (auto simp: old_def all_stored_def)
  show ?thesis
    unfolding all_stored_def
  proof (intro allI impI)
    fix j es e
    assume a: "map_of (sc_partitions (sem_step emb op c)) j = Some es" "e \<in> set es"
    show "stored_by (ops @ [op]) j e"
    proof (cases "j = ns")
      case True
      with a have "e \<in> set (old @ [new])" using trim_subset by (fastforce simp: parts dict_simps)
      with new old stored_by_more [of ops ns e "ops @ [op]"] True show ?thesis by auto
    next
      case False
      with a assms have "stored_by ops j e" by (auto simp: parts dict_simps all_stored_def)
      then show ?thesis by (rule stored_by_more) auto
    qed
  qed
qed

lemma all_stored_run: "all_stored ops (fold (sem_step emb) ops (new_semantic th m))"
proof (induction ops rule: rev_induct)
  case Nil
  then show ?case by (simp add: all_stored_def new_semantic_def)
next
  case (snoc op ops)
  then show ?case by (simp add: all_stored_step)
qed

lemma live_stored: "all_stored ops c \<Longrightarrow> e \<in> set (live now ns c) \<Longrightarrow> stored_by ops ns e \<and> now \<le> ce_expires e"
  by (cases "map_of (sc_partitions c) ns") (auto simp: live_def evict_expired_def all_stored_def)

lemma stored_same_dimension: "stored_by ops ns e \<Longrightarrow> same_dimension (emb txt) e"
  by (auto simp: stored_by_def same_dimension_def emb_length)

text \<open>A lookup never raises, and returns the nearest live entry of its partition.\<close>

lemma nearest:
  assumes "all_stored ops c" "0 < sc_threshold c"
  shows "\<exists>r. fst (get_semantic now emb ns txt c) = Inr r
    \<and> (\<forall>v s. r = Some (v, s) \<longrightarrow> (\<exists>e \<in> set (live now ns c). ce_value e = v
      \<and> sim_of (emb txt) e = Some s \<and> sc_threshold c \<le> s
      \<and> (\<forall>e' \<in> set (live now ns c). \<forall>x. sim_of (emb txt) e' = Some x \<longrightarrow> x \<le> s)))
    \<and> (r = None \<longrightarrow> (\<forall>e \<in> set (live now ns c). \<forall>x. sim_of (emb txt) e = Some x \<longrightarrow> x < sc_threshold c))"
proof -
  have "\<forall>e \<in> set (live now ns c). same_dimension (emb txt) e"
    using live_stored [OF assms(1)] stored_same_dimension by blast
  from best_loop_spec [OF this, of None "- 1"] obtain b s where
    loop: "best_loop (emb txt) (live now ns c) None (- 1) = Inr (b, s)" and
    top: "\<forall>e \<in> set (live now ns c). \<forall>x. sim_of (emb txt) e = Some x \<longrightarrow> x \<le> s" and
    b: "b = None \<and> s = - 1 \<or> (\<exists>e \<in> set (live now ns c). b = Some e \<and> sim_of (emb txt) e = Some s \<and> - 1 < s)"
    by blast
  define r where "r = (case b of None \<Rightarrow> None | Some e \<Rightarrow> if s < sc_threshold c then None else Some (ce_value e, s))"
  have "fst (get_semantic now emb ns txt c) = Inr r"
    using loop b by (cases "live now ns c = []") (auto simp: get_semantic_live r_def split: option.split)
  moreover have "\<exists>e \<in> set (live now ns c). ce_value e = v \<and> sim_of (emb txt) e = Some x \<and> sc_threshold c \<le> x
      \<and> (\<forall>e' \<in> set (live now ns c). \<forall>y. sim_of (emb txt) e' = Some y \<longrightarrow> y \<le> x)" if "r = Some (v, x)" for v x
    using that b top by (auto simp: r_def split: if_splits)
  moreover have "\<forall>e \<in> set (live now ns c). \<forall>x. sim_of (emb txt) e = Some x \<longrightarrow> x < sc_threshold c" if "r = None"
  proof -
    have "s < sc_threshold c" using that b assms(2) by (auto simp: r_def split: if_splits)
    with top show ?thesis by fastforce
  qed
  ultimately show ?thesis by blast
qed

end

section \<open>Properties\<close>

text \<open>
  C34. Whatever sequence of reads and writes the LRU cache has seen, with whatever clock, a read
  returns the value of the newest write of that key, and only while that write has not expired;
  the cache never holds more than its capacity and never a key twice.
\<close>

theorem cache_serves_last_write:
  assumes "0 \<le> m"
  shows "(\<forall>v. fst (lru_get now k (fold lru_step ops (new_lru m))) = Some v
        \<longrightarrow> (\<exists>t. last_put (rev ops) k = Some (v, t) \<and> now \<le> t))
    \<and> int (length (lru_data (fold lru_step ops (new_lru m)))) \<le> m
    \<and> distinct (map fst (lru_data (fold lru_step ops (new_lru m))))"
proof -
  have start: "lru_inv (new_lru m :: 'a lru_cache)" "\<forall>k. lru_holds (new_lru m :: 'a lru_cache) k = None"
    using assms by (simp_all add: lru_inv_def new_lru_def lru_holds_def)
  have "lru_max (fold lru_step ops (new_lru m)) = m"
    by (induction ops rule: rev_induct) (simp_all add: new_lru_def lru_step_max)
  with lru.run_inv [OF start(1), of ops] lru.served_is_last_put [OF start, of now k ops] show ?thesis
    by (simp add: lru_step_eq lru_inv_def dict_ok_def)
qed

theorem cache_serves_last_write_witness:
  "\<exists>t. last_put [Get 1 ''a'', Put 0 ''a'' (7::nat) 60] ''a'' = Some (7, t) \<and> 2 \<le> t"
proof -
  have "fst (lru_get 2 ''a'' (fold lru_step [Put 0 ''a'' (7::nat) 60, Get 1 ''a''] (new_lru 1))) = Some 7"
    by (simp add: lru_get_def lru_set_def new_lru_def plain_entry_def move_to_end_def)
  with cache_serves_last_write [of 1 2 "''a''" "[Put 0 ''a'' (7::nat) 60, Get 1 ''a'']"] show ?thesis by simp
qed



text \<open>
  C36. Whatever has been stored and looked up before, a lookup in the semantic cache never raises.
  What it returns was stored under the same model name, has not expired, and its prompt is at
  least as similar as the threshold and as every other live entry of that model; it returns
  nothing only when no live entry of that model reaches the threshold.
\<close>

theorem semantic_nearest:
  assumes "0 < th"
  shows "\<exists>r. fst (get_semantic now (embed h d) ns txt (fold (sem_step (embed h d)) ops (new_semantic th m))) = Inr r
    \<and> (\<forall>v s. r = Some (v, s) \<longrightarrow> th \<le> s \<and> (\<exists>t txt' ttl. Store t ns txt' v ttl \<in> set ops
          \<and> now \<le> t + of_int ttl \<and> cosine (embed h d txt) (embed h d txt') = Inr s))
    \<and> (\<forall>e \<in> set (live now ns (fold (sem_step (embed h d)) ops (new_semantic th m))).
          \<forall>x. sim_of (embed h d txt) e = Some x \<longrightarrow> (case r of None \<Rightarrow> x < th | Some (v, s) \<Rightarrow> x \<le> s))"
proof -
  define c where "c = fold (sem_step (embed h d)) ops (new_semantic th m)"
  have st: "hashing.all_stored h d ops c" unfolding c_def by (rule hashing.all_stored_run)
  have th: "sc_threshold c = th" by (simp add: c_def new_semantic_def)
  have th': "0 < sc_threshold c" using assms by (simp add: th)
  from hashing.nearest [OF st th', of now ns "txt"] obtain r where
    r1: "fst (get_semantic now (embed h d) ns txt c) = Inr r" and
    r2: "\<And>v s. r = Some (v, s) \<Longrightarrow> \<exists>e \<in> set (live now ns c). ce_value e = v
      \<and> sim_of (embed h d txt) e = Some s \<and> th \<le> s
      \<and> (\<forall>e' \<in> set (live now ns c). \<forall>x. sim_of (embed h d txt) e' = Some x \<longrightarrow> x \<le> s)" and
    r3: "r = None \<Longrightarrow> \<forall>e \<in> set (live now ns c). \<forall>x. sim_of (embed h d txt) e = Some x \<longrightarrow> x < th"
    unfolding th by blast
  have "th \<le> s \<and> (\<exists>t txt' ttl. Store t ns txt' v ttl \<in> set ops
      \<and> now \<le> t + of_int ttl \<and> cosine (embed h d txt) (embed h d txt') = Inr s)" if "r = Some (v, s)" for v s
  proof -
    from r2 [OF that] obtain e where e: "e \<in> set (live now ns c)" "ce_value e = v"
      "sim_of (embed h d txt) e = Some s" "th \<le> s" by blast
    from hashing.live_stored [OF st e(1)] obtain t txt' ttl where
      "Store t ns txt' v ttl \<in> set ops" "now \<le> t + of_int ttl" "ce_embedding e = Some (embed h d txt')"
      by (auto simp: hashing.stored_by_def e(2))
    with e(3,4) show ?thesis by (auto simp: sim_of_def split: sum.splits)
  qed
  moreover have "case r of None \<Rightarrow> x < th | Some (v, s) \<Rightarrow> x \<le> s"
    if "e \<in> set (live now ns c)" "sim_of (embed h d txt) e = Some x" for e x
    using r2 r3 that by (cases r) fastforce+
  ultimately show ?thesis using r1 unfolding c_def [symmetric] by blast
qed

theorem semantic_nearest_witness:
  "\<exists>r. fst (get_semantic 1 (embed size 2) ''m'' ''hi'' (fold (sem_step (embed size 2))
      [Store 0 ''m'' ''hi'' (7::nat) 60] (new_semantic (95 / 100) 10))) = Inr r"
  using semantic_nearest [of "95 / 100" 1 size 2 "''m''" "''hi''" "[Store 0 ''m'' ''hi'' (7::nat) 60]" 10] by auto

end
