(* ===== verification/Metrics.thy ===== *)
theory Metrics
  imports Schemas
begin

text \<open>
  \<open>observability/metrics.py\<close> and \<open>observability/tracing.py\<close>. The Prometheus client and
  OpenTelemetry are libraries: the model is the sequence of calls the code makes on them. Whether
  a call raises is an argument (\<open>sink\<close>, the exception of a call if it has one); a call that raises
  ends the sequence.
\<close>

section \<open>Prometheus\<close>

datatype metric =
    Requests | Duration | Tokens | Cost | CacheEvents | GuardrailEvents | ProviderFailures

text \<open>\<open>METRIC.labels(...).inc(x)\<close> and \<open>METRIC.labels(...).observe(x)\<close>\<close>

datatype metric_call = Inc metric "string list" real | Observe metric "string list" real

fun emit ::
  "(metric_call \<Rightarrow> py_exc option) \<Rightarrow> metric_call list \<Rightarrow> metric_call list \<Rightarrow> (py_exc + unit) \<times> metric_call list"
where
  "emit sink [] out = (Inr (), out)"
| "emit sink (c # cs) out = (case sink c of
       Some e \<Rightarrow> (Inl e, out)
     | None \<Rightarrow> emit sink cs (out @ [c]))"

fun cache_name :: "cache_status \<Rightarrow> string" where
  "cache_name CacheHit = ''hit''"
| "cache_name CacheMiss = ''miss''"
| "cache_name CacheBypass = ''bypass''"

text \<open>\<open>if x:\<close> for an optional amount\<close>

definition amount :: "usd option \<Rightarrow> bool" where
  "amount c \<longleftrightarrow> c \<noteq> None \<and> c \<noteq> Some 0"

definition record_completion ::
  "tenant_id \<Rightarrow> model_id \<Rightarrow> string \<Rightarrow> model_id \<Rightarrow> string \<Rightarrow> real \<Rightarrow> int \<Rightarrow> int \<Rightarrow> usd option
     \<Rightarrow> cache_status \<Rightarrow> bool \<Rightarrow> metric_call list"
where
  "record_completion i requested p upstream status duration pt ct cost cache fallback =
     [Inc Requests [i, requested, p, upstream, status] 1, Observe Duration [i, p, upstream] duration]
     @ (if pt \<noteq> 0 then [Inc Tokens [i, p, upstream, ''prompt''] (of_int pt)] else [])
     @ (if ct \<noteq> 0 then [Inc Tokens [i, p, upstream, ''completion''] (of_int ct)] else [])
     @ (if amount cost then [Inc Cost [i, p, upstream] (the cost)] else [])
     @ [Inc CacheEvents [i, cache_name cache] 1]
     @ (if fallback then [Inc ProviderFailures [p, ''fallback_used''] 0] else [])"

section \<open>The span\<close>

text \<open>
  The attributes set on the active span. \<open>recording\<close> says that OpenTelemetry is there and the
  span records; an attribute the span refuses (\<open>accepts\<close>) is skipped, whatever it raised.
\<close>

definition span_attributes ::
  "tenant_id \<Rightarrow> model_id \<Rightarrow> string \<Rightarrow> model_id \<Rightarrow> int \<Rightarrow> int \<Rightarrow> usd option \<Rightarrow> cache_status \<Rightarrow> bool
     \<Rightarrow> (string \<times> json) list"
where
  "span_attributes i requested p upstream pt ct cost cache fallback =
     [(''gen_ai.system'', JStr p), (''gen_ai.request.model'', JStr requested),
      (''gen_ai.response.model'', JStr upstream), (''gen_ai.usage.input_tokens'', JInt pt),
      (''gen_ai.usage.output_tokens'', JInt ct), (''llm_gateway.tenant_id'', JStr i),
      (''llm_gateway.cache'', JStr (cache_name cache)), (''llm_gateway.fallback_used'', JBool fallback)]
     @ (case cost of None \<Rightarrow> [] | Some c \<Rightarrow> [(''llm_gateway.cost_usd'', JFloat c)])"

definition set_llm_span_attributes ::
  "bool \<Rightarrow> (string \<Rightarrow> bool) \<Rightarrow> (string \<times> json) list \<Rightarrow> (string \<times> json) list"
where
  "set_llm_span_attributes recording accepts attrs =
     (if recording then filter (\<lambda>(k, v). accepts k) attrs else [])"

section \<open>Facts\<close>

text \<open>What the counter \<open>m\<close> of a tenant stands at: the tenant is the first label.\<close>

fun counted :: "metric \<Rightarrow> string \<Rightarrow> metric_call \<Rightarrow> real" where
  "counted m i (Inc m' ls x) = (if m' = m \<and> ls \<noteq> [] \<and> hd ls = i then x else 0)"
| "counted m i (Observe m' ls x) = 0"

definition total :: "metric \<Rightarrow> string \<Rightarrow> metric_call list \<Rightarrow> real" where
  "total m i cs = sum_list (map (counted m i) cs)"

lemma total_append [simp]: "total m i (cs @ ds) = total m i cs + total m i ds"
  and total_Nil [simp]: "total m i [] = 0"
  and total_Cons [simp]: "total m i (c # cs) = counted m i c + total m i cs"
  by (simp_all add: total_def)

lemma emit_all: "\<forall>c \<in> set cs. sink c = None \<Longrightarrow> emit sink cs out = (Inr (), out @ cs)"
  by (induction cs arbitrary: out) auto

lemma emit_prefix: "\<exists>ds. prefix ds cs \<and> snd (emit sink cs out) = out @ ds"
proof (induction cs arbitrary: out)
  case (Cons c cs)
  show ?case
  proof (cases "sink c")
    case None
    from Cons.IH [of "out @ [c]"] obtain ds where "prefix ds cs" "snd (emit sink cs (out @ [c])) = out @ c # ds"
      by auto
    then show ?thesis using None by (intro exI [of _ "c # ds"]) simp
  qed auto
qed simp

lemma total_record_completion:
  "total Cost j (record_completion i requested p upstream status duration pt ct cost cache fallback) =
     (if j = i then (case cost of None \<Rightarrow> 0 | Some c \<Rightarrow> c) else 0)"
  "total Requests j (record_completion i requested p upstream status duration pt ct cost cache fallback) =
     (if j = i then 1 else 0)"
  "total Tokens j (record_completion i requested p upstream status duration pt ct cost cache fallback) =
     (if j = i then of_int (pt + ct) else 0)"
  by (auto simp: record_completion_def amount_def split: option.split)

end
