(* ===== verification/Sse.thy ===== *)
theory Sse
  imports Json_Inj Schemas
begin

text \<open>
  The event stream of \<open>api/routes.py\<close>: an answered response cut into OpenAI-shaped chunks, one per
  word, as Server-Sent Events. The bytes are ASCII, so the model has them as strings.
\<close>

section \<open>The stream\<close>

definition nl :: char where
  "nl = char_of (10 :: nat)"

definition sse_chunk :: "(real \<Rightarrow> string) \<Rightarrow> json \<Rightarrow> string" where
  "sse_chunk frepr payload = ''data: '' @ json_dumps_compact frepr payload @ [nl, nl]"

text \<open>The loop over the characters, with the buffer.\<close>

fun split_parts :: "string \<Rightarrow> string \<Rightarrow> string list" where
  "split_parts buf [] = (if buf \<noteq> [] then [buf] else [])"
| "split_parts buf (c # cs) =
     (if is_space c then (buf @ [c]) # split_parts [] cs else split_parts (buf @ [c]) cs)"

definition first_choice :: "chat_response \<Rightarrow> choice option" where
  "first_choice r = (case choices r of [] \<Rightarrow> None | c # cs \<Rightarrow> Some c)"

definition stream_content :: "chat_response \<Rightarrow> string" where
  "stream_content r = (case first_choice r of
       None \<Rightarrow> []
     | Some c \<Rightarrow> (case cm_content (message c) of None \<Rightarrow> [] | Some t \<Rightarrow> t))"

definition stream_finish :: "chat_response \<Rightarrow> json" where
  "stream_finish r = (case first_choice r of
       None \<Rightarrow> JStr ''stop''
     | Some c \<Rightarrow> (case finish_reason c of None \<Rightarrow> JNull | Some t \<Rightarrow> JStr t))"

definition stream_base :: "chat_response \<Rightarrow> (string \<times> json) list" where
  "stream_base r = [(''id'', JStr (resp_id r)), (''object'', JStr ''chat.completion.chunk''),
     (''created'', JInt (resp_created r)), (''model'', JStr (resp_model r))]"

definition chunk_payload :: "chat_response \<Rightarrow> (string \<times> json) list \<Rightarrow> json \<Rightarrow> json" where
  "chunk_payload r delta finish =
     JObj (stream_base r @ [(''choices'', JList [JObj [(''index'', JInt 0), (''delta'', JObj delta),
       (''finish_reason'', finish)]])])"

definition sse_payloads :: "chat_response \<Rightarrow> json list" where
  "sse_payloads r =
     [chunk_payload r [(''role'', JStr ''assistant'')] JNull]
     @ map (\<lambda>part. chunk_payload r [(''content'', JStr part)] JNull) (split_parts [] (stream_content r))
     @ [chunk_payload r [] (stream_finish r)]"

definition sse_stream :: "(real \<Rightarrow> string) \<Rightarrow> chat_response \<Rightarrow> string list" where
  "sse_stream frepr r = map (sse_chunk frepr) (sse_payloads r) @ [''data: [DONE]'' @ [nl, nl]]"

section \<open>Facts of the parts\<close>

lemma concat_split_parts: "concat (split_parts buf s) = buf @ s"
  by (induction buf s rule: split_parts.induct) auto

text \<open>A part ends at a white-space character or at the end of the text, and has no other.\<close>

lemma split_parts_words:
  assumes "\<forall>c \<in> set buf. \<not> is_space c"
  shows "\<forall>w \<in> set (split_parts buf s). w \<noteq> [] \<and> (\<forall>c \<in> set (butlast w). \<not> is_space c)"
  using assms
proof (induction buf s rule: split_parts.induct)
  case (1 buf)
  then show ?case by (auto dest: in_set_butlastD)
next
  case (2 buf c cs)
  show ?case
  proof (cases "is_space c")
    case True
    with "2.IH"(1) "2.prems" show ?thesis by simp
  next
    case False
    with "2.IH"(2) "2.prems" show ?thesis by simp
  qed
qed

section \<open>Printable text\<close>

definition printable :: "char \<Rightarrow> bool" where
  "printable c \<longleftrightarrow> 32 \<le> (of_char c :: nat) \<and> (of_char c :: nat) \<le> 126"

lemma printable_hex: "d < 16 \<Longrightarrow> printable (hex_digit d)"
  by (auto simp: printable_def hex_digit_def)

lemma printable_short: "map_of short_escapes n = Some x \<Longrightarrow> printable x"
  by (drule map_of_SomeD) (auto simp: short_escapes_def printable_def)

lemma printable_esc: "\<forall>x \<in> set (esc_char c). printable x"
proof (cases c rule: esc_char_cases)
  case (short x)
  then show ?thesis using printable_short by (simp add: printable_def)
next
  case self
  then have "printable c" unfolding esc_char_def Let_def printable_def by (simp split: if_splits)
  with self show ?thesis by simp
next
  case hex
  have "(of_char c :: nat) div 16 < 16" by (rule less_mult_imp_div_less) simp
  with hex show ?thesis using printable_hex by (simp add: printable_def)
qed

lemma printable_dump_string: "\<forall>c \<in> set (dump_string s). printable c"
  using printable_esc by (auto simp: dump_string_def printable_def)

lemma printable_show_int: "\<forall>c \<in> set (show_int i). printable c"
  using show_int_chars by (fastforce simp: printable_def is_digit_def in_range_def)

lemma printable_join:
  "\<forall>c \<in> set sep. printable c \<Longrightarrow> \<forall>s \<in> set ss. \<forall>c \<in> set s. printable c \<Longrightarrow> \<forall>c \<in> set (join sep ss). printable c"
  by (induction sep ss rule: join.induct) auto

lemma printable_dumps:
  assumes "\<forall>c \<in> set isep \<union> set ksep. printable c"
  shows "floats_in {} j \<Longrightarrow> \<forall>c \<in> set (dumps isep ksep frepr j). printable c"
proof (induction j)
  case (JList xs)
  then have "\<forall>c \<in> set (join isep (map (dumps isep ksep frepr) xs)). printable c"
    using assms by (intro printable_join) auto
  then show ?case by (auto simp: printable_def)
next
  case (JObj d)
  then have "\<forall>c \<in> set (dumps isep ksep frepr v). printable c" if "(k, v) \<in> set d" for k v
    using that by force
  then have "\<forall>c \<in> set (join isep (map (\<lambda>(k, v). dump_string k @ ksep @ dumps isep ksep frepr v) d)). printable c"
    using assms printable_dump_string by (intro printable_join) fastforce+
  then show ?case by (auto simp: printable_def)
qed (use printable_dump_string printable_show_int in \<open>auto simp: printable_def\<close>)

lemma floats_in_payloads: "p \<in> set (sse_payloads r) \<Longrightarrow> floats_in {} p"
  by (auto simp: sse_payloads_def chunk_payload_def stream_base_def stream_finish_def
      split: option.splits)

lemma frepr_ok_empty: "frepr_ok {} frepr"
  by (simp add: frepr_ok_def)

section \<open>What a client reads\<close>

text \<open>The \<open>delta\<close> of the first choice of a chunk, and the text and the reason it carries.\<close>

fun first_of_choices :: "json \<Rightarrow> string \<Rightarrow> json option" where
  "first_of_choices (JObj d) k = (case map_of d ''choices'' of
       Some (JList (JObj c # cs)) \<Rightarrow> map_of c k
     | _ \<Rightarrow> None)"
| "first_of_choices j k = None"

fun delta_text :: "json \<Rightarrow> string" where
  "delta_text p = (case first_of_choices p ''delta'' of
       Some (JObj d) \<Rightarrow> (case map_of d ''content'' of Some (JStr t) \<Rightarrow> t | _ \<Rightarrow> [])
     | _ \<Rightarrow> [])"

lemma first_of_choices_chunk [simp]:
  "first_of_choices (chunk_payload r d f) ''delta'' = Some (JObj d)"
  "first_of_choices (chunk_payload r d f) ''finish_reason'' = Some f"
  by (simp_all add: chunk_payload_def stream_base_def)

lemma delta_texts: "concat (map delta_text (sse_payloads r)) = stream_content r"
  by (simp add: sse_payloads_def comp_def concat_split_parts [of "[]"])

section \<open>Properties\<close>


text \<open>
  C13. The event stream loses nothing: two responses whose streams are the same bytes agree in
  the identifier, the time of creation, the model, the text and the finish reason.
\<close>

theorem sse_stream_lossless:
  assumes "sse_stream frepr r = sse_stream frepr r'"
  shows "resp_id r = resp_id r' \<and> resp_created r = resp_created r' \<and> resp_model r = resp_model r'
    \<and> stream_content r = stream_content r' \<and> stream_finish r = stream_finish r'"
proof -
  have "map (sse_chunk frepr) (sse_payloads r) = map (sse_chunk frepr) (sse_payloads r')"
    using assms by (simp add: sse_stream_def)
  then have ps: "sse_payloads r = sse_payloads r'"
  proof (rule map_inj_on)
    show "inj_on (sse_chunk frepr) (set (sse_payloads r) \<union> set (sse_payloads r'))"
    proof (rule inj_onI)
      fix x y
      assume "x \<in> set (sse_payloads r) \<union> set (sse_payloads r')" "y \<in> set (sse_payloads r) \<union> set (sse_payloads r')"
      then have "floats_in {} x" "floats_in {} y" using floats_in_payloads by blast+
      moreover assume "sse_chunk frepr x = sse_chunk frepr y"
      ultimately show "x = y" by (intro json_dumps_compact_inj [OF frepr_ok_empty]) (simp_all add: sse_chunk_def)
    qed
  qed
  then have "stream_content r = stream_content r'" by (metis delta_texts)
  moreover have "chunk_payload r [] (stream_finish r) = chunk_payload r' [] (stream_finish r')"
    using arg_cong [OF ps, of last] by (simp add: sse_payloads_def)
  ultimately show ?thesis by (simp add: chunk_payload_def stream_base_def)
qed

definition demo_stream_of :: "choice list \<Rightarrow> chat_response" where
  "demo_stream_of cs = \<lparr>resp_id = ''chatcmpl-1'', resp_created = 7, resp_model = ''m'', choices = cs,
     resp_usage = \<lparr>prompt_tokens = 0, completion_tokens = 0, total_tokens = 0\<rparr>, gateway = None\<rparr>"

theorem sse_stream_lossless_witness:
  "stream_finish (demo_stream_of []) = stream_finish (demo_stream_of [\<lparr>index = 0,
     message = \<lparr>cm_role = ''assistant'', cm_content = None\<rparr>, finish_reason = Some ''stop''\<rparr>])"
  using sse_stream_lossless [of "\<lambda>_. ''0.5''" "demo_stream_of []" "demo_stream_of [\<lparr>index = 0,
     message = \<lparr>cm_role = ''assistant'', cm_content = None\<rparr>, finish_reason = Some ''stop''\<rparr>]"]
  by (simp add: sse_stream_def sse_payloads_def chunk_payload_def stream_base_def stream_content_def
      stream_finish_def first_choice_def demo_stream_of_def)

end
