(* ===== verification/Routes.thy ===== *)
theory Routes
  imports Failover Auth Guardrails Cache Metrics Sse
begin

text \<open>
  \<open>api/routes.py\<close>: the endpoints of the gateway. The state of the process is the state of
  \<open>Auth\<close> with the provider registry, the response cache, the calls made on the metrics and the
  attributes set on spans. What a request reads from outside (clocks, identifiers, hash
  functions, whether the database or a metric raises) is its environment. Logging is left out.
\<close>

section \<open>State and environment\<close>

record app_state = auth_state +
  registry_of :: registry
  cache_of :: "chat_response backend option"
  metrics_of :: "metric_call list"
  spans_of :: "(string \<times> json) list list"

record app_env =
  xe_route :: env
  xe_start :: nat
  xe_time_get :: seconds
  xe_time_set :: seconds
  xe_mono :: "nat \<Rightarrow> seconds"
  xe_utc :: datetime
  xe_sha :: "string \<Rightarrow> string"
  xe_blake :: "string \<Rightarrow> nat"
  xe_frepr :: "real \<Rightarrow> string"
  xe_db_fails :: "py_exc option"
  xe_sink :: "metric_call \<Rightarrow> py_exc option"
  xe_recording :: bool
  xe_accepts :: "string \<Rightarrow> bool"

datatype reply = Body chat_response | EventStream "string list"

section \<open>GET /health and GET /v1/models\<close>

definition health_endpoint :: "settings \<Rightarrow> registry \<Rightarrow> health_response" where
  "health_endpoint st reg =
     (let ps = map (\<lambda>e. \<lparr>ph_name = pname (eprovider e), ph_healthy = health (eprovider e),
                         ph_circuit = cstate (ebreaker e)\<rparr>) (all_entries reg)
      in \<lparr>hr_status = (if list_ex ph_healthy ps then ''healthy'' else ''degraded''),
          hr_version = app_version st, hr_providers = ps\<rparr>)"

definition models_endpoint :: "seconds \<Rightarrow> tenant \<Rightarrow> registry \<Rightarrow> model_info list" where
  "models_endpoint now t reg =
     map (\<lambda>m. \<lparr>mi_id = m, mi_created = trunc now, mi_owned_by = ''llm-gateway''\<rparr>)
       (filter (model_allowed t) (list_all_models reg))
     @ map (\<lambda>m. \<lparr>mi_id = m, mi_created = trunc now, mi_owned_by = ''llm-gateway-alias''\<rparr>)
       [''auto'', ''cheapest'', ''fastest'']"

section \<open>POST /v1/chat/completions\<close>

definition emit_metrics :: "app_env \<Rightarrow> metric_call list \<Rightarrow> app_state \<Rightarrow> (py_exc + unit) \<times> app_state" where
  "emit_metrics ev cs s =
     (let (r, out) = emit (xe_sink ev) cs (metrics_of s) in (r, s\<lparr>metrics_of := out\<rparr>))"

text \<open>The guardrails: the body with redacted messages, and the types detected.\<close>

definition guard_stage :: "settings \<Rightarrow> chat_request \<Rightarrow> chat_request \<times> string list" where
  "guard_stage st body =
     (if guardrails_enabled st
      then (let (ms, found) = apply_to_messages (messages body) (guardrails_redact_pii st)
            in (body\<lparr>messages := ms\<rparr>, found))
      else (body, []))"

definition semantic_mode :: "settings \<Rightarrow> 'v backend \<Rightarrow> bool" where
  "semantic_mode st b \<longleftrightarrow> semantic_cache_enabled st \<and> semantic_cache_mode st = ''semantic''
     \<and> (case b of Exact c \<Rightarrow> False | Semantic c \<Rightarrow> True)"

text \<open>\<open>get_embedder()\<close> is the hashing embedder with its default dimension.\<close>

definition default_embed :: "app_env \<Rightarrow> string \<Rightarrow> real list" where
  "default_embed ev = embed (xe_blake ev) 256"

fun backend_get :: "seconds \<Rightarrow> string \<Rightarrow> 'v backend \<Rightarrow> 'v option \<times> 'v backend" where
  "backend_get now k (Exact c) = (let (v, c') = lru_get now k c in (v, Exact c'))"
| "backend_get now k (Semantic c) = (let (v, c') = sc_get now k c in (v, Semantic c'))"

fun backend_set :: "seconds \<Rightarrow> string \<Rightarrow> 'v \<Rightarrow> int \<Rightarrow> 'v backend \<Rightarrow> 'v backend" where
  "backend_set now k v secs (Exact c) = Exact (snd (lru_set now k v secs c))"
| "backend_set now k v secs (Semantic c) = Semantic (sc_set now k v secs c)"

definition lookup_stage ::
  "settings \<Rightarrow> app_env \<Rightarrow> chat_request \<Rightarrow> chat_response backend
     \<Rightarrow> (py_exc + chat_response option) \<times> chat_response backend"
where
  "lookup_stage st ev body b =
     (case b of
        Semantic c \<Rightarrow>
          if semantic_mode st b
          then (let (r, c') = get_semantic (xe_time_get ev) (default_embed ev) (model body)
                      (prompt_text (xe_frepr ev) body) c
                in (map_sum id (map_option fst) r, Semantic c'))
          else (let (v, b') = backend_get (xe_time_get ev) (cache_key (xe_sha ev) (xe_frepr ev) body) b
                in (Inr v, b'))
      | Exact c \<Rightarrow>
          (let (v, b') = backend_get (xe_time_get ev) (cache_key (xe_sha ev) (xe_frepr ev) body) b
           in (Inr v, b')))"

text \<open>Storing is best-effort: an exception leaves the cache as it was left.\<close>

definition store_stage ::
  "settings \<Rightarrow> app_env \<Rightarrow> chat_request \<Rightarrow> chat_response \<Rightarrow> chat_response backend
     \<Rightarrow> chat_response backend"
where
  "store_stage st ev body resp b =
     (case b of
        Semantic c \<Rightarrow>
          if semantic_mode st b
          then Semantic (snd (set_semantic (xe_time_set ev) (default_embed ev) (model body)
                 (prompt_text (xe_frepr ev) body) resp (semantic_cache_ttl_seconds st) c))
          else backend_set (xe_time_set ev) (cache_key (xe_sha ev) (xe_frepr ev) body) resp
                 (semantic_cache_ttl_seconds st) b
      | Exact c \<Rightarrow>
          backend_set (xe_time_set ev) (cache_key (xe_sha ev) (xe_frepr ev) body) resp
            (semantic_cache_ttl_seconds st) b)"

text \<open>The row of a completion; its key is assigned by the insertion, the time is the default.\<close>

definition usage_row ::
  "app_env \<Rightarrow> tenant \<Rightarrow> chat_request \<Rightarrow> chat_response \<Rightarrow> gateway_meta \<Rightarrow> usage_record"
where
  "usage_row ev t body resp g =
     \<lparr>ur_id = 0, ur_ts = xe_utc ev, ur_request_id = resp_id resp, ur_tenant_id = tid t,
      ur_requested_model = model body, ur_upstream_provider = gm_provider g,
      ur_upstream_model = gm_upstream_model g,
      ur_prompt_tokens = prompt_tokens (resp_usage resp),
      ur_completion_tokens = completion_tokens (resp_usage resp),
      ur_total_tokens = total_tokens (resp_usage resp), ur_cost_usd = gm_cost_usd g,
      ur_latency_ms = gm_latency_ms g, ur_cache_status = gm_cache g,
      ur_fallback_used = gm_fallback_used g, ur_status_code = 200\<rparr>"

definition record_stage ::
  "app_env \<Rightarrow> tenant \<Rightarrow> chat_request \<Rightarrow> chat_response \<Rightarrow> app_state \<Rightarrow> (py_exc + unit) \<times> app_state"
where
  "record_stage ev t body resp s =
     (let s1 = s\<lparr>limiter_of := record_tokens (xe_mono ev 0) (tid t) (total_tokens (resp_usage resp))
                  (limiter_of s)\<rparr>
      in case gateway resp of
           None \<Rightarrow> (Inr (), s1)
         | Some g \<Rightarrow>
             (let s2 = (case xe_db_fails ev of
                    Some e \<Rightarrow> s1
                  | None \<Rightarrow> s1\<lparr>usage_of := insert_usage (usage_row ev t body resp g) (usage_of s1)\<rparr>);
                  s3 = (if amount (gm_cost_usd g)
                        then s2\<lparr>budget_of := record_spend (xe_mono ev 1) (xe_mono ev 2) (tid t)
                               (the (gm_cost_usd g)) (budget_of s2)\<rparr>
                        else s2);
                  (r, s4) = emit_metrics ev (record_completion (tid t) (model body) (gm_provider g)
                      (gm_upstream_model g) ''200'' (gm_latency_ms g / 1000)
                      (prompt_tokens (resp_usage resp)) (completion_tokens (resp_usage resp))
                      (gm_cost_usd g) (gm_cache g) (gm_fallback_used g)) s3
              in case r of
                   Inl e \<Rightarrow> (Inl e, s4)
                 | Inr u \<Rightarrow> (Inr (), s4\<lparr>spans_of := spans_of s4 @ [set_llm_span_attributes
                       (xe_recording ev) (xe_accepts ev) (span_attributes (tid t) (model body)
                          (gm_provider g) (gm_upstream_model g) (prompt_tokens (resp_usage resp))
                          (completion_tokens (resp_usage resp)) (gm_cost_usd g) (gm_cache g)
                          (gm_fallback_used g))]\<rparr>)))"

text \<open>A cache hit: the gateway metadata is rewritten and only metrics are recorded.\<close>

definition as_hit :: "chat_response \<Rightarrow> chat_response" where
  "as_hit resp = resp\<lparr>gateway := map_option (\<lambda>g. g\<lparr>gm_cache := CacheHit, gm_fallback_used := False,
     gm_attempts := [''cache'']\<rparr>) (gateway resp)\<rparr>"

definition serve_hit ::
  "app_env \<Rightarrow> tenant \<Rightarrow> chat_request \<Rightarrow> chat_response \<Rightarrow> app_state \<Rightarrow> (api_error + reply) \<times> app_state"
where
  "serve_hit ev t body cached s =
     (let resp = as_hit cached in case gateway resp of
        None \<Rightarrow> (Inr (Body resp), s)
      | Some g \<Rightarrow>
          (let (r, s') = emit_metrics ev (record_completion (tid t) (model body) (gm_provider g)
                 (gm_upstream_model g) ''200'' 0 0 0 (Some 0) CacheHit False) s
           in case r of Inl e \<Rightarrow> (Inl (Internal e), s') | Inr u \<Rightarrow> (Inr (Body resp), s')))"

definition upstream_stage ::
  "settings \<Rightarrow> app_env \<Rightarrow> tenant \<Rightarrow> chat_request \<Rightarrow> app_state \<Rightarrow> (api_error + reply) \<times> app_state"
where
  "upstream_stage st ev t body s =
     (let (r, reg') = route (xe_route ev) (fallback_enabled st) body (xe_start ev) (registry_of s);
          s1 = s\<lparr>registry_of := reg'\<rparr>
      in case r of
           Inl (NoProviderAvailable m) \<Rightarrow> (Inl (http_error 503 (NoProvider m) []), s1)
         | Inl (AllProvidersFailed attempts err) \<Rightarrow>
             (Inl (http_error 502 (UpstreamsFailed attempts err) []), s1)
         | Inr resp \<Rightarrow>
             (let s2 = (if semantic_cache_enabled st \<and> \<not> stream body
                        then s1\<lparr>cache_of := map_option (store_stage st ev body resp) (cache_of s1)\<rparr>
                        else s1);
                  (r, s3) = record_stage ev t body resp s2
              in case r of
                   Inl e \<Rightarrow> (Inl (Internal e), s3)
                 | Inr u \<Rightarrow> (Inr (if stream body then EventStream (sse_stream (xe_frepr ev) resp)
                                 else Body resp), s3)))"

definition cached_stage ::
  "settings \<Rightarrow> app_env \<Rightarrow> tenant \<Rightarrow> chat_request \<Rightarrow> app_state \<Rightarrow> (api_error + reply) \<times> app_state"
where
  "cached_stage st ev t body s =
     (if \<not> semantic_cache_enabled st then upstream_stage st ev t body s
      else (let b = get_cache st (cache_of s) in
        if stream body then upstream_stage st ev t body (s\<lparr>cache_of := Some b\<rparr>)
        else (let (r, b') = lookup_stage st ev body b; s1 = s\<lparr>cache_of := Some b'\<rparr>
              in case r of
                   Inl e \<Rightarrow> (Inl (Internal e), s1)
                 | Inr (Some cached) \<Rightarrow> serve_hit ev t body cached s1
                 | Inr None \<Rightarrow> upstream_stage st ev t body s1)))"

definition chat_completions ::
  "settings \<Rightarrow> app_env \<Rightarrow> tenant \<Rightarrow> chat_request \<Rightarrow> app_state \<Rightarrow> (api_error + reply) \<times> app_state"
where
  "chat_completions st ev t body s =
     (if \<not> model_allowed t (model body)
      then (Inl (http_error 403 (ModelForbidden (tid t) (model body)) []), s)
      else (let (body1, found) = guard_stage st body;
                (r, s1) = emit_metrics ev (map (\<lambda>l. Inc GuardrailEvents [tid t, l] 1) found) s
            in case r of
                 Inl e \<Rightarrow> (Inl (Internal e), s1)
               | Inr u \<Rightarrow> cached_stage st ev t body1 s1))"

text \<open>The endpoint with the dependency that resolves the tenant.\<close>

definition post_chat_completions ::
  "settings \<Rightarrow> auth_env \<Rightarrow> app_env \<Rightarrow> string option \<Rightarrow> chat_request \<Rightarrow> app_state
     \<Rightarrow> (api_error + reply) \<times> app_state"
where
  "post_chat_completions st ae ev creds body s =
     (let (r, s1) = get_current_tenant st ae creds s
      in case r of Inl e \<Rightarrow> (Inl e, s1) | Inr t \<Rightarrow> chat_completions st ev t body s1)"

end
