(* ===== verification/Gateway.thy ===== *)
theory Gateway
  imports Routes
begin

text \<open>
  The handler of a chat completion as a whole: what a request is charged for, how the books of
  the process agree, where a cached answer comes from and what the providers get to see. All
  of it is for metrics that do not raise (\<open>quiet\<close>).
\<close>

definition quiet :: "app_env \<Rightarrow> bool" where
  "quiet ev \<longleftrightarrow> xe_sink ev = (\<lambda>_. None)"

lemma emit_metrics_quiet:
  "quiet ev \<Longrightarrow> emit_metrics ev cs s = (Inr (), s\<lparr>metrics_of := metrics_of s @ cs\<rparr>)"
  by (simp add: emit_metrics_def quiet_def emit_all)

section \<open>The stages\<close>

lemma route_gateway:
  assumes "route renv fb req n reg = (Inr resp, reg')" "wf_registry reg"
  shows "\<exists>g. gateway resp = Some g \<and> gm_cache g = CacheMiss
    \<and> total_tokens (resp_usage resp) = prompt_tokens (resp_usage resp) + completion_tokens (resp_usage resp)"
  using assms(2,1)
proof (cases rule: route_cases)
  case (run chain n1 reg1 tr)
  then show ?thesis
    by (auto simp: run_result_def Let_def normalized_response_def pr_total_tokens_def
        split: verdict.splits prod.splits if_splits)
qed simp

lemma route_wf: "route renv fb req n reg = (res, reg') \<Longrightarrow> wf_registry reg \<Longrightarrow> wf_registry reg'"
proof -
  assume "route renv fb req n reg = (res, reg')" "wf_registry reg"
  then show ?thesis
    by (cases rule: route_cases [OF \<open>wf_registry reg\<close> \<open>route renv fb req n reg = (res, reg')\<close>])
       (auto intro: wf_poll runs_wf)
qed

text \<open>The bookkeeping of an answer.\<close>

definition charges ::
  "app_env \<Rightarrow> tenant \<Rightarrow> chat_request \<Rightarrow> chat_response \<Rightarrow> gateway_meta \<Rightarrow> app_state \<Rightarrow> app_state \<Rightarrow> bool"
where
  "charges ev t body resp g s s' \<longleftrightarrow>
     limiter_of s' = record_tokens (xe_mono ev 0) (tid t) (total_tokens (resp_usage resp)) (limiter_of s)
     \<and> usage_of s' = (case xe_db_fails ev of
          None \<Rightarrow> insert_usage (usage_row ev t body resp g) (usage_of s) | Some e \<Rightarrow> usage_of s)
     \<and> budget_of s' = (if amount (gm_cost_usd g)
          then record_spend (xe_mono ev 1) (xe_mono ev 2) (tid t) (the (gm_cost_usd g)) (budget_of s)
          else budget_of s)"

text \<open>Nothing is charged: the limiter, the usage table and the budget are as before.\<close>

definition uncharged :: "app_state \<Rightarrow> app_state \<Rightarrow> bool" where
  "uncharged s s' \<longleftrightarrow>
     limiter_of s' = limiter_of s \<and> usage_of s' = usage_of s \<and> budget_of s' = budget_of s"

definition completion_metrics ::
  "tenant \<Rightarrow> chat_request \<Rightarrow> chat_response \<Rightarrow> gateway_meta \<Rightarrow> metric_call list"
where
  "completion_metrics t body resp g = record_completion (tid t) (model body) (gm_provider g)
     (gm_upstream_model g) ''200'' (gm_latency_ms g / 1000) (prompt_tokens (resp_usage resp))
     (completion_tokens (resp_usage resp)) (gm_cost_usd g) (gm_cache g) (gm_fallback_used g)"

lemma record_stage_quiet:
  assumes "quiet ev" "gateway resp = Some g"
  shows "\<exists>s'. record_stage ev t body resp s = (Inr (), s') \<and> charges ev t body resp g s s'
    \<and> registry_of s' = registry_of s \<and> cache_of s' = cache_of s \<and> keystore_of s' = keystore_of s
    \<and> metrics_of s' = metrics_of s @ completion_metrics t body resp g"
  using assms
  by (auto simp: record_stage_def emit_metrics_quiet charges_def completion_metrics_def Let_def
      split: option.split)

text \<open>
  A metric that raises costs the client the answer it is charged for: the tokens, the row and the
  spend are booked, but the request ends in an internal error.
\<close>

lemma metric_failure_loses_answer:
  assumes "gateway resp = Some g" "xe_sink ev (hd (completion_metrics t body resp g)) = Some e"
  shows "\<exists>s'. record_stage ev t body resp s = (Inl e, s') \<and> charges ev t body resp g s s'"
  using assms
  by (auto simp: record_stage_def emit_metrics_def charges_def completion_metrics_def record_completion_def Let_def
      split: option.split)

lemma serve_hit_quiet:
  assumes "quiet ev"
  obtains s' cs where "serve_hit ev t body cached s = (Inr (Body (as_hit cached)), s')" "uncharged s s'"
    "registry_of s' = registry_of s" "cache_of s' = cache_of s" "keystore_of s' = keystore_of s"
    "metrics_of s' = metrics_of s @ cs" "\<forall>i. total Cost i cs = 0 \<and> total Tokens i cs = 0"
proof (cases "gateway (as_hit cached)")
  case None
  show thesis by (rule that [of s "[]"]) (simp_all add: serve_hit_def None uncharged_def)
next
  case (Some g)
  define cs where "cs = record_completion (tid t) (model body) (gm_provider g) (gm_upstream_model g) ''200''
      0 0 0 (Some 0) CacheHit False"
  show thesis
    by (rule that [of "s\<lparr>metrics_of := metrics_of s @ cs\<rparr>" cs])
       (simp_all add: serve_hit_def Some emit_metrics_quiet [OF assms] uncharged_def cs_def total_record_completion)
qed

text \<open>What the part after the cache lookup does.\<close>

definition upstream_result ::
  "settings \<Rightarrow> app_env \<Rightarrow> tenant \<Rightarrow> chat_request \<Rightarrow> app_state \<Rightarrow> (api_error + reply) \<Rightarrow> app_state \<Rightarrow> bool"
where
  "upstream_result st ev t body s r s' \<longleftrightarrow>
     (case route (xe_route ev) (fallback_enabled st) body (xe_start ev) (registry_of s) of
        (Inl (NoProviderAvailable m), reg') \<Rightarrow>
          r = Inl (http_error 503 (NoProvider m) []) \<and> s' = s\<lparr>registry_of := reg'\<rparr>
      | (Inl (AllProvidersFailed as e), reg') \<Rightarrow>
          r = Inl (http_error 502 (UpstreamsFailed as e) []) \<and> s' = s\<lparr>registry_of := reg'\<rparr>
      | (Inr resp, reg') \<Rightarrow>
          (\<exists>g. gateway resp = Some g \<and> gm_cache g = CacheMiss
             \<and> total_tokens (resp_usage resp) = prompt_tokens (resp_usage resp) + completion_tokens (resp_usage resp)
             \<and> r = Inr (if stream body then EventStream (sse_stream (xe_frepr ev) resp) else Body resp)
             \<and> charges ev t body resp g s s' \<and> registry_of s' = reg' \<and> keystore_of s' = keystore_of s
             \<and> cache_of s' = (if semantic_cache_enabled st \<and> \<not> stream body
                  then map_option (store_stage st ev body resp) (cache_of s) else cache_of s)
             \<and> metrics_of s' = metrics_of s @ completion_metrics t body resp g))"

text \<open>The state in which an answer is booked: the breakers updated, the answer stored.\<close>

definition stored ::
  "settings \<Rightarrow> app_env \<Rightarrow> chat_request \<Rightarrow> chat_response \<Rightarrow> registry \<Rightarrow> app_state \<Rightarrow> app_state"
where
  "stored st ev body resp reg s = (let s1 = s\<lparr>registry_of := reg\<rparr>
     in if semantic_cache_enabled st \<and> \<not> stream body
        then s1\<lparr>cache_of := map_option (store_stage st ev body resp) (cache_of s1)\<rparr> else s1)"

lemma stored_fields [simp]:
  "limiter_of (stored st ev body resp reg s) = limiter_of s" "usage_of (stored st ev body resp reg s) = usage_of s"
  "budget_of (stored st ev body resp reg s) = budget_of s" "registry_of (stored st ev body resp reg s) = reg"
  "keystore_of (stored st ev body resp reg s) = keystore_of s" "metrics_of (stored st ev body resp reg s) = metrics_of s"
  "cache_of (stored st ev body resp reg s) = (if semantic_cache_enabled st \<and> \<not> stream body
     then map_option (store_stage st ev body resp) (cache_of s) else cache_of s)"
  by (simp_all add: stored_def Let_def)

lemma upstream_answered:
  assumes "route (xe_route ev) (fallback_enabled st) body (xe_start ev) (registry_of s) = (Inr resp, reg')"
  shows "upstream_stage st ev t body s = (case record_stage ev t body resp (stored st ev body resp reg' s) of
      (Inl e, s3) \<Rightarrow> (Inl (Internal e), s3)
    | (Inr u, s3) \<Rightarrow> (Inr (if stream body then EventStream (sse_stream (xe_frepr ev) resp) else Body resp), s3))"
  unfolding upstream_stage_def assms stored_def Let_def by simp

lemma upstream_stage_quiet:
  assumes "quiet ev" "wf_registry (registry_of s)" "upstream_stage st ev t body s = (r, s')"
  shows "upstream_result st ev t body s r s' \<and> wf_registry (registry_of s')"
proof -
  obtain res reg' where route: "route (xe_route ev) (fallback_enabled st) body (xe_start ev) (registry_of s)
      = (res, reg')" by fastforce
  have wf: "wf_registry reg'" using route assms(2) by (rule route_wf)
  show ?thesis
  proof (cases res)
    case (Inl err)
    with assms(3) wf show ?thesis
      by (cases err) (auto simp: upstream_stage_def upstream_result_def route)
  next
    case (Inr resp)
    from route_gateway [OF route [unfolded Inr] assms(2)] obtain g where
      g: "gateway resp = Some g" "gm_cache g = CacheMiss"
      "total_tokens (resp_usage resp) = prompt_tokens (resp_usage resp) + completion_tokens (resp_usage resp)"
      by blast
    define s2 where "s2 = stored st ev body resp reg' s"
    from record_stage_quiet [OF assms(1) g(1), of t body s2] obtain s3 where
      s3: "record_stage ev t body resp s2 = (Inr (), s3)" "charges ev t body resp g s2 s3"
      "registry_of s3 = registry_of s2" "cache_of s3 = cache_of s2" "keystore_of s3 = keystore_of s2"
      "metrics_of s3 = metrics_of s2 @ completion_metrics t body resp g"
      by blast
    have "r = Inr (if stream body then EventStream (sse_stream (xe_frepr ev) resp) else Body resp)" "s' = s3"
      using assms(3) upstream_answered [OF route [unfolded Inr], of t] s3(1) by (simp_all add: s2_def)
    moreover have "charges ev t body resp g s s3" using s3(2) by (simp add: s2_def charges_def split: option.split)
    ultimately show ?thesis using s3 g wf by (simp add: upstream_result_def route Inr s2_def)
  qed
qed

section \<open>The handler\<close>

definition cleaned :: "settings \<Rightarrow> chat_request \<Rightarrow> chat_request" where
  "cleaned st body = fst (guard_stage st body)"

lemma cleaned_fields [simp]: "model (cleaned st body) = model body" "stream (cleaned st body) = stream body"
  by (simp_all add: cleaned_def guard_stage_def case_prod_unfold Let_def)

definition guard_metrics :: "settings \<Rightarrow> tenant \<Rightarrow> chat_request \<Rightarrow> metric_call list" where
  "guard_metrics st t body = map (\<lambda>l. Inc GuardrailEvents [tid t, l] 1) (snd (guard_stage st body))"

lemma total_guard_metrics [simp]:
  "m \<noteq> GuardrailEvents \<Longrightarrow> total m i (guard_metrics st t body) = 0"
proof -
  assume "m \<noteq> GuardrailEvents"
  then have "total m i (map (\<lambda>l. Inc GuardrailEvents [tid t, l] 1) ls) = 0" for ls
    by (induction ls) auto
  then show ?thesis by (simp add: guard_metrics_def)
qed

text \<open>The cache as the lookup of a request leaves it when the lookup finds nothing.\<close>

definition missed :: "settings \<Rightarrow> app_env \<Rightarrow> chat_request \<Rightarrow> app_state \<Rightarrow> chat_response backend option \<Rightarrow> bool" where
  "missed st ev body s c \<longleftrightarrow>
     (if \<not> semantic_cache_enabled st then c = cache_of s
      else if stream body then c = Some (get_cache st (cache_of s))
      else (\<exists>b. lookup_stage st ev body (get_cache st (cache_of s)) = (Inr None, b) \<and> c = Some b))"

lemma cached_stage_cases:
  assumes "quiet ev" "wf_registry (registry_of s)" "cached_stage st ev t body s = (r, s')"
  obtains (upstream) c where "missed st ev body s c" "upstream_result st ev t body (s\<lparr>cache_of := c\<rparr>) r s'"
      "wf_registry (registry_of s')"
  | (hit) cached b cs where "semantic_cache_enabled st" "\<not> stream body"
      "lookup_stage st ev body (get_cache st (cache_of s)) = (Inr (Some cached), b)"
      "r = Inr (Body (as_hit cached))" "uncharged s s'" "registry_of s' = registry_of s"
      "cache_of s' = Some b" "keystore_of s' = keystore_of s" "metrics_of s' = metrics_of s @ cs"
      "\<forall>i. total Cost i cs = 0 \<and> total Tokens i cs = 0"
  | (broken) e b where "semantic_cache_enabled st" "\<not> stream body"
      "lookup_stage st ev body (get_cache st (cache_of s)) = (Inl e, b)"
      "r = Inl (Internal e)" "s' = s\<lparr>cache_of := Some b\<rparr>"
proof -
  have up: thesis if "upstream_stage st ev t body (s\<lparr>cache_of := c\<rparr>) = (r, s')" "missed st ev body s c" for c
    using upstream_stage_quiet [OF assms(1) _ that(1)] assms(2) by (intro upstream [OF that(2)]) simp_all
  obtain lk b where lk: "lookup_stage st ev body (get_cache st (cache_of s)) = (lk, b)" by fastforce
  show thesis
  proof (cases "semantic_cache_enabled st \<and> \<not> stream body")
    case False
    show thesis
      by (rule up [of "if semantic_cache_enabled st then Some (get_cache st (cache_of s)) else cache_of s"])
         (use False assms(3) in \<open>auto simp: cached_stage_def missed_def\<close>)
  next
    case True
    note eq = assms(3) [unfolded cached_stage_def, simplified True lk Let_def prod.case]
    show thesis
    proof (cases lk)
      case (Inl e)
      show thesis by (rule broken [OF _ _ lk [unfolded Inl]]) (use eq True Inl in simp_all)
    next
      case (Inr found)
      show thesis
      proof (cases found)
        case None
        show thesis by (rule up [of "Some b"]) (use eq True Inr None lk in \<open>simp_all add: missed_def\<close>)
      next
        case (Some cached)
        obtain s2 cs where h: "serve_hit ev t body cached (s\<lparr>cache_of := Some b\<rparr>) = (Inr (Body (as_hit cached)), s2)"
          "uncharged (s\<lparr>cache_of := Some b\<rparr>) s2" "registry_of s2 = registry_of (s\<lparr>cache_of := Some b\<rparr>)"
          "cache_of s2 = cache_of (s\<lparr>cache_of := Some b\<rparr>)" "keystore_of s2 = keystore_of (s\<lparr>cache_of := Some b\<rparr>)"
          "metrics_of s2 = metrics_of (s\<lparr>cache_of := Some b\<rparr>) @ cs" "\<forall>i. total Cost i cs = 0 \<and> total Tokens i cs = 0"
          by (rule serve_hit_quiet [OF assms(1)])
        show thesis
          by (rule hit [OF _ _ lk [unfolded Inr Some], of cs])
             (use eq True Inr Some h in \<open>simp_all add: uncharged_def\<close>)
      qed
    qed
  qed
qed

lemma chat_completions_cases:
  assumes "quiet ev" "wf_registry (registry_of s)" "chat_completions st ev t body s = (r, s')"
  obtains (forbidden) "\<not> model_allowed t (model body)"
      "r = Inl (http_error 403 (ModelForbidden (tid t) (model body)) [])" "s' = s"
  | (upstream) c where "model_allowed t (model body)" "missed st ev (cleaned st body) s c"
      "upstream_result st ev t (cleaned st body)
         (s\<lparr>metrics_of := metrics_of s @ guard_metrics st t body, cache_of := c\<rparr>) r s'"
      "wf_registry (registry_of s')"
  | (hit) cached b cs where "model_allowed t (model body)" "semantic_cache_enabled st" "\<not> stream body"
      "lookup_stage st ev (cleaned st body) (get_cache st (cache_of s)) = (Inr (Some cached), b)"
      "r = Inr (Body (as_hit cached))" "uncharged s s'" "registry_of s' = registry_of s"
      "cache_of s' = Some b" "keystore_of s' = keystore_of s" "metrics_of s' = metrics_of s @ cs"
      "\<forall>i. total Cost i cs = 0 \<and> total Tokens i cs = 0"
  | (broken) e b where "model_allowed t (model body)" "semantic_cache_enabled st" "\<not> stream body"
      "lookup_stage st ev (cleaned st body) (get_cache st (cache_of s)) = (Inl e, b)"
      "r = Inl (Internal e)"
      "s' = s\<lparr>metrics_of := metrics_of s @ guard_metrics st t body, cache_of := Some b\<rparr>"
proof (cases "model_allowed t (model body)")
  case False
  with assms(3) show thesis by (intro forbidden) (simp_all add: chat_completions_def)
next
  case True
  define s1 where "s1 = s\<lparr>metrics_of := metrics_of s @ guard_metrics st t body\<rparr>"
  have eq: "cached_stage st ev t (cleaned st body) s1 = (r, s')"
    using assms(3) True
    by (simp add: chat_completions_def emit_metrics_quiet [OF assms(1)] cleaned_def guard_metrics_def
        s1_def case_prod_unfold Let_def)
  have wf: "wf_registry (registry_of s1)" using assms(2) by (simp add: s1_def)
  from assms(1) wf eq show thesis
  proof (cases rule: cached_stage_cases)
    case (upstream c)
    then show thesis by (intro that(2) [OF True]) (auto simp: missed_def s1_def split: if_splits)
  next
    case (hit cached b cs)
    then show thesis
      by (intro that(3) [OF True, of cached b "guard_metrics st t body @ cs"]) (simp_all add: s1_def uncharged_def)
  next
    case (broken e b)
    then show thesis by (intro that(4) [OF True, of e b]) (simp_all add: s1_def)
  qed
qed

text \<open>The allowlist of a tenant is not looked at for an alias, whatever model the alias resolves to.\<close>

lemma alias_ignores_allowlist:
  assumes "model body \<in> {''auto'', ''cheapest'', ''fastest''}"
  shows "chat_completions st ev (t\<lparr>allowed_models := ms\<rparr>) body s = chat_completions st ev t body s"
proof -
  have "model_allowed t' (model body)" for t' using assms by (auto simp: model_allowed_def split: option.split)
  moreover have tid: "tid (t\<lparr>allowed_models := ms\<rparr>) = tid t" by simp
  have "usage_row ev (t\<lparr>allowed_models := ms\<rparr>) b resp g = usage_row ev t b resp g" for b resp g
    by (simp add: usage_row_def)
  then have "record_stage ev (t\<lparr>allowed_models := ms\<rparr>) b resp s = record_stage ev t b resp s" for b resp s
    by (simp only: record_stage_def tid)
  ultimately show ?thesis
    by (simp only: chat_completions_def cached_stage_def upstream_stage_def serve_hit_def tid simp_thms if_False)
qed

section \<open>Runs of the gateway\<close>

type_synonym call = "app_env \<times> tenant \<times> chat_request"

fun serve_all :: "settings \<Rightarrow> call list \<Rightarrow> app_state \<Rightarrow> (api_error + reply) list \<times> app_state" where
  "serve_all st [] s = ([], s)"
| "serve_all st ((ev, t, body) # calls) s =
     (let (r, s1) = chat_completions st ev t body s; (rs, s2) = serve_all st calls s1 in (r # rs, s2))"

lemma serve_all_snoc:
  "serve_all st (calls @ [(ev, t, body)]) s =
     (let (rs, s1) = serve_all st calls s; (r, s2) = chat_completions st ev t body s1 in (rs @ [r], s2))"
proof (induction calls arbitrary: s)
  case (Cons call calls)
  then show ?case by (cases call) (simp add: case_prod_unfold Let_def)
qed (simp add: case_prod_unfold Let_def)

lemma serve_all_append:
  "serve_all st (calls @ calls') s =
     (let (rs, s1) = serve_all st calls s; (rs', s2) = serve_all st calls' s1 in (rs @ rs', s2))"
proof (induction calls arbitrary: s)
  case (Cons call calls)
  then show ?case by (cases call) (simp add: case_prod_unfold Let_def)
qed (simp add: case_prod_unfold Let_def)

lemma serve_all_length: "serve_all st calls s = (rs, s') \<Longrightarrow> length rs = length calls"
  by (induction st calls s arbitrary: rs s' rule: serve_all.induct) (auto split: prod.splits)

text \<open>The run up to the call number \<open>i\<close>, and that call.\<close>

lemma serve_all_nth:
  assumes "serve_all st calls s = (rs, s')" "i < length calls" "calls ! i = (ev, t, body)"
  obtains rs1 s1 s2 where "serve_all st (take i calls) s = (rs1, s1)" "rs1 = take i rs"
    "chat_completions st ev t body s1 = (rs ! i, s2)"
proof -
  obtain rs1 s1 where s1: "serve_all st (take i calls) s = (rs1, s1)" by fastforce
  obtain r s2 where s2: "chat_completions st ev t body s1 = (r, s2)" by fastforce
  obtain rs2 s3 where s3: "serve_all st (drop (Suc i) calls) s2 = (rs2, s3)" by fastforce
  have "calls = take i calls @ (ev, t, body) # drop (Suc i) calls"
    using assms(2,3) by (simp add: id_take_nth_drop [symmetric] flip: assms(3))
  then have "serve_all st calls s = (rs1 @ r # rs2, s3)"
    by (metis (mono_tags, lifting) serve_all_append s1 s2 s3 serve_all.simps(2) case_prod_conv)
  moreover have "length rs1 = i" using serve_all_length [OF s1] assms(2) by simp
  ultimately have "rs1 = take i rs" "rs ! i = r" using assms(1) by (auto simp: nth_append)
  with s1 s2 show thesis by (intro that) auto
qed

lemma chat_completions_wf:
  assumes "quiet ev" "wf_registry (registry_of s)" "chat_completions st ev t body s = (r, s')"
  shows "wf_registry (registry_of s')"
  using assms by (cases rule: chat_completions_cases) (use assms(2) in simp_all)

lemma serve_all_wf:
  assumes "wf_registry (registry_of s)" "list_all (\<lambda>c. quiet (fst c)) calls"
    and "serve_all st calls s = (rs, s')"
  shows "wf_registry (registry_of s')"
  using assms
proof (induction st calls s arbitrary: rs rule: serve_all.induct)
  case (2 st ev t body calls s)
  obtain r s1 where c: "chat_completions st ev t body s = (r, s1)" by fastforce
  obtain rs' s2 where "serve_all st calls s1 = (rs', s2)" by fastforce
  with "2.IH" [OF c [symmetric] refl] chat_completions_wf [OF _ "2.prems"(1) c] "2.prems"(2,3) c
  show ?case by simp
qed simp

section \<open>The books\<close>

definition rows_of :: "tenant_id \<Rightarrow> usage_table \<Rightarrow> usage_table" where
  "rows_of i rows = filter (\<lambda>r. ur_tenant_id r = i) rows"

definition books :: "tenant_id \<Rightarrow> app_state \<Rightarrow> bool" where
  "books i s \<longleftrightarrow> total Cost i (metrics_of s) = sum_cost (rows_of i (usage_of s))
     \<and> total Tokens i (metrics_of s) = of_int (sum_list (map ur_total_tokens (rows_of i (usage_of s))))"

lemma rows_of_insert:
  "rows_of i (insert_usage r rows) = rows_of i rows @ (if ur_tenant_id r = i then [r\<lparr>ur_id := next_id rows\<rparr>] else [])"
  by (simp add: rows_of_def insert_usage_def)

lemma books_step:
  assumes "quiet ev" "xe_db_fails ev = None" "wf_registry (registry_of s)"
    and "chat_completions st ev t body s = (r, s')" "books i s"
  shows "books i s'"
  using assms(1,3,4)
proof (cases rule: chat_completions_cases)
  case (upstream c)
  obtain res reg' where route: "route (xe_route ev) (fallback_enabled st) (cleaned st body) (xe_start ev) (registry_of s)
      = (res, reg')" by fastforce
  show ?thesis
  proof (cases res)
    case (Inl err)
    with upstream(3) route assms(5) show ?thesis
      by (cases err) (auto simp: upstream_result_def books_def)
  next
    case (Inr resp)
    with upstream(3) route obtain g where g:
      "total_tokens (resp_usage resp) = prompt_tokens (resp_usage resp) + completion_tokens (resp_usage resp)"
      "usage_of s' = insert_usage (usage_row ev t (cleaned st body) resp g) (usage_of s)"
      "metrics_of s' = metrics_of s @ guard_metrics st t body @ completion_metrics t (cleaned st body) resp g"
      by (auto simp: upstream_result_def charges_def assms(2))
    with assms(5) show ?thesis
      by (simp add: books_def rows_of_insert usage_row_def completion_metrics_def total_record_completion)
  qed
next
  case (hit cached b cs)
  with assms(5) show ?thesis by (simp add: books_def uncharged_def)
next
  case (broken e b)
  with assms(5) show ?thesis by (simp add: books_def)
qed (use assms(5) in simp)

section \<open>Properties\<close>


text \<open>
  The books of the process agree: after any sequence of requests of any tenants, for every
  tenant the cost counter and the token counter of the metrics stand at exactly the sum of the
  costs and of the tokens of the tenant's rows in the usage table, cache hits, failures and
  streams included (as long as the database does not raise).
\<close>

theorem books_agree:
  assumes "list_all (\<lambda>(ev, t, body). quiet ev \<and> xe_db_fails ev = None) calls"
    and "wf_registry (registry_of s)" "metrics_of s = []" "usage_of s = []"
    and "serve_all st calls s = (rs, s')"
  shows "total Cost i (metrics_of s') = sum_cost (rows_of i (usage_of s'))
    \<and> total Tokens i (metrics_of s') = of_int (sum_list (map ur_total_tokens (rows_of i (usage_of s'))))"
proof -
  have "books i s' \<and> wf_registry (registry_of s')"
    if "list_all (\<lambda>(ev, t, body). quiet ev \<and> xe_db_fails ev = None) calls" "serve_all st calls s = (rs, s')"
    for rs s'
    using that
  proof (induction calls arbitrary: rs s' rule: rev_induct)
    case Nil
    then show ?case using assms(2-4) by (simp add: books_def rows_of_def)
  next
    case (snoc call calls)
    obtain ev t body where call: "call = (ev, t, body)" by (cases call) auto
    obtain rs1 s1 where s1: "serve_all st calls s = (rs1, s1)" by fastforce
    obtain r s2 where s2: "chat_completions st ev t body s1 = (r, s2)" by fastforce
    have "s' = s2" using snoc.prems(2) by (simp add: call serve_all_snoc s1 s2)
    moreover have q: "quiet ev" "xe_db_fails ev = None" and l: "list_all (\<lambda>(ev, t, body). quiet ev \<and> xe_db_fails ev = None) calls"
      using snoc.prems(1) by (simp_all add: call)
    moreover note ih = snoc.IH [OF l s1]
    ultimately show ?case
      using books_step [OF q conjunct2 [OF ih] s2 conjunct1 [OF ih]] chat_completions_wf [OF q(1) conjunct2 [OF ih] s2]
      by simp
  qed
  from this [OF assms(1,5)] show ?thesis by (simp add: books_def)
qed

section \<open>Where a cached answer comes from\<close>

text \<open>The value \<open>v\<close> under the key \<open>k\<close> is the answer to an earlier request with that key.\<close>

definition origin ::
  "settings \<Rightarrow> call list \<Rightarrow> (api_error + reply) list \<Rightarrow> string \<Rightarrow> chat_response \<Rightarrow> bool"
where
  "origin st calls outs k v \<longleftrightarrow> (\<exists>j ev t body g. j < length calls \<and> calls ! j = (ev, t, body)
     \<and> outs ! j = Inr (Body v) \<and> gateway v = Some g \<and> gm_cache g = CacheMiss
     \<and> cache_key (xe_sha ev) (xe_frepr ev) (cleaned st body) = k)"

lemma origin_more:
  assumes "origin st calls outs k v" "length outs = length calls"
  shows "origin st (calls @ calls') (outs @ outs') k v"
proof -
  obtain j ev t body g where j: "j < length calls" "calls ! j = (ev, t, body)" "outs ! j = Inr (Body v)"
    "gateway v = Some g" "gm_cache g = CacheMiss" "cache_key (xe_sha ev) (xe_frepr ev) (cleaned st body) = k"
    using assms(1) unfolding origin_def by blast
  have "(calls @ calls') ! j = (ev, t, body)" "(outs @ outs') ! j = Inr (Body v)" "j < length (calls @ calls')"
    using j(1-3) assms(2) by (simp_all add: nth_append)
  with j(4-6) show ?thesis unfolding origin_def by blast
qed

lemma origin_last:
  assumes "length outs = length calls" "gateway v = Some g" "gm_cache g = CacheMiss"
    and "cache_key (xe_sha ev) (xe_frepr ev) (cleaned st body) = k"
  shows "origin st (calls @ [(ev, t, body)]) (outs @ [Inr (Body v)]) k v"
proof -
  have "(calls @ [(ev, t, body)]) ! length calls = (ev, t, body)"
      "(outs @ [Inr (Body v)]) ! length calls = Inr (Body v)"
    using assms(1) by (simp, metis nth_append_length)
  then show ?thesis
    unfolding origin_def using assms by (intro exI [of _ "length calls"]) auto
qed

text \<open>The invariant of an exact cache: it is well formed and all it holds has an origin.\<close>

definition authentic ::
  "settings \<Rightarrow> call list \<Rightarrow> (api_error + reply) list \<Rightarrow> chat_response backend option \<Rightarrow> bool"
where
  "authentic st calls outs b \<longleftrightarrow> (case b of
       None \<Rightarrow> True
     | Some (Semantic c) \<Rightarrow> False
     | Some (Exact c) \<Rightarrow> lru_inv c \<and> (\<forall>k v x. lru_holds c k = Some (v, x) \<longrightarrow> origin st calls outs k v))"

definition exact_cache :: "settings \<Rightarrow> bool" where
  "exact_cache st \<longleftrightarrow> semantic_cache_mode st \<noteq> ''semantic'' \<and> 0 \<le> semantic_cache_max_entries st"

lemma authentic_more:
  "authentic st calls outs b \<Longrightarrow> length outs = length calls \<Longrightarrow> authentic st (calls @ calls') (outs @ outs') b"
  by (auto simp: authentic_def intro: origin_more split: option.splits backend.splits)

lemma authentic_get_cache:
  "exact_cache st \<Longrightarrow> authentic st calls outs b \<Longrightarrow> authentic st calls outs (Some (get_cache st b))"
  by (auto simp: authentic_def get_cache_def exact_cache_def lru_inv_def new_lru_def lru_holds_def
      split: option.splits)

lemma authentic_Exact: "authentic st calls outs (Some b) \<Longrightarrow> \<exists>c. b = Exact c"
  by (cases b) (auto simp: authentic_def)

text \<open>A lookup keeps the invariant, and what it finds has an origin.\<close>

lemma authentic_lookup:
  assumes "authentic st calls outs (Some b)" "lookup_stage st ev body b = (r, b')"
  shows "authentic st calls outs (Some b')
    \<and> (\<exists>found. r = Inr found \<and> (\<forall>v. found = Some v \<longrightarrow>
         origin st calls outs (cache_key (xe_sha ev) (xe_frepr ev) body) v))"
proof -
  obtain c where b: "b = Exact c" using authentic_Exact [OF assms(1)] by blast
  define k where "k = cache_key (xe_sha ev) (xe_frepr ev) body"
  have c: "lru_inv c" "\<And>k v x. lru_holds c k = Some (v, x) \<Longrightarrow> origin st calls outs k v"
    using assms(1) by (auto simp: authentic_def b)
  define v where "v = fst (lru_get (xe_time_get ev) k c)"
  define c' where "c' = snd (lru_get (xe_time_get ev) k c)"
  have r: "r = Inr v" "b' = Exact c'"
    using assms(2) by (simp_all add: lookup_stage_def b k_def v_def c'_def case_prod_unfold Let_def)
  have "lru_inv c'" unfolding c'_def using c(1) by (rule lru.get_inv)
  moreover have "origin st calls outs j w" if "lru_holds c' j = Some (w, x)" for j w x
  proof -
    have "lru_holds c j = Some (w, x)"
      using lru.get_holds [OF c(1), of "xe_time_get ev" k j] that unfolding c'_def by auto
    then show ?thesis by (rule c(2))
  qed
  moreover have "origin st calls outs k w" if found: "v = Some w" for w
  proof -
    obtain x where "lru_holds c k = Some (w, x)"
      using lru.get_result [OF c(1), of "xe_time_get ev" k] found unfolding v_def
      by (auto split: option.splits if_splits)
    then show ?thesis by (rule c(2))
  qed
  ultimately show ?thesis by (auto simp: authentic_def r k_def)
qed

lemma authentic_store:
  assumes "authentic st calls outs (Some b)" "origin st calls outs (cache_key (xe_sha ev) (xe_frepr ev) body) resp"
  shows "authentic st calls outs (Some (store_stage st ev body resp b))"
proof -
  obtain c where b: "b = Exact c" using authentic_Exact [OF assms(1)] by blast
  define k where "k = cache_key (xe_sha ev) (xe_frepr ev) body"
  have c: "lru_inv c" "\<And>k v x. lru_holds c k = Some (v, x) \<Longrightarrow> origin st calls outs k v"
    using assms(1) by (auto simp: authentic_def b)
  define c' where "c' = snd (lru_set (xe_time_set ev) k resp (semantic_cache_ttl_seconds st) c)"
  have "lru_inv c'" unfolding c'_def using c(1) by (rule lru.put_inv)
  moreover have "origin st calls outs j w" if "lru_holds c' j = Some (w, x)" for j w x
  proof (cases "j = k \<and> w = resp")
    case True
    then show ?thesis using assms(2) by (simp add: k_def)
  next
    case False
    then have "lru_holds c j = Some (w, x)"
      using lru.put_holds [OF c(1), of "xe_time_set ev" k resp "semantic_cache_ttl_seconds st" j] that
      unfolding c'_def by (auto split: if_splits)
    then show ?thesis by (rule c(2))
  qed
  ultimately show ?thesis by (auto simp: authentic_def store_stage_def b k_def c'_def)
qed

lemma authentic_missed:
  assumes "exact_cache st" "authentic st calls outs (cache_of s)" "missed st ev body s c"
  shows "authentic st calls outs c"
  using assms authentic_get_cache [OF assms(1,2)] authentic_lookup
  by (auto simp: missed_def split: if_splits)

lemma authentic_step:
  assumes "quiet ev" "wf_registry (registry_of s)" "exact_cache st" "length outs = length calls"
    and "authentic st calls outs (cache_of s)" "chat_completions st ev t body s = (r, s')"
  shows "authentic st (calls @ [(ev, t, body)]) (outs @ [r]) (cache_of s')"
  using assms(1,2,6)
proof (cases rule: chat_completions_cases)
  case forbidden
  then show ?thesis using authentic_more [OF assms(5,4)] by simp
next
  case (upstream c)
  have c: "authentic st (calls @ [(ev, t, body)]) (outs @ [r]) c"
    by (rule authentic_more [OF authentic_missed [OF assms(3,5) upstream(2)] assms(4)])
  obtain res reg' where route: "route (xe_route ev) (fallback_enabled st) (cleaned st body) (xe_start ev) (registry_of s)
      = (res, reg')" by fastforce
  show ?thesis
  proof (cases res)
    case (Inl err)
    with upstream(3) route c show ?thesis by (cases err) (auto simp: upstream_result_def)
  next
    case (Inr resp)
    with upstream(3) route obtain g where g: "gateway resp = Some g" "gm_cache g = CacheMiss"
      "r = Inr (if stream body then EventStream (sse_stream (xe_frepr ev) resp) else Body resp)"
      "cache_of s' = (if semantic_cache_enabled st \<and> \<not> stream body
          then map_option (store_stage st ev (cleaned st body) resp) c else c)"
      by (auto simp: upstream_result_def)
    show ?thesis
    proof (cases "semantic_cache_enabled st \<and> \<not> stream body \<and> c \<noteq> None")
      case True
      then obtain b where b: "c = Some b" by blast
      with authentic_store [OF c [unfolded b], of ev "cleaned st body" resp]
        origin_last [OF assms(4) g(1,2), where ev = ev and st = st and body = body and t = t, OF refl] True g(3,4)
      show ?thesis by simp
    next
      case False
      with g(4) c have "cache_of s' = c" by auto
      with c show ?thesis by simp
    qed
  qed
next
  case (hit cached b cs)
  with authentic_lookup [OF authentic_get_cache [OF assms(3,5)] hit(4)] show ?thesis
    using authentic_more [OF _ assms(4)] by simp
next
  case (broken e b)
  with authentic_lookup [OF authentic_get_cache [OF assms(3,5)] broken(4)] show ?thesis by simp
qed

lemma authentic_run:
  assumes "exact_cache st" "cache_of s = None" "wf_registry (registry_of s)"
  shows "list_all (\<lambda>c. quiet (fst c)) calls \<Longrightarrow> serve_all st calls s = (outs, s') \<Longrightarrow>
     authentic st calls outs (cache_of s')"
proof (induction calls arbitrary: outs s' rule: rev_induct)
  case Nil
  then show ?case using assms(2) by (simp add: authentic_def)
next
  case (snoc call calls)
  obtain ev t body where call: "call = (ev, t, body)" by (cases call) auto
  obtain outs1 s1 where s1: "serve_all st calls s = (outs1, s1)" by fastforce
  obtain r s2 where s2: "chat_completions st ev t body s1 = (r, s2)" by fastforce
  have eq: "outs = outs1 @ [r]" "s' = s2" using snoc.prems(2) by (simp_all add: call serve_all_snoc s1 s2)
  have q: "quiet ev" "list_all (\<lambda>c. quiet (fst c)) calls" using snoc.prems(1) by (simp_all add: call)
  from authentic_step [OF q(1) serve_all_wf [OF assms(3) q(2) s1] assms(1) serve_all_length [OF s1]
      snoc.IH [OF q(2) s1] s2]
  show ?case by (simp add: eq call)
qed

text \<open>
  C10. With the exact cache, no client ever gets an answer made for a different conversation. In
  any sequence of requests of any tenants that starts with an empty cache, every cache hit is
  the fresh answer the router had given to an earlier request of the sequence, with only the
  gateway metadata rewritten, and that request agreed with this one in the model, in the
  sequence of roles and message texts after redaction, and in temperature, token limit and
  top-p. Assumed is that SHA-256 does not collide on the texts hashed in the run and that
  \<open>float.__repr__\<close> is faithful on the sampling parameters used.
\<close>

theorem cache_hits_authentic:
  assumes "exact_cache st" "cache_of s = None" "wf_registry (registry_of s)"
    and "list_all (\<lambda>c. quiet (fst c)) calls" "serve_all st calls s = (outs, s')"
    and "\<And>ev t body. (ev, t, body) \<in> set calls \<Longrightarrow> xe_sha ev = sha \<and> xe_frepr ev = frepr \<and> sampling_in F (cleaned st body)"
    and "frepr_ok F frepr" "inj_on sha ((\<lambda>(ev, t, body). key_blob frepr (cleaned st body)) ` set calls)"
    and "i < length calls" "calls ! i = (ev, t, body)"
    and "outs ! i = Inr (Body resp)" "gateway resp = Some g" "gm_cache g = CacheHit"
  shows "\<exists>j ev' t' body' fresh g'. j < i \<and> calls ! j = (ev', t', body') \<and> outs ! j = Inr (Body fresh)
    \<and> gateway fresh = Some g' \<and> gm_cache g' = CacheMiss \<and> resp = as_hit fresh
    \<and> model body' = model body
    \<and> map (key_part frepr) (messages (cleaned st body')) = map (key_part frepr) (messages (cleaned st body))
    \<and> temperature (cleaned st body') = temperature (cleaned st body)
    \<and> max_tokens (cleaned st body') = max_tokens (cleaned st body)
    \<and> top_p (cleaned st body') = top_p (cleaned st body)"
proof -
  obtain s1 s2 where s1: "serve_all st (take i calls) s = (take i outs, s1)"
    and s2: "chat_completions st ev t body s1 = (outs ! i, s2)"
    by (metis serve_all_nth [OF assms(5,9,10)])
  have q: "list_all (\<lambda>c. quiet (fst c)) (take i calls)"
    using assms(4) by (auto simp: list_all_iff dest: in_set_takeD)
  have inv: "authentic st (take i calls) (take i outs) (cache_of s1)"
    by (rule authentic_run [OF assms(1-3) q s1])
  have mem: "(ev, t, body) \<in> set calls" using assms(9,10) by (metis nth_mem)
  then have "quiet ev" using assms(4) by (auto simp: list_all_iff)
  from this serve_all_wf [OF assms(3) q s1] s2
  obtain v where v: "resp = as_hit v"
    "origin st (take i calls) (take i outs) (cache_key (xe_sha ev) (xe_frepr ev) (cleaned st body)) v"
  proof (cases rule: chat_completions_cases)
    case (upstream c)
    with assms(11-13) show ?thesis
      by (auto simp: upstream_result_def split: prod.splits sum.splits route_error.splits if_splits)
  next
    case (hit cached b cs)
    from authentic_lookup [OF authentic_get_cache [OF assms(1) inv] hit(4)] hit(5) assms(11) that
    show ?thesis by auto
  qed (use assms(11) in auto)
  from v(2) obtain j ev' t' body' g' where j: "j < i" "calls ! j = (ev', t', body')" "outs ! j = Inr (Body v)"
    "gateway v = Some g'" "gm_cache g' = CacheMiss"
    "cache_key (xe_sha ev') (xe_frepr ev') (cleaned st body') = cache_key (xe_sha ev) (xe_frepr ev) (cleaned st body)"
    unfolding origin_def by auto
  then have mem': "(ev', t', body') \<in> set calls" using assms(9) by (metis nth_mem order.strict_trans)
  note e = assms(6) [OF mem] and e' = assms(6) [OF mem']
  have "inj_on sha {key_blob frepr (cleaned st body'), key_blob frepr (cleaned st body)}"
    by (rule inj_on_subset [OF assms(8)]) (use mem mem' in force)
  from cache_keys_agree [OF assms(7) _ _ this] e e' j(6) v(1) j(1-5) show ?thesis by auto
qed

section \<open>What the providers see\<close>

text \<open>A conversation none of whose text messages has a match of a pattern.\<close>

definition clean_request :: "chat_request \<Rightarrow> bool" where
  "clean_request req \<longleftrightarrow> list_all (\<lambda>m. case content m of Text t \<Rightarrow> clean t | Parts ps \<Rightarrow> True) (messages req)"

text \<open>Providers that would raise if they ever got a request that is not clean.\<close>

definition watched :: "entry \<Rightarrow> entry" where
  "watched e = e\<lparr>eprovider := (eprovider e)\<lparr>chat := (\<lambda>n req m.
     if clean_request req then chat (eprovider e) n req m else Unexpected AssertionError)\<rparr>\<rparr>"

definition censor :: "registry \<Rightarrow> registry" where
  "censor reg = map (\<lambda>(k, e). (k, watched e)) reg"

lemma censor_simps [simp]: "censor [] = []" "censor ((k, e) # reg) = (k, watched e) # censor reg"
  by (simp_all add: censor_def)

lemma watched_breaker [simp]: "watched (e\<lparr>ebreaker := b\<rparr>) = (watched e)\<lparr>ebreaker := b\<rparr>"
  by (cases e) (simp add: watched_def cong: if_cong)

lemma watched_fields [simp]:
  "ebreaker (watched e) = ebreaker e" "pname (eprovider (watched e)) = pname (eprovider e)"
  "supports_model (eprovider (watched e)) = supports_model (eprovider e)"
  "list_models (eprovider (watched e)) = list_models (eprovider e)"
  "default_model (eprovider (watched e)) = default_model (eprovider e)"
  "clean_request req \<Longrightarrow> chat (eprovider (watched e)) n req m = chat (eprovider e) n req m"
  by (simp_all add: watched_def)

lemma auto_choice_watched [simp]: "auto_choice (eprovider (watched e)) = auto_choice (eprovider e)"
  by (simp add: auto_choice_def)

lemma censor_get: "get_entry (censor reg) k = map_option watched (get_entry reg k)"
  by (simp add: get_entry_def censor_def map_of_map)

lemma censor_set_breaker: "set_breaker k b (censor reg) = censor (set_breaker k b reg)"
  by (induction reg) (auto simp: set_breaker_def censor_def)

lemma censor_poll:
  assumes "\<And>e. P (watched e) = P e"
  shows "poll clk P n (censor reg) =
    (case poll clk P n reg of (out, reg', n') \<Rightarrow> (map watched out, censor reg', n'))"
proof (induction reg arbitrary: n)
  case Nil
  then show ?case by (simp add: poll.simps)
next
  case (Cons ke es)
  obtain k e where ke: "ke = (k, e)" by (cases ke) auto
  show ?case
    by (cases "P e") (simp_all add: ke poll.simps assms Cons.IH case_prod_unfold Let_def)
qed

lemma censor_candidates:
  "candidates_of m (map watched es) = candidates_of m es"
proof -
  have "auto_candidates (map watched es) = auto_candidates es"
    by (simp add: auto_candidates_def comp_def cong: option.case_cong if_cong)
  moreover have "priced_candidates (map watched es) = priced_candidates es"
    by (simp add: priced_candidates_def comp_def cong: option.case_cong if_cong)
  ultimately show ?thesis by (simp add: candidates_of_def comp_def)
qed

lemma censor_chain:
  "resolve_chain clk m fb n (censor reg) =
    (case resolve_chain clk m fb n reg of (chain, reg', n') \<Rightarrow> (chain, censor reg', n'))"
proof -
  have "polled m (watched e) = polled m e" for e by (simp add: polled_def)
  from censor_poll [of "polled m", OF this] show ?thesis
    by (simp add: resolve_chain_eq censor_candidates split: prod.split)
qed

lemma censor_loop:
  assumes "clean_request req"
  shows "route_loop renv req st chain att le n (censor reg) =
    (case route_loop renv req st chain att le n reg of (r, reg') \<Rightarrow> (r, censor reg'))"
proof (induction chain arbitrary: att le n reg)
  case Nil
  then show ?case by (simp add: route_loop.simps)
next
  case (Cons c chain)
  obtain p x where c: "c = (p, x)" by (cases c) auto
  show ?case
  proof (cases "get_entry reg p")
    case None
    then show ?thesis by (simp add: c route_loop.simps censor_get Cons.IH)
  next
    case (Some e)
    obtain ok b where a: "allow (mono renv n) (ebreaker e) = (ok, b)" by fastforce
    show ?thesis
    proof (cases "chat (eprovider e) (n + 1) req x")
      case (Ok r)
      with Some a assms show ?thesis
        by (simp add: c route_loop.simps censor_get censor_set_breaker Cons.IH Let_def)
    next
      case (Raised err)
      with Some a assms show ?thesis
        by (simp add: c route_loop.simps censor_get censor_set_breaker Cons.IH Let_def)
    next
      case (Unexpected exc)
      with Some a assms show ?thesis
        by (simp add: c route_loop.simps censor_get censor_set_breaker Cons.IH Let_def)
    qed
  qed
qed

lemma censor_route:
  assumes "clean_request req"
  shows "route renv fb req n (censor reg) = (case route renv fb req n reg of (r, reg') \<Rightarrow> (r, censor reg'))"
  by (auto simp: route_def censor_chain censor_loop [OF assms] Let_def split: prod.split)

lemma cleaned_clean:
  assumes "guardrails_enabled st" "guardrails_redact_pii st"
  shows "clean_request (cleaned st body)"
proof -
  have "apply_to_messages ms True = (map redact_message ms, dedup_by (\<lambda>d. d) [] (concat (map detected_in ms)))" for ms
    by (simp add: apply_to_messages_def apply_loop_redact)
  then show ?thesis
    using assms redact_pii_facts(1)
    by (auto simp: cleaned_def guard_stage_def clean_request_def list_all_iff redact_message_def split: content.split)
qed

lemma record_stage_registry:
  "record_stage ev t body resp (s\<lparr>registry_of := reg\<rparr>) =
    (case record_stage ev t body resp s of (r, s') \<Rightarrow> (r, s'\<lparr>registry_of := reg\<rparr>))"
  by (auto simp: record_stage_def emit_metrics_def Let_def split: option.split prod.split sum.split)

lemma record_stage_keeps_registry:
  "registry_of (snd (record_stage ev t body resp s)) = registry_of s"
  by (auto simp: record_stage_def emit_metrics_def Let_def split: option.split prod.split sum.split)

definition watch :: "app_state \<Rightarrow> app_state" where
  "watch s = s\<lparr>registry_of := censor (registry_of s)\<rparr>"

lemma record_stage_watch:
  "record_stage ev t body resp (watch s) =
    (case record_stage ev t body resp s of (r, s') \<Rightarrow> (r, watch s'))"
  using record_stage_keeps_registry [of ev t body resp s]
  by (auto simp: watch_def record_stage_registry split: prod.split)

lemma censor_upstream:
  assumes "clean_request body"
  shows "upstream_stage st ev t body (watch s) = (case upstream_stage st ev t body s of (r, s') \<Rightarrow> (r, watch s'))"
proof -
  obtain res reg' where route: "route (xe_route ev) (fallback_enabled st) body (xe_start ev) (registry_of s)
      = (res, reg')" by fastforce
  have route': "route (xe_route ev) (fallback_enabled st) body (xe_start ev) (registry_of (watch s))
      = (res, censor reg')" by (simp add: watch_def censor_route [OF assms] route)
  have upd: "(watch s)\<lparr>registry_of := censor reg'\<rparr> = watch (s\<lparr>registry_of := reg'\<rparr>)" by (simp add: watch_def)
  show ?thesis
  proof (cases res)
    case (Inl err)
    then show ?thesis by (cases err) (simp_all add: upstream_stage_def route route' upd)
  next
    case (Inr resp)
    have "stored st ev body resp (censor reg') (watch s) = watch (stored st ev body resp reg' s)"
      by (simp add: stored_def watch_def Let_def)
    then show ?thesis
      unfolding upstream_answered [OF route [unfolded Inr]] upstream_answered [OF route' [unfolded Inr]]
      by (simp add: record_stage_watch split: prod.split sum.split)
  qed
qed

lemma watch_fields [simp]:
  "cache_of (watch s) = cache_of s" "metrics_of (watch s) = metrics_of s"
  "(watch s)\<lparr>cache_of := c\<rparr> = watch (s\<lparr>cache_of := c\<rparr>)"
  "(watch s)\<lparr>metrics_of := ms\<rparr> = watch (s\<lparr>metrics_of := ms\<rparr>)"
  by (simp_all add: watch_def)

lemma emit_metrics_watch:
  "emit_metrics ev cs (watch s) = (case emit_metrics ev cs s of (r, s') \<Rightarrow> (r, watch s'))"
  by (simp add: emit_metrics_def split: prod.split)

lemma serve_hit_watch:
  "serve_hit ev t body cached (watch s) = (case serve_hit ev t body cached s of (r, s') \<Rightarrow> (r, watch s'))"
  by (auto simp: serve_hit_def emit_metrics_watch Let_def split: option.split prod.split sum.split)

lemma cached_stage_watch:
  assumes "clean_request body"
  shows "cached_stage st ev t body (watch s) = (case cached_stage st ev t body s of (r, s') \<Rightarrow> (r, watch s'))"
proof -
  obtain lk b where lk: "lookup_stage st ev body (get_cache st (cache_of s)) = (lk, b)" by fastforce
  show ?thesis
    by (cases lk)
       (auto simp: cached_stage_def lk censor_upstream [OF assms] serve_hit_watch Let_def
          split: option.split prod.split)
qed

text \<open>
  C11. With redaction on, no provider ever sees a match of a PII pattern in a text message:
  replace every registered provider by one that raises as soon as it is given a conversation
  with such a message, and every request of every tenant gets the same response, and leaves
  the same state, as with the original providers.
\<close>

theorem pii_never_reaches_providers:
  assumes "guardrails_enabled st" "guardrails_redact_pii st"
  shows "chat_completions st ev t body (watch s) =
    (case chat_completions st ev t body s of (r, s') \<Rightarrow> (r, watch s'))"
proof (cases "model_allowed t (model body)")
  case True
  define cs where "cs = map (\<lambda>l. Inc GuardrailEvents [tid t, l] 1) (snd (guard_stage st body))"
  have "chat_completions st ev t body s = (case emit_metrics ev cs s of
      (r, s1) \<Rightarrow> (case r of Inl e \<Rightarrow> (Inl (Internal e), s1) | Inr u \<Rightarrow> cached_stage st ev t (cleaned st body) s1))" for s
    using True by (simp add: chat_completions_def cs_def cleaned_def case_prod_unfold Let_def split: sum.split)
  then show ?thesis
    using cached_stage_watch [OF cleaned_clean [OF assms]]
    by (simp add: emit_metrics_watch split: prod.split sum.split)
qed (simp add: chat_completions_def)

section \<open>The properties at concrete requests\<close>

definition demo_app_env :: app_env where
  "demo_app_env = \<lparr>xe_route = demo_env, xe_start = 0, xe_time_get = 1, xe_time_set = 1, xe_mono = (\<lambda>_. 1),
     xe_utc = Datetime 2026 3 1 0 0 0 0, xe_sha = (\<lambda>s. s), xe_blake = size, xe_frepr = (\<lambda>_. ''0.5''),
     xe_db_fails = None, xe_sink = (\<lambda>_. None), xe_recording = False, xe_accepts = (\<lambda>_. True)\<rparr>"

definition demo_app_state :: app_state where
  "demo_app_state = \<lparr>keystore_of = Some demo_keys, limiter_of = [], budget_of = new_mtd_cache, usage_of = [],
     registry_of = demo_down, cache_of = None, metrics_of = [], spans_of = []\<rparr>"

abbreviation "cache_on \<equiv> default_settings\<lparr>semantic_cache_enabled := True\<rparr>"
abbreviation "guard_on \<equiv> default_settings\<lparr>guardrails_enabled := True\<rparr>"

lemma demo_quiet: "quiet demo_app_env" "wf_registry (registry_of demo_app_state)"
  using wf_demo_registry by (simp_all add: quiet_def demo_app_env_def demo_app_state_def)

lemma demo_model_allowed: "model_allowed demo_tenant m"
  by (simp add: model_allowed_def demo_tenant_def new_tenant_def)

lemma demo_stream: "stream demo_req = False"
  by (simp add: plain_request_def)

text \<open>The demo request, answered by the second provider.\<close>

lemma demo_answered:
  assumes "\<not> guardrails_enabled st" "\<not> semantic_cache_enabled st" "fallback_enabled st"
  obtains resp s' where "chat_completions st demo_app_env demo_tenant demo_req demo_app_state = (Inr (Body resp), s')"
proof -
  obtain r s' where c: "chat_completions st demo_app_env demo_tenant demo_req demo_app_state = (r, s')" by fastforce
  obtain resp reg' where route: "route demo_env True demo_req 0 demo_down = (Inr resp, reg')"
    using demo_down_answered by blast
  have body: "cleaned st demo_req = demo_req" using assms(1) by (simp add: cleaned_def guard_stage_def)
  from demo_quiet c show thesis
  proof (cases rule: chat_completions_cases)
    case forbidden
    then show ?thesis using demo_model_allowed by blast
  next
    case (upstream cc)
    then have "r = Inr (Body resp)"
      using assms(3) route demo_stream
      by (auto simp: upstream_result_def body demo_app_env_def demo_app_state_def)
    with c that show ?thesis by blast
  qed (use assms(2) in auto)
qed


theorem books_agree_witness:
  "\<exists>rs s'. serve_all default_settings [(demo_app_env, demo_tenant, demo_req), (demo_app_env, demo_tenant, demo_req)] demo_app_state
      = (rs, s') \<and> total Cost ''a'' (metrics_of s') = sum_cost (rows_of ''a'' (usage_of s'))"
proof -
  obtain rs s' where s: "serve_all default_settings
      [(demo_app_env, demo_tenant, demo_req), (demo_app_env, demo_tenant, demo_req)] demo_app_state = (rs, s')"
    by fastforce
  from books_agree [OF _ demo_quiet(2) _ _ s, of "''a''"] demo_quiet(1) s show ?thesis
    by (simp add: demo_app_env_def demo_app_state_def)
qed

theorem pii_never_reaches_providers_witness:
  "fst (chat_completions guard_on demo_app_env demo_tenant demo_req (watch demo_app_state))
     = fst (chat_completions guard_on demo_app_env demo_tenant demo_req demo_app_state)"
  using pii_never_reaches_providers [of guard_on demo_app_env demo_tenant demo_req demo_app_state]
  by (simp add: default_settings_def split: prod.splits)

text \<open>The same request twice: the second answer comes from the cache.\<close>

lemma demo_first:
  "\<exists>resp s1 c. chat_completions cache_on demo_app_env demo_tenant demo_req demo_app_state = (Inr (Body resp), s1)
    \<and> cache_of s1 = Some (Exact c) \<and> fst (lru_get 1 (cache_key (\<lambda>s. s) (\<lambda>_. ''0.5'') demo_req) c) = Some resp
    \<and> wf_registry (registry_of s1)"
proof -
  define k where "k = cache_key (\<lambda>s. s) (\<lambda>_. ''0.5'') demo_req"
  have body: "cleaned cache_on demo_req = demo_req"
    by (simp add: cleaned_def guard_stage_def default_settings_def)
  have b: "get_cache cache_on (cache_of demo_app_state) = Exact (new_lru 1000)"
    by (simp add: get_cache_def demo_app_state_def default_settings_def)
  have lk: "lookup_stage cache_on demo_app_env demo_req (Exact (new_lru 1000)) = (Inr None, Exact (new_lru 1000))"
    by (simp add: lookup_stage_def demo_app_env_def lru_get_def new_lru_def)
  obtain r s1 where c: "chat_completions cache_on demo_app_env demo_tenant demo_req demo_app_state = (r, s1)"
    by fastforce
  obtain resp reg' where route: "route demo_env True demo_req 0 demo_down = (Inr resp, reg')"
    using demo_down_answered by blast
  from demo_quiet c show ?thesis
  proof (cases rule: chat_completions_cases)
    case forbidden
    then show ?thesis using demo_model_allowed by blast
  next
    case (upstream cc)
    have en: "semantic_cache_enabled cache_on" "fallback_enabled cache_on" by (simp_all add: default_settings_def)
    have cc: "cc = Some (Exact (new_lru 1000))"
      using upstream(2) en(1) demo_stream by (simp add: missed_def b body lk)
    have "r = Inr (Body resp)" "cache_of s1 = Some (store_stage cache_on demo_app_env demo_req resp (Exact (new_lru 1000)))"
      using upstream(3) en route demo_stream
      by (auto simp: upstream_result_def body demo_app_env_def demo_app_state_def cc)
    moreover have "store_stage cache_on demo_app_env demo_req resp (Exact (new_lru 1000))
        = Exact (snd (lru_set 1 k resp 3600 (new_lru 1000)))"
      by (simp add: store_stage_def demo_app_env_def k_def default_settings_def)
    moreover have "fst (lru_get 1 k (snd (lru_set 1 k resp 3600 (new_lru 1000)))) = Some resp"
      by (simp add: lru_get_def lru_set_def new_lru_def move_to_end_def plain_entry_def)
    ultimately show ?thesis using c upstream(4) by (simp add: k_def)
  next
    case (hit cached b' cs)
    then show ?thesis by (simp add: b body lk)
  next
    case (broken e b')
    then show ?thesis by (simp add: b body lk)
  qed
qed

lemma demo_twice:
  "\<exists>outs s' resp g. serve_all cache_on [(demo_app_env, demo_tenant, demo_req), (demo_app_env, demo_tenant, demo_req)]
      demo_app_state = (outs, s') \<and> outs ! 1 = Inr (Body resp) \<and> gateway resp = Some g \<and> gm_cache g = CacheHit"
proof -
  obtain resp s1 c where f: "chat_completions cache_on demo_app_env demo_tenant demo_req demo_app_state = (Inr (Body resp), s1)"
    "cache_of s1 = Some (Exact c)" "fst (lru_get 1 (cache_key (\<lambda>s. s) (\<lambda>_. ''0.5'') demo_req) c) = Some resp"
    "wf_registry (registry_of s1)"
    using demo_first by blast
  obtain r s2 where c2: "chat_completions cache_on demo_app_env demo_tenant demo_req s1 = (r, s2)" by fastforce
  have body: "cleaned cache_on demo_req = demo_req"
    by (simp add: cleaned_def guard_stage_def default_settings_def)
  have lk: "fst (lookup_stage cache_on demo_app_env demo_req (get_cache cache_on (cache_of s1))) = Inr (Some resp)"
    using f(3) by (simp add: lookup_stage_def get_cache_def f(2) demo_app_env_def case_prod_unfold Let_def)
  have en: "semantic_cache_enabled cache_on" by (simp add: default_settings_def)
  obtain g where g: "gateway resp = Some g"
  proof -
    from demo_quiet f(1) show thesis
    proof (cases rule: chat_completions_cases)
      case (upstream cc)
      then show thesis using that demo_stream
        by (auto simp: upstream_result_def split: prod.splits sum.splits route_error.splits)
    next
      case (hit cached b' cs)
      moreover have "fst (lookup_stage cache_on demo_app_env demo_req (get_cache cache_on None)) = Inr None"
        by (simp add: get_cache_def lookup_stage_def demo_app_env_def lru_get_def new_lru_def default_settings_def)
      ultimately show thesis by (simp add: body demo_app_state_def)
    qed auto
  qed
  have "r = Inr (Body (as_hit resp))"
    using demo_quiet(1) f(4) c2
  proof (cases rule: chat_completions_cases)
    case forbidden
    then show ?thesis using demo_model_allowed by blast
  next
    case (upstream cc)
    then show ?thesis using lk en demo_stream by (auto simp: missed_def body)
  qed (use lk in \<open>auto simp: body\<close>)
  with f(1) c2 g show ?thesis by (simp add: as_hit_def)
qed

theorem cache_hits_authentic_witness:
  "\<exists>outs s' fresh. serve_all cache_on [(demo_app_env, demo_tenant, demo_req), (demo_app_env, demo_tenant, demo_req)]
      demo_app_state = (outs, s') \<and> outs ! 0 = Inr (Body fresh) \<and> outs ! 1 = Inr (Body (as_hit fresh))"
proof -
  obtain outs s' resp g where r: "serve_all cache_on [(demo_app_env, demo_tenant, demo_req), (demo_app_env, demo_tenant, demo_req)]
      demo_app_state = (outs, s')" "outs ! 1 = Inr (Body resp)" "gateway resp = Some g" "gm_cache g = CacheHit"
    using demo_twice by blast
  have e: "exact_cache cache_on" "cache_of demo_app_state = None"
    by (simp_all add: exact_cache_def default_settings_def demo_app_state_def)
  have s: "xe_sha demo_app_env = (\<lambda>s. s) \<and> xe_frepr demo_app_env = (\<lambda>_. ''0.5'') \<and> sampling_in {} (cleaned cache_on demo_req)"
    by (simp add: demo_app_env_def cleaned_def guard_stage_def default_settings_def sampling_in_def plain_request_def)
  have "\<exists>j ev' t' body' fresh g'. j < (1 :: nat)
      \<and> [(demo_app_env, demo_tenant, demo_req), (demo_app_env, demo_tenant, demo_req)] ! j = (ev', t', body')
      \<and> outs ! j = Inr (Body fresh) \<and> gateway fresh = Some g' \<and> gm_cache g' = CacheMiss \<and> resp = as_hit fresh"
    using cache_hits_authentic [OF e demo_quiet(2) _ r(1) _ frepr_ok_empty _ _ _ r(2-4), where sha = "\<lambda>s. s" and frepr = "\<lambda>_. ''0.5''"]
      demo_quiet(1) s by (simp add: inj_on_def)
  with r(1,2) show ?thesis by auto
qed

end
