(* ===== verification/Admin.thy ===== *)
theory Admin
  imports Auth
begin

text \<open>
  \<open>api/admin.py\<close>: the operator's endpoints. They work on the key store and the usage table of the
  process state; each first runs the dependency that checks the \<open>X-Admin-Key\<close> header.
\<close>

section \<open>The endpoints\<close>

definition require_admin :: "settings \<Rightarrow> string option \<Rightarrow> api_error + unit" where
  "require_admin st key =
     (if \<not> given (admin_api_key st) then Inl (http_error 403 AdminDisabled [])
      else if key \<noteq> admin_api_key st then Inl (http_error 401 BadAdminKey [])
      else Inr ())"

record create_tenant_request =
  ct_id :: tenant_id
  ct_name :: string
  ct_rpm_limit :: int
  ct_tpm_limit :: int
  ct_monthly_budget_usd :: "usd option"
  ct_allowed_models :: "model_id list option"

text \<open>The \<open>Field\<close> constraints pydantic enforces before the handler runs.\<close>

definition create_request_ok :: "create_tenant_request \<Rightarrow> bool" where
  "create_request_ok r \<longleftrightarrow> 1 \<le> length (ct_id r) \<and> length (ct_id r) \<le> 64"

record create_key_response =
  ck_tenant_id :: tenant_id
  ck_api_key :: string
  ck_label :: string

record tenant_summary =
  ts_id :: tenant_id
  ts_name :: string
  ts_rpm_limit :: int
  ts_tpm_limit :: int
  ts_monthly_budget_usd :: "usd option"

record usage_summary_item =
  us_tenant_id :: tenant_id
  us_requests :: int
  us_total_tokens :: int
  us_cost_usd :: usd

record model_usage_item =
  mu_upstream_model :: model_id
  mu_requests :: int
  mu_cost_usd :: usd

record recent_usage_item =
  ru_ts :: datetime
  ru_request_id :: string
  ru_tenant_id :: tenant_id
  ru_requested_model :: model_id
  ru_upstream_provider :: string
  ru_upstream_model :: model_id
  ru_prompt_tokens :: int
  ru_completion_tokens :: int
  ru_cost_usd :: "usd option"
  ru_latency_ms :: real
  ru_cache_status :: cache_status
  ru_fallback_used :: bool

text \<open>\<open>get_keystore()\<close> on the process state, then the handler's work on the store.\<close>

definition with_keystore ::
  "auth_env \<Rightarrow> (keystore \<Rightarrow> 'r \<times> keystore) \<Rightarrow> 'a auth_state_scheme \<Rightarrow> (api_error + 'r) \<times> 'a auth_state_scheme"
where
  "with_keystore ae f s =
     (case get_keystore (ae_hash ae) (ae_environ ae) (keystore_of s) of
        (Inl e, kst) \<Rightarrow> (Inl (Internal e), s\<lparr>keystore_of := kst\<rparr>)
      | (Inr ks, kst) \<Rightarrow> (let (r, ks') = f ks in (Inr r, s\<lparr>keystore_of := Some ks'\<rparr>)))"

definition requested_tenant :: "create_tenant_request \<Rightarrow> tenant" where
  "requested_tenant req = (new_tenant (ct_id req) (ct_name req))\<lparr>rpm_limit := ct_rpm_limit req,
     tpm_limit := ct_tpm_limit req, monthly_budget_usd := ct_monthly_budget_usd req,
     allowed_models := ct_allowed_models req\<rparr>"

definition create_tenant ::
  "settings \<Rightarrow> auth_env \<Rightarrow> string \<Rightarrow> string option \<Rightarrow> create_tenant_request \<Rightarrow> 'a auth_state_scheme
     \<Rightarrow> (api_error + create_key_response) \<times> 'a auth_state_scheme"
where
  "create_tenant st ae token key req s = (case require_admin st key of
       Inl e \<Rightarrow> (Inl e, s)
     | Inr u \<Rightarrow> with_keystore ae (\<lambda>ks.
         let t = requested_tenant req; (plaintext, ks') = create_key (ae_hash ae) token t ''default'' ks
         in (\<lparr>ck_tenant_id = tid t, ck_api_key = plaintext, ck_label = ''default''\<rparr>, ks')) s)"

definition list_tenants_endpoint ::
  "settings \<Rightarrow> auth_env \<Rightarrow> string option \<Rightarrow> 'a auth_state_scheme
     \<Rightarrow> (api_error + tenant_summary list) \<times> 'a auth_state_scheme"
where
  "list_tenants_endpoint st ae key s = (case require_admin st key of
       Inl e \<Rightarrow> (Inl e, s)
     | Inr u \<Rightarrow> with_keystore ae (\<lambda>ks.
         (map (\<lambda>t. \<lparr>ts_id = tid t, ts_name = tname t, ts_rpm_limit = rpm_limit t,
             ts_tpm_limit = tpm_limit t, ts_monthly_budget_usd = monthly_budget_usd t\<rparr>) (list_tenants ks), ks)) s)"

definition revoke_tenant_keys ::
  "settings \<Rightarrow> auth_env \<Rightarrow> string option \<Rightarrow> tenant_id \<Rightarrow> 'a auth_state_scheme
     \<Rightarrow> (api_error + tenant_id \<times> int) \<times> 'a auth_state_scheme"
where
  "revoke_tenant_keys st ae key i s = (case require_admin st key of
       Inl e \<Rightarrow> (Inl e, s)
     | Inr u \<Rightarrow> with_keystore ae (\<lambda>ks. let (n, ks') = revoke_tenant i ks in ((i, n), ks')) s)"

definition usage_by_tenant_endpoint ::
  "settings \<Rightarrow> auth_env \<Rightarrow> string option \<Rightarrow> 'a auth_state_scheme
     \<Rightarrow> (api_error + usage_summary_item list) \<times> 'a auth_state_scheme"
where
  "usage_by_tenant_endpoint st ae key s = (case require_admin st key of
       Inl e \<Rightarrow> (Inl e, s)
     | Inr u \<Rightarrow> (Inr (map (\<lambda>r. \<lparr>us_tenant_id = tu_tenant_id r, us_requests = tu_requests r,
           us_total_tokens = tu_total_tokens r, us_cost_usd = tu_cost_usd r\<rparr>)
         (usage_by_tenant (ae_utc ae) None (usage_of s))), s))"

definition usage_by_model_endpoint ::
  "settings \<Rightarrow> auth_env \<Rightarrow> string option \<Rightarrow> 'a auth_state_scheme
     \<Rightarrow> (api_error + model_usage_item list) \<times> 'a auth_state_scheme"
where
  "usage_by_model_endpoint st ae key s = (case require_admin st key of
       Inl e \<Rightarrow> (Inl e, s)
     | Inr u \<Rightarrow> (Inr (map (\<lambda>(m, c, cost). \<lparr>mu_upstream_model = m, mu_requests = c, mu_cost_usd = cost\<rparr>)
         (usage_by_model (ae_utc ae) None (usage_of s))), s))"

definition recent_item :: "usage_record \<Rightarrow> recent_usage_item" where
  "recent_item r = \<lparr>ru_ts = ur_ts r, ru_request_id = ur_request_id r, ru_tenant_id = ur_tenant_id r,
     ru_requested_model = ur_requested_model r, ru_upstream_provider = ur_upstream_provider r,
     ru_upstream_model = ur_upstream_model r, ru_prompt_tokens = ur_prompt_tokens r,
     ru_completion_tokens = ur_completion_tokens r, ru_cost_usd = ur_cost_usd r,
     ru_latency_ms = ur_latency_ms r, ru_cache_status = ur_cache_status r,
     ru_fallback_used = ur_fallback_used r\<rparr>"

definition clamp_limit :: "int \<Rightarrow> int" where
  "clamp_limit limit = max 1 (min limit 500)"

definition usage_recent ::
  "settings \<Rightarrow> string option \<Rightarrow> int \<Rightarrow> 'a auth_state_scheme
     \<Rightarrow> (api_error + recent_usage_item list) \<times> 'a auth_state_scheme"
where
  "usage_recent st key limit s = (case require_admin st key of
       Inl e \<Rightarrow> (Inl e, s)
     | Inr u \<Rightarrow> (Inr (map recent_item (recent (nat (clamp_limit limit)) (usage_of s))), s))"

section \<open>Facts\<close>

text \<open>The endpoints under one name, for what holds of all of them; the answers are forgotten.\<close>

datatype admin_op = CreateTenant string create_tenant_request | ListTenants | RevokeKeys tenant_id
  | UsageByTenant | UsageByModel | UsageRecent int

fun admin_call ::
  "settings \<Rightarrow> auth_env \<Rightarrow> string option \<Rightarrow> admin_op \<Rightarrow> 'a auth_state_scheme \<Rightarrow> (api_error + unit) \<times> 'a auth_state_scheme"
where
  "admin_call st ae key (CreateTenant token req) s =
     map_prod (map_sum id (\<lambda>_. ())) id (create_tenant st ae token key req s)"
| "admin_call st ae key ListTenants s = map_prod (map_sum id (\<lambda>_. ())) id (list_tenants_endpoint st ae key s)"
| "admin_call st ae key (RevokeKeys i) s = map_prod (map_sum id (\<lambda>_. ())) id (revoke_tenant_keys st ae key i s)"
| "admin_call st ae key UsageByTenant s = map_prod (map_sum id (\<lambda>_. ())) id (usage_by_tenant_endpoint st ae key s)"
| "admin_call st ae key UsageByModel s = map_prod (map_sum id (\<lambda>_. ())) id (usage_by_model_endpoint st ae key s)"
| "admin_call st ae key (UsageRecent n) s = map_prod (map_sum id (\<lambda>_. ())) id (usage_recent st key n s)"

lemmas admin_defs = create_tenant_def list_tenants_endpoint_def revoke_tenant_keys_def
  usage_by_tenant_endpoint_def usage_by_model_endpoint_def usage_recent_def

lemma with_keystore_no_http: "map_sum id f (fst (with_keystore ae g s)) \<noteq> Inl (Http h)"
  by (auto simp: with_keystore_def Let_def split: prod.split sum.split)

lemma require_admin_cases:
  "require_admin st key = (if given (admin_api_key st) \<and> key = admin_api_key st then Inr ()
     else Inl (if given (admin_api_key st) then http_error 401 BadAdminKey [] else http_error 403 AdminDisabled []))"
  by (simp add: require_admin_def)

lemma with_keystore_loaded:
  "keystore_of s = Some ks \<Longrightarrow> with_keystore ae f s = (let (r, ks') = f ks in (Inr r, s\<lparr>keystore_of := Some ks'\<rparr>))"
  by (simp add: with_keystore_def get_keystore_def)

lemma generate_key_given: "given (Some (generate_key token i))"
  by (simp add: generate_key_def)

lemma tid_requested [simp]: "tid (requested_tenant req) = ct_id req"
  by (simp add: requested_tenant_def new_tenant_def)

section \<open>Properties\<close>


text \<open>
  C19. The life of a key. The key \<open>create_tenant\<close> hands out authenticates from then on the tenant
  with exactly the requested name, limits, budget and models, subject to its limits and budget
  only; once the operator has revoked the tenant's keys it is answered 401, without touching
  any limiter or budget.
\<close>

theorem key_lifecycle:
  assumes "auth_enabled st" "given (admin_api_key st)" "keystore_of s = Some ks"
    and "create_tenant st ae token (admin_api_key st) req s = (Inr resp, s1)"
    and "revoke_tenant_keys st ae (admin_api_key st) (ct_id req) s1 = (Inr (i, n), s2)"
    and "t = (new_tenant (ct_id req) (ct_name req))\<lparr>rpm_limit := ct_rpm_limit req,
      tpm_limit := ct_tpm_limit req, monthly_budget_usd := ct_monthly_budget_usd req,
      allowed_models := ct_allowed_models req\<rparr>"
  shows "(\<forall>t'. fst (get_current_tenant st ae (Some (ck_api_key resp)) s1) = Inr t' \<longleftrightarrow>
        t' = t \<and> \<not> crashes ae t s1 \<and> verdict_on ae t s1 = 200)
    \<and> 1 \<le> n \<and> get_current_tenant st ae (Some (ck_api_key resp)) s2 = (Inl (http_error 401 InvalidKey []), s2)"
proof -
  define k where "k = generate_key token (ct_id req)"
  define ks1 where "ks1 = add_existing (ae_hash ae) k t ''default'' ks"
  have t: "requested_tenant req = t" by (simp add: requested_tenant_def assms(6))
  have adm: "require_admin st (admin_api_key st) = Inr ()" using assms(2) by (simp add: require_admin_def)
  have s1: "ck_api_key resp = k" "s1 = s\<lparr>keystore_of := Some ks1\<rparr>"
    using assms(4) by (auto simp: create_tenant_def adm with_keystore_loaded [OF assms(3)] create_key_eq t
        k_def ks1_def case_prod_unfold Let_def simp flip: tid_requested)
  have l1: "lookup (ae_hash ae) k ks1 = Some (new_record (ae_hash ae k) t ''default'')"
    by (simp add: ks1_def lookup_add_existing)
  have "given (Some k)" unfolding k_def by (rule generate_key_given)
  note stages = get_current_tenant_stages [OF assms(1) _ this, where ae = ae]
  have ks1: "keystore_of s1 = Some ks1" by (simp add: s1)
  have "get_current_tenant st ae (Some k) s1 = request_stage ae t s1"
    by (simp add: stages [OF ks1] l1 new_record_def)
  moreover have ks2: "keystore_of s2 = Some (snd (revoke_tenant (ct_id req) ks1))" "n = fst (revoke_tenant (ct_id req) ks1)"
    using assms(5) by (auto simp: revoke_tenant_keys_def adm with_keystore_loaded [OF ks1] case_prod_unfold Let_def)
  have "tid t = ct_id req" by (simp add: assms(6) new_tenant_def)
  then have "lookup (ae_hash ae) k (snd (revoke_tenant (ct_id req) ks1)) = None"
    by (simp add: lookup_revoke_tenant l1 new_record_def)
  moreover have "1 \<le> n"
  proof -
    have "(ae_hash ae k, new_record (ae_hash ae k) t ''default'') \<in> set ks1"
      using l1 by (auto simp: lookup_def dest: map_of_SomeD split: option.splits if_splits)
    then have "filter (\<lambda>(h, r). tid (ktenant r) = ct_id req \<and> \<not> revoked r) ks1 \<noteq> []"
      using \<open>tid t = ct_id req\<close> by (force simp: filter_empty_conv new_record_def)
    then show ?thesis by (simp add: ks2(2) revoke_tenant_eq Suc_le_eq)
  qed
  ultimately show ?thesis
    using stages [OF ks2(1)] by (simp add: s1(1) request_stage_Inr)
qed

theorem key_lifecycle_witness:
  "\<exists>resp s1 i n s2. create_tenant (auth_on\<lparr>admin_api_key := Some ''root''\<rparr>) demo_auth_env ''r'' (Some ''root'')
      \<lparr>ct_id = ''b'', ct_name = ''B'', ct_rpm_limit = 5, ct_tpm_limit = 100, ct_monthly_budget_usd = None,
       ct_allowed_models = None\<rparr> (demo_auth_state []) = (Inr resp, s1)
    \<and> revoke_tenant_keys (auth_on\<lparr>admin_api_key := Some ''root''\<rparr>) demo_auth_env (Some ''root'') ''b'' s1 = (Inr (i, n), s2)
    \<and> 1 \<le> n \<and> get_current_tenant (auth_on\<lparr>admin_api_key := Some ''root''\<rparr>) demo_auth_env (Some (ck_api_key resp)) s2
        = (Inl (http_error 401 InvalidKey []), s2)"
proof -
  define st where "st = auth_on\<lparr>admin_api_key := Some ''root''\<rparr>"
  define req where "req = \<lparr>ct_id = ''b'', ct_name = ''B'', ct_rpm_limit = 5, ct_tpm_limit = 100,
      ct_monthly_budget_usd = None, ct_allowed_models = None\<rparr>"
  have st: "auth_enabled st" "given (admin_api_key st)" "admin_api_key st = Some ''root''" "require_admin st (Some ''root'') = Inr ()"
    by (simp_all add: st_def require_admin_def)
  have id: "ct_id req = ''b''" by (simp add: req_def)
  obtain resp s1 ks1 where c: "create_tenant st demo_auth_env ''r'' (admin_api_key st) req (demo_auth_state []) = (Inr resp, s1)"
    "keystore_of s1 = Some ks1"
    by (auto simp: create_tenant_def st with_keystore_loaded [OF demo_lookup(2)] case_prod_unfold Let_def)
  obtain i n s2 where r: "revoke_tenant_keys st demo_auth_env (admin_api_key st) (ct_id req) s1 = (Inr (i, n), s2)"
    by (auto simp: revoke_tenant_keys_def st with_keystore_loaded [OF c(2)] case_prod_unfold Let_def)
  from key_lifecycle [OF st(1,2) demo_lookup(2) c(1) r refl] c(1) r show ?thesis
    unfolding st_def [symmetric] req_def [symmetric] st(3) id by blast
qed

end
