(* ===== verification/Process.thy ===== *)
theory Process
  imports Gateway Admin
begin

text \<open>
  What the state of the process is made of, as a typing of the data: Python checks none of it, so
  that a handler could store a row, a cache entry or a token charge of any shape. The
  theory gives every component of the state its conformance relation and shows that each stage of a
  handler keeps it, whatever the metrics, the database and the clocks do.
\<close>

section \<open>Conformance of the data\<close>

text \<open>A finished answer: one choice, gateway metadata with the attempts, and totals that add up.\<close>

definition answer_ok :: "cache_status \<Rightarrow> chat_response \<Rightarrow> bool" where
  "answer_ok how resp \<longleftrightarrow> length (choices resp) = 1
     \<and> total_tokens (resp_usage resp) = prompt_tokens (resp_usage resp) + completion_tokens (resp_usage resp)
     \<and> (case gateway resp of None \<Rightarrow> False | Some g \<Rightarrow> gm_cache g = how \<and> gm_attempts g \<noteq> [])"

definition keystore_ok :: "keystore option \<Rightarrow> bool" where
  "keystore_ok s \<longleftrightarrow> (case s of None \<Rightarrow> True | Some ks \<Rightarrow> dict_ok ks \<and> (\<forall>(h, r) \<in> set ks. key_hash r = h))"

definition window_ok :: "sliding_window \<Rightarrow> bool" where
  "window_ok w \<longleftrightarrow> (\<forall>(t, n) \<in> set (token_events w). 0 < n)"

definition limiter_ok :: "limiter \<Rightarrow> bool" where
  "limiter_ok lm \<longleftrightarrow> dict_ok lm \<and> (\<forall>(i, w) \<in> set lm. window_ok w)"

definition mtd_ok :: "mtd_cache \<Rightarrow> bool" where
  "mtd_ok c \<longleftrightarrow> dict_ok (data c) \<and> ttl c = 30"

text \<open>The rows are numbered from 1 in the order of their insertion.\<close>

definition row_ok :: "usage_record \<Rightarrow> bool" where
  "row_ok r \<longleftrightarrow> ur_total_tokens r = ur_prompt_tokens r + ur_completion_tokens r
     \<and> ur_cache_status r = CacheMiss \<and> ur_status_code r = 200"

definition table_ok :: "usage_table \<Rightarrow> bool" where
  "table_ok rows \<longleftrightarrow> map ur_id rows = [1..int (length rows)] \<and> list_all row_ok rows"

definition entry_ok :: "string \<Rightarrow> chat_response cache_entry \<Rightarrow> bool" where
  "entry_ok ns e \<longleftrightarrow> ce_namespace e = ns \<and> answer_ok CacheMiss (ce_value e)
     \<and> (case ce_embedding e of None \<Rightarrow> False | Some v \<Rightarrow> length v = 256)"

definition partition_ok :: "settings \<Rightarrow> string \<Rightarrow> chat_response cache_entry list \<Rightarrow> bool" where
  "partition_ok st ns es \<longleftrightarrow> int (length es) \<le> semantic_cache_max_entries st \<and> (\<forall>e \<in> set es. entry_ok ns e)"

fun backend_ok :: "settings \<Rightarrow> chat_response backend \<Rightarrow> bool" where
  "backend_ok st (Exact c) \<longleftrightarrow> semantic_cache_mode st \<noteq> ''semantic'' \<and> lru_inv c
     \<and> lru_max c = semantic_cache_max_entries st \<and> (\<forall>(k, e) \<in> set (lru_data c). answer_ok CacheMiss (ce_value e))"
| "backend_ok st (Semantic c) \<longleftrightarrow> semantic_cache_mode st = ''semantic'' \<and> sc_by_key c = []
     \<and> sc_max c = semantic_cache_max_entries st \<and> dict_ok (sc_partitions c)
     \<and> (\<forall>(ns, es) \<in> set (sc_partitions c). partition_ok st ns es)"

text \<open>Every call on a metric has as many labels as the metric declares.\<close>

fun arity :: "metric \<Rightarrow> nat" where
  "arity Requests = 5"
| "arity Duration = 3"
| "arity Tokens = 4"
| "arity Cost = 3"
| "arity CacheEvents = 2"
| "arity GuardrailEvents = 2"
| "arity ProviderFailures = 2"

fun metric_ok :: "metric_call \<Rightarrow> bool" where
  "metric_ok (Inc m ls x) \<longleftrightarrow> m \<noteq> Duration \<and> length ls = arity m"
| "metric_ok (Observe m ls x) \<longleftrightarrow> m = Duration \<and> length ls = arity m"

definition auth_ok :: "'a auth_state_scheme \<Rightarrow> bool" where
  "auth_ok s \<longleftrightarrow> keystore_ok (keystore_of s) \<and> limiter_ok (limiter_of s) \<and> mtd_ok (budget_of s)
     \<and> table_ok (usage_of s)"

definition process_ok :: "settings \<Rightarrow> app_state \<Rightarrow> bool" where
  "process_ok st s \<longleftrightarrow> auth_ok s \<and> wf_registry (registry_of s)
     \<and> (case cache_of s of None \<Rightarrow> True | Some b \<Rightarrow> backend_ok st b) \<and> list_all metric_ok (metrics_of s)"

text \<open>What the settings have to satisfy: a threshold and a capacity that make sense.\<close>

definition settings_ok :: "settings \<Rightarrow> bool" where
  "settings_ok st \<longleftrightarrow> 0 < circuit_breaker_failure_threshold st \<and> 0 \<le> semantic_cache_max_entries st"

section \<open>Key store, limiter, budget, table\<close>

lemma dict_all_update: "\<forall>(k, v) \<in> set d. P k v \<Longrightarrow> P k v \<Longrightarrow> \<forall>(k, v) \<in> set (AList.update k v d). P k v"
  by (auto dest!: set_update_dict)

lemma dict_all_delete: "\<forall>(k, v) \<in> set d. P k v \<Longrightarrow> \<forall>(k, v) \<in> set (AList.delete j d). P k v"
  by (auto simp: AList.delete_eq)

lemma keystore_ok_add: "keystore_ok (Some ks) \<Longrightarrow> keystore_ok (Some (add_existing h k t l ks))"
  unfolding keystore_ok_def add_existing_def Let_def
  by (auto simp: new_record_def dest!: set_update_dict)

lemma seed_cases:
  obtains (failed) "seed_from_env h environ [] = Inl ValueError"
  | (seeded) ks where "seed_from_env h environ [] = Inr ks" "keystore_ok (Some ks)"
proof (cases "seed_from_env h environ []")
  case (Inl e)
  then have "e = ValueError"
    by (auto simp: seed_from_env_def env_int_def split: option.splits if_splits)
  with Inl show thesis by (intro failed) simp
next
  case (Inr ks)
  have "keystore_ok (Some [])" by (simp add: keystore_ok_def)
  with Inr have "keystore_ok (Some ks)"
    by (auto simp: seed_from_env_def env_int_def keystore_ok_add split: option.splits if_splits)
  with Inr show thesis by (rule seeded)
qed

lemma get_keystore_ok:
  assumes "keystore_ok s" "get_keystore h environ s = (r, s')"
  shows "keystore_ok s' \<and> (\<forall>ks. r = Inr ks \<longrightarrow> s' = Some ks)
    \<and> (\<forall>e. r = Inl e \<longrightarrow> e = ValueError \<and> s = None \<and> seed_from_env h environ [] = Inl ValueError)"
proof (cases s)
  case None
  show ?thesis
    by (cases rule: seed_cases [of h environ])
       (use assms None in \<open>auto simp: get_keystore_def keystore_ok_def\<close>)
qed (use assms in \<open>auto simp: get_keystore_def\<close>)

lemma keystore_ok_revoke: "keystore_ok (Some ks) \<Longrightarrow> keystore_ok (Some (snd (revoke_tenant i ks)))"
proof -
  have e: "snd (revoke_tenant i ks) = map (\<lambda>(h, r). (h, withdraw i r)) ks" by (simp add: revoke_tenant_eq)
  have "map fst (map (\<lambda>(h, r). (h, withdraw i r)) ks) = map fst ks" by (induction ks) auto
  then have "dict_ok (map (\<lambda>(h, r). (h, withdraw i r)) ks) = dict_ok ks" by (simp only: dict_ok_def)
  then show "keystore_ok (Some ks) \<Longrightarrow> keystore_ok (Some (snd (revoke_tenant i ks)))"
    unfolding e keystore_ok_def option.case by (auto simp: withdraw_def)
qed

lemma limiter_ok_update: "limiter_ok lm \<Longrightarrow> window_ok w \<Longrightarrow> limiter_ok (AList.update i w lm)"
  by (auto simp: limiter_ok_def dest!: set_update_dict)

lemma window_of_ok:
  assumes "limiter_ok lm" "window_of i lm = (w, lm')"
  shows "window_ok (prune now d w)" "limiter_ok lm'"
proof -
  have "window_ok w \<and> limiter_ok lm'"
  proof (cases "map_of lm i")
    case None
    have "window_ok new_window" by (simp add: window_ok_def new_window_def)
    with None assms show ?thesis by (auto simp: window_of_def limiter_ok_update)
  next
    case (Some w')
    with assms show ?thesis using map_of_SomeD [OF Some] by (auto simp: window_of_def limiter_ok_def)
  qed
  then show "window_ok (prune now d w)" "limiter_ok lm'"
    by (auto simp: window_ok_def prune_def Let_def dest: set_dropWhileD)
qed

lemma window_ok_timestamps [simp]: "window_ok (w\<lparr>timestamps := ts\<rparr>) = window_ok w"
  by (simp add: window_ok_def)

lemma window_ok_charge: "window_ok w \<Longrightarrow> 0 < n \<Longrightarrow> window_ok (w\<lparr>token_events := token_events w @ [(t, n)]\<rparr>)"
  by (auto simp: window_ok_def)

lemma limiter_ok_ops:
  assumes "limiter_ok lm"
  shows "limiter_ok (snd (check_request now i l lm))" "limiter_ok (snd (check_tokens now i l lm))"
    and "limiter_ok (record_tokens now i n lm)"
proof -
  obtain w lm' where w: "window_of i lm = (w, lm')" by fastforce
  note ok = window_of_ok(1) [OF assms w, of now 60] window_of_ok(2) [OF assms w]
  have u: "limiter_ok (AList.update i v lm')" if "window_ok v" for v using ok(2) that by (rule limiter_ok_update)
  show "limiter_ok (snd (check_request now i l lm))"
    using ok(1) by (simp add: check_request_def w Let_def u split: list.split)
  show "limiter_ok (snd (check_tokens now i l lm))"
    using ok(1) by (simp add: check_tokens_def w Let_def u)
  show "limiter_ok (record_tokens now i n lm)"
    using ok(1) assms by (simp add: record_tokens_def w Let_def u window_ok_charge)
qed

lemma mtd_ok_ops:
  "mtd_ok c \<Longrightarrow> mtd_ok (mtd_set now i x c)"
  "mtd_ok c \<Longrightarrow> mtd_ok (snd (check_budget t1 t2 f t c))"
  "mtd_ok c \<Longrightarrow> mtd_ok (record_spend t1 t2 i x c)"
proof -
  show s: "mtd_ok (mtd_set now i x c)" if "mtd_ok c" for now i x using that by (simp add: mtd_ok_def mtd_set_def)
  show "mtd_ok c \<Longrightarrow> mtd_ok (snd (check_budget t1 t2 f t c))"
    by (auto simp: check_budget_def Let_def s split: option.split)
  show "mtd_ok c \<Longrightarrow> mtd_ok (record_spend t1 t2 i x c)"
    by (auto simp: record_spend_def s split: option.split)
qed

lemma upto_next: "[1..1 + int n] = [1..int n] @ [1 + int n]"
  using upto_rec2 [of 1 "1 + int n"] by simp

lemma fold_max_upto:
  "map ur_id rows = [1..int (length rows)] \<Longrightarrow> fold (\<lambda>r m. max m (ur_id r)) rows 0 = int (length rows)"
proof (induction rows rule: rev_induct)
  case (snoc r rows)
  then have "map ur_id rows = [1..int (length rows)]" "ur_id r = 1 + int (length rows)" by (simp_all add: upto_next)
  with snoc.IH show ?case by simp
qed simp

lemma table_ok_insert: "table_ok rows \<Longrightarrow> row_ok r \<Longrightarrow> table_ok (insert_usage r rows)"
  by (simp add: table_ok_def insert_usage_def next_id_def fold_max_upto row_ok_def upto_next)

section \<open>The response cache\<close>

lemma get_cache_ok:
  assumes "settings_ok st" "case b of None \<Rightarrow> True | Some b \<Rightarrow> backend_ok st b"
  shows "backend_ok st (get_cache st b)"
  using assms
  by (auto simp: get_cache_def settings_ok_def new_semantic_def new_lru_def lru_inv_def split: option.splits)

lemma best_loop_typed:
  assumes "\<forall>e \<in> set es. case ce_embedding e of None \<Rightarrow> False | Some v \<Rightarrow> length v = length q"
  shows "\<exists>e s. best_loop q es best sim = Inr (e, s) \<and> (e = best \<or> (\<exists>x \<in> set es. e = Some x))"
  using assms
proof (induction es arbitrary: best sim)
  case (Cons x es)
  then obtain v where v: "ce_embedding x = Some v" "length q = length v" by (auto split: option.splits)
  have ih: "\<exists>e s. best_loop q es b t = Inr (e, s) \<and> (e = b \<or> (\<exists>x \<in> set es. e = Some x))" for b t
    using Cons by simp
  obtain t where t: "cosine q v = Inr t" using v(2) by (simp add: cosine_eq)
  show ?case
    using ih [of "Some x" t] ih [of best sim] by (auto simp: v(1) t)
qed simp

lemma lru_entries:
  "x \<in> set (lru_data (snd (lru_get now k c))) \<Longrightarrow> x \<in> set (lru_data c)"
  by (auto simp: lru_get_def move_to_end_def AList.delete_eq dest: map_of_SomeD split: option.splits if_splits)

lemma lru_set_entries:
  "x \<in> set (lru_data (snd (lru_set now k v secs c))) \<Longrightarrow> x \<in> set (lru_data c) \<or> ce_value (snd x) = v"
proof -
  assume "x \<in> set (lru_data (snd (lru_set now k v secs c)))"
  then have "x \<in> set (move_to_end k (AList.update k (plain_entry v (now + of_int secs)) (lru_data c)))"
    unfolding lru_set_data(1) using set_mono_suffix [OF evict_suffix] by blast
  then have "x \<in> set (AList.update k (plain_entry v (now + of_int secs)) (lru_data c))"
    by (auto simp: move_to_end_def AList.delete_eq dest: map_of_SomeD split: option.splits)
  then show ?thesis by (auto simp: plain_entry_def dest!: set_update_dict)
qed

text \<open>A lookup in a conforming cache never raises, and what it finds is a finished answer.\<close>

lemma lru_lookup_ok:
  assumes "backend_ok st (Exact c)"
  shows "backend_ok st (Exact (snd (lru_get now k c))) \<and> (\<forall>v. fst (lru_get now k c) = Some v \<longrightarrow> answer_ok CacheMiss v)"
proof -
  have "lru_max (snd (lru_get now k c)) = lru_max c" by (simp add: lru_get_def split: option.split)
  moreover have "answer_ok CacheMiss v" if "fst (lru_get now k c) = Some v" for v
    using that assms by (auto simp: lru_get_def dest!: map_of_SomeD split: option.splits if_splits)
  ultimately show ?thesis
    using assms by (auto simp: lru_inv_get dest!: lru_entries)
qed

lemma sem_partition: "backend_ok st (Semantic c) \<Longrightarrow> map_of (sc_partitions c) ns = Some es \<Longrightarrow> partition_ok st ns es"
  by (auto dest!: map_of_SomeD)

lemma sem_update:
  "backend_ok st (Semantic c) \<Longrightarrow> partition_ok st ns es \<Longrightarrow>
     backend_ok st (Semantic (c\<lparr>sc_partitions := AList.update ns es (sc_partitions c)\<rparr>))"
  by (auto dest!: set_update_dict)

lemma partition_ok_expired: "partition_ok st ns es \<Longrightarrow> partition_ok st ns (evict_expired now es)"
  unfolding partition_ok_def evict_expired_def
  by (metis (no_types, lifting) filter_is_subset length_filter_le of_nat_le_iff order_trans subset_iff)

lemma sem_lookup_ok:
  assumes "backend_ok st (Semantic c)" "get_semantic now (default_embed ev) ns q c = (r, c')"
  shows "backend_ok st (Semantic c') \<and> (\<exists>found. r = Inr found \<and> (\<forall>v s. found = Some (v, s) \<longrightarrow> answer_ok CacheMiss v))"
proof (cases "map_of (sc_partitions c) ns")
  case None
  with assms show ?thesis by (auto simp: get_semantic_def)
next
  case (Some es)
  define es' where "es' = evict_expired now es"
  define c1 where "c1 = c\<lparr>sc_partitions := AList.update ns es' (sc_partitions c)\<rparr>"
  have p: "partition_ok st ns es'"
    unfolding es'_def by (intro partition_ok_expired sem_partition [OF assms(1) Some])
  have c1: "backend_ok st (Semantic c1)" unfolding c1_def by (rule sem_update [OF assms(1) p])
  show ?thesis
  proof (cases "es = [] \<or> es' = []")
    case True
    then have "r = Inr None \<and> c' \<in> {c, c1}"
      using assms(2) Some by (auto simp: get_semantic_def Let_def es'_def c1_def split: list.splits if_splits)
    with assms(1) c1 show ?thesis by auto
  next
    case False
    have "length (default_embed ev q) = 256" by (simp add: default_embed_def)
    then have "\<forall>e \<in> set es'. case ce_embedding e of None \<Rightarrow> False | Some v \<Rightarrow> length v = length (default_embed ev q)"
      using p by (auto simp: partition_ok_def entry_ok_def split: option.splits)
    from best_loop_typed [OF this] obtain e s where b: "best_loop (default_embed ev q) es' None (- 1) = Inr (e, s)"
        "e = None \<or> (\<exists>x \<in> set es'. e = Some x)" by blast
    have "get_semantic now (default_embed ev) ns q c = (case e of None \<Rightarrow> Inr None
        | Some e \<Rightarrow> Inr (if s < sc_threshold c then None else Some (ce_value e, s)), c1)"
    proof -
      obtain y ys where es: "es = y # ys" using False by (cases es) auto
      have "evict_expired now (y # ys) = es'" by (simp add: es'_def es)
      then show ?thesis
        using False b(1) by (simp add: get_semantic_def Some [unfolded es] c1_def Let_def)
    qed
    then have r: "c' = c1" "r = (case e of None \<Rightarrow> Inr None
        | Some e \<Rightarrow> Inr (if s < sc_threshold c then None else Some (ce_value e, s)))"
      using assms(2) by simp_all
    have "answer_ok CacheMiss (ce_value x)" if "e = Some x" for x
      using b(2) p that by (auto simp: partition_ok_def entry_ok_def)
    then have "\<exists>found. r = Inr found \<and> (\<forall>v s. found = Some (v, s) \<longrightarrow> answer_ok CacheMiss v)"
      unfolding r(2) by (cases e) auto
    with c1 show ?thesis unfolding r(1) by (rule conjI)
  qed
qed

lemma lookup_stage_ok:
  assumes "backend_ok st b" "lookup_stage st ev body b = (r, b')"
  shows "backend_ok st b' \<and> (\<exists>found. r = Inr found \<and> (\<forall>v. found = Some v \<longrightarrow> answer_ok CacheMiss v))"
proof (cases b)
  case (Exact c)
  define k where "k = cache_key (xe_sha ev) (xe_frepr ev) body"
  define v where "v = fst (lru_get (xe_time_get ev) k c)"
  define c' where "c' = snd (lru_get (xe_time_get ev) k c)"
  have "r = Inr v" "b' = Exact c'"
    using assms(2) by (simp_all add: lookup_stage_def Exact k_def v_def c'_def case_prod_unfold Let_def)
  then show ?thesis
    using lru_lookup_ok [OF assms(1) [unfolded Exact], of "xe_time_get ev" k]
    by (simp del: backend_ok.simps add: v_def c'_def)
next
  case (Semantic c)
  show ?thesis
  proof (cases "semantic_mode st b")
    case True
    obtain x c' where g: "get_semantic (xe_time_get ev) (default_embed ev) (model body) (prompt_text (xe_frepr ev) body) c
        = (x, c')" by fastforce
    have "r = map_sum id (map_option fst) x" "b' = Semantic c'"
      using assms(2) True g by (simp_all add: lookup_stage_def Semantic)
    with sem_lookup_ok [OF assms(1) [unfolded Semantic] g] show ?thesis
      by (auto simp del: backend_ok.simps)
  next
    case False
    have k: "sc_by_key c = []" using assms(1) by (simp add: Semantic)
    then have "lookup_stage st ev body b = (Inr None, Semantic (c\<lparr>sc_by_key := []\<rparr>))"
      using False by (simp add: lookup_stage_def Semantic sc_get_def)
    also have "c\<lparr>sc_by_key := []\<rparr> = c" using k by (cases c) simp
    finally have "r = Inr None" "b' = Semantic c" using assms(2) by simp_all
    with assms(1) show ?thesis by (simp add: Semantic del: backend_ok.simps)
  qed
qed

lemma store_stage_ok:
  assumes "settings_ok st" "semantic_cache_enabled st" "backend_ok st b" "answer_ok CacheMiss resp"
  shows "backend_ok st (store_stage st ev body resp b)"
proof (cases b)
  case (Exact c)
  define k where "k = cache_key (xe_sha ev) (xe_frepr ev) body"
  define c' where "c' = snd (lru_set (xe_time_set ev) k resp (semantic_cache_ttl_seconds st) c)"
  have "store_stage st ev body resp b = Exact c'" by (simp add: store_stage_def Exact c'_def k_def)
  moreover have "lru_inv c'" "lru_max c' = lru_max c"
    using assms(3) by (simp_all add: c'_def Exact lru_inv_set lru_set_data(2))
  moreover have "answer_ok CacheMiss (ce_value (snd x))" if "x \<in> set (lru_data c')" for x
    using lru_set_entries [OF that [unfolded c'_def]] assms(3,4) by (auto simp: Exact)
  ultimately show ?thesis using assms(3) by (auto simp: Exact)
next
  case (Semantic c)
  define e where "e = \<lparr>ce_value = resp, ce_expires = xe_time_set ev + of_int (semantic_cache_ttl_seconds st),
    ce_embedding = Some (default_embed ev (prompt_text (xe_frepr ev) body)),
    ce_namespace = model body, ce_text = prompt_text (xe_frepr ev) body\<rparr>"
  define es where "es = (case map_of (sc_partitions c) (model body) of None \<Rightarrow> [] | Some es \<Rightarrow> es)"
  have m: "semantic_mode st b" using assms(2,3) by (simp add: Semantic semantic_mode_def)
  have es: "\<forall>x \<in> set es. entry_ok (model body) x"
    using sem_partition [OF assms(3) [unfolded Semantic], of "model body"]
    by (cases "map_of (sc_partitions c) (model body)") (simp_all add: es_def partition_ok_def)
  have "entry_ok (model body) e" using assms(4) by (simp add: entry_ok_def e_def default_embed_def)
  with es have "\<forall>x \<in> set (snd (trim (sc_max c) (es @ [e]))). entry_ok (model body) x"
    using trim_subset [of "sc_max c" "es @ [e]"] by auto
  then have p: "partition_ok st (model body) (snd (trim (sc_max c) (es @ [e])))"
    using assms(1,3) trim_length [of "sc_max c" "es @ [e]"] by (simp add: partition_ok_def Semantic settings_ok_def)
  have "store_stage st ev body resp b = Semantic (c\<lparr>sc_partitions :=
      AList.update (model body) (snd (trim (sc_max c) (es @ [e]))) (sc_partitions c)\<rparr>)"
    using m by (simp add: store_stage_def Semantic set_semantic_def e_def es_def case_prod_unfold Let_def)
  then show ?thesis using sem_update [OF assms(3) [unfolded Semantic] p] by (simp only:)
qed

section \<open>The stages\<close>

lemma emit_typed:
  assumes "list_all metric_ok cs" "list_all metric_ok out" "emit sink cs out = (r, out')"
  shows "list_all metric_ok out' \<and> (\<forall>e. r = Inl e \<longrightarrow> (\<exists>c. sink c = Some e))"
  using assms
proof (induction cs arbitrary: out)
  case (Cons c cs)
  show ?case
  proof (cases "sink c")
    case None
    with Cons.prems have "emit sink cs (out @ [c]) = (r, out')" "list_all metric_ok (out @ [c])" "list_all metric_ok cs"
      by simp_all
    then show ?thesis by (metis Cons.IH)
  qed (use Cons.prems in auto)
qed auto

lemma metric_ok_completion: "list_all metric_ok (record_completion i m p u code d pt ct x c fb)"
  by (simp add: record_completion_def)

lemma metric_ok_guard: "list_all metric_ok (map (\<lambda>l. Inc GuardrailEvents [i, l] 1) ls)"
  by (induction ls) simp_all

text \<open>What a stage promises: it keeps the conformance, and it fails in no other way than by a metric.\<close>

definition stage_ok ::
  "settings \<Rightarrow> app_env \<Rightarrow> ('r \<Rightarrow> bool) \<Rightarrow> (py_exc + 'r) \<times> app_state \<Rightarrow> bool"
where
  "stage_ok st ev P out \<longleftrightarrow> process_ok st (snd out)
     \<and> (case fst out of Inl e \<Rightarrow> (\<exists>c. xe_sink ev c = Some e) | Inr x \<Rightarrow> P x)"

lemma emit_metrics_ok:
  assumes "process_ok st s" "list_all metric_ok cs"
  shows "stage_ok st ev (\<lambda>_. True) (emit_metrics ev cs s)"
proof -
  obtain r out where e: "emit (xe_sink ev) cs (metrics_of s) = (r, out)" by fastforce
  have "list_all metric_ok (metrics_of s)" using assms(1) by (simp add: process_ok_def)
  from emit_typed [OF assms(2) this e] assms(1) show ?thesis
    by (auto simp: stage_ok_def emit_metrics_def e process_ok_def auth_ok_def split: sum.split)
qed

lemma row_ok_usage: "answer_ok CacheMiss resp \<Longrightarrow> gateway resp = Some g \<Longrightarrow> row_ok (usage_row ev t body resp g)"
  by (simp add: row_ok_def usage_row_def answer_ok_def)

lemma process_ok_updates:
  assumes "process_ok st s"
  shows "limiter_ok l \<Longrightarrow> process_ok st (s\<lparr>limiter_of := l\<rparr>)" "mtd_ok b \<Longrightarrow> process_ok st (s\<lparr>budget_of := b\<rparr>)"
    and "table_ok u \<Longrightarrow> process_ok st (s\<lparr>usage_of := u\<rparr>)" "keystore_ok k \<Longrightarrow> process_ok st (s\<lparr>keystore_of := k\<rparr>)"
    and "wf_registry reg \<Longrightarrow> process_ok st (s\<lparr>registry_of := reg\<rparr>)"
    and "backend_ok st c \<Longrightarrow> process_ok st (s\<lparr>cache_of := Some c\<rparr>)"
    and "process_ok st (s\<lparr>spans_of := sp\<rparr>)"
  using assms by (simp_all add: process_ok_def auth_ok_def)

lemma process_okD:
  assumes "process_ok st s"
  shows "limiter_ok (limiter_of s)" "mtd_ok (budget_of s)" "table_ok (usage_of s)" "keystore_ok (keystore_of s)"
    and "wf_registry (registry_of s)" "case cache_of s of None \<Rightarrow> True | Some b \<Rightarrow> backend_ok st b"
  using assms by (simp_all add: process_ok_def auth_ok_def)

lemma record_stage_ok:
  assumes "process_ok st s" "answer_ok CacheMiss resp"
  shows "stage_ok st ev (\<lambda>_. True) (record_stage ev t body resp s)"
proof -
  obtain g where g: "gateway resp = Some g" using assms(2) by (auto simp: answer_ok_def split: option.splits)
  define s1 where "s1 = s\<lparr>limiter_of := record_tokens (xe_mono ev 0) (tid t) (total_tokens (resp_usage resp)) (limiter_of s)\<rparr>"
  define s2 where "s2 = (case xe_db_fails ev of Some e \<Rightarrow> s1
      | None \<Rightarrow> s1\<lparr>usage_of := insert_usage (usage_row ev t body resp g) (usage_of s1)\<rparr>)"
  define s3 where "s3 = (if amount (gm_cost_usd g) then s2\<lparr>budget_of := record_spend (xe_mono ev 1) (xe_mono ev 2) (tid t)
      (the (gm_cost_usd g)) (budget_of s2)\<rparr> else s2)"
  have s1: "process_ok st s1" unfolding s1_def
    by (intro process_ok_updates assms limiter_ok_ops process_okD [OF assms(1)])
  have s2: "process_ok st s2" unfolding s2_def using s1
    by (auto intro!: process_ok_updates(3) table_ok_insert row_ok_usage assms(2) g process_okD split: option.split)
  have s3: "process_ok st s3" unfolding s3_def using s2
    by (auto intro!: process_ok_updates(2) mtd_ok_ops process_okD)
  obtain r s4 where e: "emit_metrics ev (completion_metrics t body resp g) s3 = (r, s4)" by fastforce
  have "stage_ok st ev (\<lambda>_. True) (r, s4)"
    using emit_metrics_ok [OF s3 metric_ok_completion] e unfolding completion_metrics_def by metis
  moreover have "\<exists>sp. record_stage ev t body resp s = (case r of Inl e \<Rightarrow> (Inl e, s4)
      | Inr u \<Rightarrow> (Inr (), s4\<lparr>spans_of := sp\<rparr>))"
    unfolding record_stage_def g option.case Let_def s1_def [symmetric] s2_def [symmetric] s3_def [symmetric]
      completion_metrics_def [symmetric] e
    by (cases r) auto
  ultimately show ?thesis by (auto simp: stage_ok_def process_ok_updates(7) split: sum.splits)
qed

section \<open>The handler of a completion\<close>

lemma answer_ok_hit: "answer_ok CacheMiss resp \<Longrightarrow> answer_ok CacheHit (as_hit resp)"
  by (auto simp: answer_ok_def as_hit_def split: option.splits)

lemma route_answer_ok:
  assumes "route renv fb req n reg = (Inr resp, reg')" "wf_registry reg"
  shows "answer_ok CacheMiss resp"
  using assms(2,1)
proof (cases rule: route_cases)
  case (run chain n1 reg1 tr)
  define labels where "labels = map attempt_label (tried tr)"
  obtain c r where last: "tr \<noteq> []" "last tr = (c, Win r)"
    using run(6) by (auto simp: run_result_def Let_def split: verdict.splits prod.splits if_splits)
  then have "c \<in> set (tried tr)" using last_in_set [OF last(1)] by (cases c) (force simp: tried_def)
  then have "labels \<noteq> []" by (auto simp: labels_def)
  moreover have "resp = normalized_response renv (n1 + 3 * (length tr - 1) + 2) (perf renv n1) (fst c) r labels"
    using run(6) last by (simp add: run_result_def labels_def Let_def)
  ultimately show ?thesis by (simp add: answer_ok_def normalized_response_def pr_total_tokens_def)
qed simp

text \<open>The statuses of the handler, by what they tell.\<close>

fun chat_status :: "http_detail \<Rightarrow> int option" where
  "chat_status (ModelForbidden i m) = Some 403"
| "chat_status (NoProvider m) = Some 503"
| "chat_status (UpstreamsFailed as e) = Some 502"
| "chat_status d = None"

fun reply_ok :: "chat_request \<Rightarrow> reply \<Rightarrow> bool" where
  "reply_ok body (Body resp) \<longleftrightarrow> \<not> stream body \<and> (answer_ok CacheMiss resp \<or> answer_ok CacheHit resp)"
| "reply_ok body (EventStream frames) \<longleftrightarrow> stream body \<and> (\<exists>frepr resp. answer_ok CacheMiss resp \<and> frames = sse_stream frepr resp)"

definition handled ::
  "settings \<Rightarrow> app_env \<Rightarrow> chat_request \<Rightarrow> (api_error + reply) \<times> app_state \<Rightarrow> bool"
where
  "handled st ev body out \<longleftrightarrow> process_ok st (snd out) \<and> (case fst out of
       Inr rep \<Rightarrow> reply_ok body rep
     | Inl (Http h) \<Rightarrow> chat_status (detail h) = Some (status_code h)
     | Inl (Internal e) \<Rightarrow> (\<exists>c. xe_sink ev c = Some e))"

lemma serve_hit_ok:
  assumes "process_ok st s" "answer_ok CacheMiss cached" "\<not> stream body"
  shows "handled st ev body (serve_hit ev t body' cached s)"
proof -
  note hit = answer_ok_hit [OF assms(2)]
  then obtain g where g: "gateway (as_hit cached) = Some g" by (auto simp: answer_ok_def split: option.splits)
  obtain r s' where e: "emit_metrics ev (record_completion (tid t) (model body') (gm_provider g)
      (gm_upstream_model g) ''200'' 0 0 0 (Some 0) CacheHit False) s = (r, s')" by fastforce
  have "stage_ok st ev (\<lambda>_. True) (r, s')"
    using emit_metrics_ok [OF assms(1) metric_ok_completion] e by metis
  then show ?thesis
    using hit assms(3) by (auto simp: serve_hit_def g Let_def e handled_def stage_ok_def split: sum.splits)
qed

lemma upstream_stage_ok:
  assumes "settings_ok st" "process_ok st s"
  shows "handled st ev body (upstream_stage st ev t body s)"
proof -
  obtain res reg' where route: "route (xe_route ev) (fallback_enabled st) body (xe_start ev) (registry_of s)
      = (res, reg')" by fastforce
  have "wf_registry reg'" using route process_okD(5) [OF assms(2)] by (rule route_wf)
  then have s1: "process_ok st (s\<lparr>registry_of := reg'\<rparr>)" by (rule process_ok_updates(5) [OF assms(2)])
  show ?thesis
  proof (cases res)
    case (Inl err)
    then show ?thesis using s1
      by (cases err) (simp_all add: upstream_stage_def route handled_def http_error_def)
  next
    case (Inr resp)
    have ans: "answer_ok CacheMiss resp" using route_answer_ok [OF route [unfolded Inr] process_okD(5) [OF assms(2)]] .
    define s2 where "s2 = stored st ev body resp reg' s"
    have s2: "process_ok st s2"
    proof (cases "semantic_cache_enabled st \<and> \<not> stream body \<and> cache_of s \<noteq> None")
      case True
      then obtain b where b: "cache_of s = Some b" by blast
      then have "backend_ok st (store_stage st ev body resp b)"
        using True process_okD(6) [OF assms(2)] by (intro store_stage_ok [OF assms(1) _ _ ans]) simp_all
      with True b show ?thesis using process_ok_updates(6) [OF s1] by (simp add: s2_def stored_def)
    next
      case False
      have "process_ok st (s\<lparr>registry_of := reg', cache_of := None\<rparr>)" using s1 by (simp add: process_ok_def auth_ok_def)
      with False s1 show ?thesis by (auto simp: s2_def stored_def Let_def)
    qed
    obtain r s3 where rec: "record_stage ev t body resp s2 = (r, s3)" by fastforce
    have "stage_ok st ev (\<lambda>_. True) (r, s3)" using record_stage_ok [OF s2 ans] rec by metis
    then show ?thesis
      using rec ans unfolding upstream_answered [OF route [unfolded Inr]] s2_def [symmetric]
      by (auto simp: handled_def stage_ok_def split: sum.splits)
  qed
qed

lemma cached_stage_ok:
  assumes "settings_ok st" "process_ok st s"
  shows "handled st ev body (cached_stage st ev t body s)"
proof (cases "semantic_cache_enabled st")
  case True
  define b where "b = get_cache st (cache_of s)"
  have b: "backend_ok st b" unfolding b_def by (rule get_cache_ok [OF assms(1) process_okD(6) [OF assms(2)]])
  obtain r b' where lk: "lookup_stage st ev body b = (r, b')" by fastforce
  obtain found where f: "r = Inr found" "backend_ok st b'" "\<And>v. found = Some v \<Longrightarrow> answer_ok CacheMiss v"
    using lookup_stage_ok [OF b lk] by blast
  show ?thesis
    using True lk f(1) upstream_stage_ok [OF assms(1) process_ok_updates(6) [OF assms(2) b]]
      upstream_stage_ok [OF assms(1) process_ok_updates(6) [OF assms(2) f(2)]]
      serve_hit_ok [OF process_ok_updates(6) [OF assms(2) f(2)] f(3)]
    by (cases found) (simp_all add: cached_stage_def b_def [symmetric] Let_def)
qed (simp add: cached_stage_def upstream_stage_ok [OF assms])

lemma handled_cleaned: "handled st ev (cleaned st body) out = handled st ev body out"
proof -
  have "reply_ok (cleaned st body) rep = reply_ok body rep" for rep by (cases rep) simp_all
  then show ?thesis by (simp add: handled_def split: sum.split)
qed

lemma chat_completions_ok:
  assumes "settings_ok st" "process_ok st s"
  shows "handled st ev body (chat_completions st ev t body s)"
proof (cases "model_allowed t (model body)")
  case True
  obtain r s1 where e: "emit_metrics ev (guard_metrics st t body) s = (r, s1)" by fastforce
  have "stage_ok st ev (\<lambda>_. True) (r, s1)"
    using emit_metrics_ok [OF assms(2) metric_ok_guard] e unfolding guard_metrics_def by metis
  moreover have eq: "chat_completions st ev t body s = (case r of Inl e \<Rightarrow> (Inl (Internal e), s1)
      | Inr u \<Rightarrow> cached_stage st ev t (cleaned st body) s1)"
    using e True by (cases r) (simp_all add: chat_completions_def guard_metrics_def cleaned_def case_prod_unfold Let_def)
  ultimately show ?thesis
    using cached_stage_ok [OF assms(1), of s1 ev "cleaned st body" t]
    by (cases r) (simp_all add: handled_cleaned stage_ok_def, simp add: handled_def)
qed (use assms in \<open>simp add: chat_completions_def handled_def http_error_def\<close>)

section \<open>The gate and the operator\<close>

fun auth_status :: "http_detail \<Rightarrow> int option" where
  "auth_status MissingBearer = Some 401"
| "auth_status InvalidKey = Some 401"
| "auth_status (Limited r) = Some 429"
| "auth_status (BudgetSpent r x b) = Some 402"
| "auth_status d = None"

fun admin_status :: "http_detail \<Rightarrow> int option" where
  "admin_status AdminDisabled = Some 403"
| "admin_status BadAdminKey = Some 401"
| "admin_status d = None"

text \<open>
  What can go wrong inside the gate: the key store cannot be seeded, or a key was created with a
  request limit of 0 or less.
\<close>

definition seed_fault :: "auth_env \<Rightarrow> app_state \<Rightarrow> py_exc \<Rightarrow> bool" where
  "seed_fault ae s e \<longleftrightarrow> keystore_of s = None \<and> e = ValueError
     \<and> seed_from_env (ae_hash ae) (ae_environ ae) [] = Inl ValueError"

definition limit_fault :: "auth_env \<Rightarrow> string option \<Rightarrow> app_state \<Rightarrow> py_exc \<Rightarrow> bool" where
  "limit_fault ae creds s' e \<longleftrightarrow> e = IndexError \<and> (\<exists>ks r. keystore_of s' = Some ks
     \<and> lookup (ae_hash ae) (the creds) ks = Some r \<and> rpm_limit (ktenant r) \<le> 0)"

lemma budget_stage_ok:
  assumes "process_ok st s" "budget_stage ae t s = (r, s')"
  shows "process_ok st s' \<and> keystore_of s' = keystore_of s
    \<and> (case r of Inr t' \<Rightarrow> t' = t | Inl (Http h) \<Rightarrow> auth_status (detail h) = Some (status_code h) | Inl (Internal e) \<Rightarrow> False)"
proof -
  obtain d c where d: "check_budget (ae_mono ae 2) (ae_mono ae 3)
      (\<lambda>i. month_to_date_cost (ae_utc ae) i (usage_of s)) t (budget_of s) = (d, c)" by fastforce
  have "mtd_ok c" using mtd_ok_ops(2) [OF process_okD(2) [OF assms(1)]] d by (metis snd_conv)
  then have "process_ok st (s\<lparr>budget_of := c\<rparr>)" by (rule process_ok_updates(2) [OF assms(1)])
  moreover have "bd_reason d \<noteq> None" if "\<not> bd_allowed d"
    using d that by (auto simp: check_budget_def Let_def split: option.splits if_splits prod.splits)
  ultimately show ?thesis
    using assms(2) by (auto simp: budget_stage_def d http_error_def Let_def split: if_splits)
qed

lemma token_stage_ok:
  assumes "process_ok st s" "token_stage ae t s = (r, s')"
  shows "process_ok st s' \<and> keystore_of s' = keystore_of s
    \<and> (case r of Inr t' \<Rightarrow> t' = t | Inl (Http h) \<Rightarrow> auth_status (detail h) = Some (status_code h) | Inl (Internal e) \<Rightarrow> False)"
proof -
  obtain d lm where d: "check_tokens (ae_mono ae 1) (tid t) (tpm_limit t) (limiter_of s) = (d, lm)" by fastforce
  have "limiter_ok lm" using limiter_ok_ops(2) [OF process_okD(1) [OF assms(1)]] d by (metis snd_conv)
  then have ok: "process_ok st (s\<lparr>limiter_of := lm\<rparr>)" by (rule process_ok_updates(1) [OF assms(1)])
  have "reason d \<noteq> None" if "\<not> allowed d"
    using d that by (auto simp: check_tokens_def Let_def split: if_splits prod.splits)
  moreover have "token_stage ae t s = (if \<not> allowed d
      then (Inl (http_error 429 (case reason d of None \<Rightarrow> TokenLimitExceeded | Some r \<Rightarrow> Limited r) []),
        s\<lparr>limiter_of := lm\<rparr>)
      else budget_stage ae t (s\<lparr>limiter_of := lm\<rparr>))"
    unfolding token_stage_def d by (simp add: Let_def)
  ultimately show ?thesis
    using assms(2) ok budget_stage_ok [OF ok, of ae t r s'] by (auto simp: http_error_def split: if_splits)
qed

lemma request_stage_ok:
  assumes "process_ok st s" "request_stage ae t s = (r, s')"
  shows "process_ok st s' \<and> keystore_of s' = keystore_of s \<and> (case r of Inr t' \<Rightarrow> t' = t
    | Inl (Http h) \<Rightarrow> auth_status (detail h) = Some (status_code h)
    | Inl (Internal e) \<Rightarrow> e = IndexError \<and> rpm_limit t \<le> 0)"
proof -
  obtain x lm where d: "check_request (ae_mono ae 0) (tid t) (rpm_limit t) (limiter_of s) = (x, lm)" by fastforce
  have "limiter_ok lm" using limiter_ok_ops(1) [OF process_okD(1) [OF assms(1)]] d by (metis snd_conv)
  then have ok: "process_ok st (s\<lparr>limiter_of := lm\<rparr>)" by (rule process_ok_updates(1) [OF assms(1)])
  note c = check_request_cases [of "ae_mono ae 0" "tid t" "rpm_limit t" "limiter_of s", unfolded d fst_conv]
  show ?thesis
  proof (cases rule: c)
    case 1
    then show ?thesis using assms(2) ok token_stage_ok [OF ok, of ae t r s']
      by (auto simp: request_stage_def d Let_def split: sum.splits api_error.splits)
  qed (use assms(2) ok in \<open>auto simp: request_stage_def d http_error_def Let_def\<close>)
qed

definition gated ::
  "settings \<Rightarrow> auth_env \<Rightarrow> string option \<Rightarrow> app_state \<Rightarrow> (api_error + tenant) \<times> app_state \<Rightarrow> bool"
where
  "gated st ae creds s out \<longleftrightarrow> process_ok st (snd out) \<and> (case fst out of
       Inr t \<Rightarrow> True
     | Inl (Http h) \<Rightarrow> auth_status (detail h) = Some (status_code h)
     | Inl (Internal e) \<Rightarrow> seed_fault ae s e \<or> limit_fault ae creds (snd out) e)"

lemma get_current_tenant_ok:
  assumes "process_ok st s"
  shows "gated st ae creds s (get_current_tenant st ae creds s)"
proof (cases "auth_enabled st \<and> given creds")
  case True
  obtain r kst where k: "get_keystore (ae_hash ae) (ae_environ ae) (keystore_of s) = (r, kst)" by fastforce
  note ko = get_keystore_ok [OF process_okD(4) [OF assms] k]
  then have ok: "process_ok st (s\<lparr>keystore_of := kst\<rparr>)" by (intro process_ok_updates(4) [OF assms]) simp
  show ?thesis
  proof (cases r)
    case (Inl e)
    with True k ko ok show ?thesis by (simp add: get_current_tenant_def gated_def seed_fault_def)
  next
    case (Inr ks)
    show ?thesis
    proof (cases "lookup (ae_hash ae) (the creds) ks")
      case None
      with True k Inr ok show ?thesis by (simp add: get_current_tenant_def gated_def http_error_def)
    next
      case (Some kr)
      obtain x s' where x: "request_stage ae (ktenant kr) (s\<lparr>keystore_of := kst\<rparr>) = (x, s')" by fastforce
      have "keystore_of s' = Some ks" using request_stage_ok [OF ok x] ko Inr by simp
      moreover have "get_current_tenant st ae creds s = (x, s')"
        using True k Inr Some x by (simp add: get_current_tenant_def)
      ultimately show ?thesis
        using request_stage_ok [OF ok x] Some
        by (auto simp: gated_def limit_fault_def split: sum.splits api_error.splits)
    qed
  qed
qed (use assms in \<open>auto simp: get_current_tenant_def gated_def http_error_def\<close>)

lemma with_keystore_ok:
  assumes "process_ok st s" "\<And>ks. keystore_ok (Some ks) \<Longrightarrow> keystore_ok (Some (snd (f ks)))"
    and "with_keystore ae f s = (r, s')"
  shows "process_ok st s' \<and> (case r of Inr x \<Rightarrow> True | Inl (Http h) \<Rightarrow> False | Inl (Internal e) \<Rightarrow> seed_fault ae s e)"
proof -
  obtain x kst where k: "get_keystore (ae_hash ae) (ae_environ ae) (keystore_of s) = (x, kst)" by fastforce
  note ko = get_keystore_ok [OF process_okD(4) [OF assms(1)] k]
  show ?thesis
  proof (cases x)
    case (Inl e)
    with assms(1,3) k ko show ?thesis by (auto simp: with_keystore_def seed_fault_def process_ok_updates(4))
  next
    case (Inr ks)
    obtain y ks' where y: "f ks = (y, ks')" by fastforce
    have "keystore_ok (Some ks')" using assms(2) [of ks] ko Inr y by auto
    with assms(1,3) k Inr y show ?thesis by (auto simp: with_keystore_def process_ok_updates(4))
  qed
qed

definition operated ::
  "settings \<Rightarrow> auth_env \<Rightarrow> app_state \<Rightarrow> (api_error + unit) \<times> app_state \<Rightarrow> bool"
where
  "operated st ae s out \<longleftrightarrow> process_ok st (snd out) \<and> (case fst out of
       Inr u \<Rightarrow> True
     | Inl (Http h) \<Rightarrow> admin_status (detail h) = Some (status_code h)
     | Inl (Internal e) \<Rightarrow> seed_fault ae s e)"

lemma operated_with_keystore:
  assumes "process_ok st s" "\<And>ks. keystore_ok (Some ks) \<Longrightarrow> keystore_ok (Some (snd (f ks)))"
  shows "operated st ae s (map_prod (map_sum id (\<lambda>_. ())) id (with_keystore ae f s))"
proof -
  obtain r s' where w: "with_keystore ae f s = (r, s')" by fastforce
  from with_keystore_ok [OF assms w] show ?thesis
    by (cases r) (auto simp: operated_def w split: api_error.splits)
qed

lemma admin_call_ok:
  assumes "process_ok st s"
  shows "operated st ae s (admin_call st ae key op s)"
proof (cases "require_admin st key")
  case (Inl e)
  then have "admin_call st ae key op s = (Inl e, s)" by (cases op) (simp_all add: admin_defs)
  moreover have "\<exists>h. e = Http h \<and> admin_status (detail h) = Some (status_code h)"
    using Inl by (auto simp: require_admin_cases http_error_def split: if_splits)
  ultimately show ?thesis using assms by (auto simp: operated_def)
next
  case (Inr u)
  have c: "keystore_ok (Some (snd (let t = requested_tenant req; (plaintext, ks') = create_key (ae_hash ae) token t ''default'' ks
      in (\<lparr>ck_tenant_id = tid t, ck_api_key = plaintext, ck_label = ''default''\<rparr>, ks'))))"
    if "keystore_ok (Some ks)" for token req ks
    using that by (simp add: create_key_eq keystore_ok_add Let_def)
  show ?thesis
  proof (cases op)
    case (CreateTenant token req)
    then show ?thesis
      unfolding CreateTenant admin_call.simps create_tenant_def Inr sum.case
      by (intro operated_with_keystore assms c)
  next
    case ListTenants
    then show ?thesis
      unfolding ListTenants admin_call.simps list_tenants_endpoint_def Inr sum.case
      by (intro operated_with_keystore assms) simp
  next
    case (RevokeKeys i)
    then show ?thesis
      unfolding RevokeKeys admin_call.simps revoke_tenant_keys_def Inr sum.case
      by (intro operated_with_keystore assms) (simp add: case_prod_unfold Let_def keystore_ok_revoke)
  qed (use Inr assms in \<open>simp_all add: admin_defs operated_def\<close>)
qed

end
