(* ===== verification/Service.thy ===== *)
theory Service
  imports Process
begin

text \<open>
  The service from its first request on: the four kinds of calls it answers, the states it can
  reach, and what is true of all of them. The first property is a type soundness statement: the
  state conforms to its types for ever, every answer and every HTTP error is of the shape the
  endpoint declares, and an internal error (status 500) has one of three named causes. The second
  one puts authentication, cache and failover together: who gets an answer.
\<close>

section \<open>Calls and reachable states\<close>

text \<open>\<open>GET /v1/models\<close> with the dependency that resolves the tenant.\<close>

definition get_models ::
  "settings \<Rightarrow> auth_env \<Rightarrow> seconds \<Rightarrow> string option \<Rightarrow> app_state \<Rightarrow> (api_error + model_info list) \<times> app_state"
where
  "get_models st ae now creds s =
     (let (r, s1) = get_current_tenant st ae creds s
      in case r of Inl e \<Rightarrow> (Inl e, s1) | Inr t \<Rightarrow> (Inr (models_endpoint now t (registry_of s1)), s1))"

datatype service_call =
    GetHealth
  | GetModels auth_env seconds "string option"
  | PostChat auth_env app_env "string option" chat_request
  | Operate auth_env "string option" admin_op

datatype service_reply = Health health_response | Models "model_info list" | Completion reply | Operated

fun serve :: "settings \<Rightarrow> service_call \<Rightarrow> app_state \<Rightarrow> (api_error + service_reply) \<times> app_state" where
  "serve st GetHealth s = (Inr (Health (health_endpoint st (registry_of s))), s)"
| "serve st (GetModels ae now creds) s = map_prod (map_sum id Models) id (get_models st ae now creds s)"
| "serve st (PostChat ae ev creds body) s = map_prod (map_sum id Completion) id (post_chat_completions st ae ev creds body s)"
| "serve st (Operate ae key op) s = map_prod (map_sum id (\<lambda>_. Operated)) id (admin_call st ae key op s)"

definition fresh_process :: "settings \<Rightarrow> provider \<Rightarrow> provider \<Rightarrow> app_state" where
  "fresh_process st bedrock openai = \<lparr>keystore_of = None, limiter_of = [], budget_of = new_mtd_cache, usage_of = [],
     registry_of = build_registry st bedrock openai, cache_of = None, metrics_of = [], spans_of = []\<rparr>"

text \<open>
  The hooks that forget the objects of the process. A registry that was forgotten is rebuilt at its next
  use, and nothing else reads the variable.
\<close>

definition reset_keystore :: "app_state \<Rightarrow> app_state" where
  "reset_keystore s = s\<lparr>keystore_of := None\<rparr>"

definition reset_cache :: "app_state \<Rightarrow> app_state" where
  "reset_cache s = s\<lparr>cache_of := None\<rparr>"

definition reset_registry :: "settings \<Rightarrow> provider \<Rightarrow> provider \<Rightarrow> app_state \<Rightarrow> app_state" where
  "reset_registry st bedrock openai s = s\<lparr>registry_of := build_registry st bedrock openai\<rparr>"

text \<open>With an empty limiter and a cleared budget cache, only the database, the metrics and the spans outlive them.\<close>

lemma resets_restart:
  "ttl (budget_of s) = ttl new_mtd_cache \<Longrightarrow>
     reset_registry st bedrock openai (reset_cache (reset_keystore (s\<lparr>limiter_of := [], budget_of := mtd_clear (budget_of s)\<rparr>)))
       = (fresh_process st bedrock openai)\<lparr>usage_of := usage_of s, metrics_of := metrics_of s, spans_of := spans_of s\<rparr>"
  by (cases s) (simp add: reset_keystore_def reset_cache_def reset_registry_def fresh_process_def mtd_clear_def new_mtd_cache_def)

inductive reachable :: "settings \<Rightarrow> provider \<Rightarrow> provider \<Rightarrow> app_state \<Rightarrow> bool" for st bedrock openai where
  start: "reachable st bedrock openai (fresh_process st bedrock openai)"
| step: "reachable st bedrock openai s \<Longrightarrow> serve st call s = (r, s') \<Longrightarrow> reachable st bedrock openai s'"

section \<open>Typing of a call\<close>

text \<open>The HTTP errors a call can answer, with their statuses.\<close>

fun error_status :: "service_call \<Rightarrow> http_detail \<Rightarrow> int option" where
  "error_status GetHealth d = None"
| "error_status (GetModels ae now creds) d = auth_status d"
| "error_status (PostChat ae ev creds body) d = (case auth_status d of None \<Rightarrow> chat_status d | Some n \<Rightarrow> Some n)"
| "error_status (Operate ae key op) d = admin_status d"

text \<open>What can make a call end in an internal error, between the states \<open>s\<close> and \<open>s'\<close>.\<close>

fun fault :: "service_call \<Rightarrow> app_state \<Rightarrow> app_state \<Rightarrow> py_exc \<Rightarrow> bool" where
  "fault GetHealth s s' e = False"
| "fault (GetModels ae now creds) s s' e = (seed_fault ae s e \<or> limit_fault ae creds s' e)"
| "fault (PostChat ae ev creds body) s s' e =
     (seed_fault ae s e \<or> limit_fault ae creds s' e \<or> (\<exists>c. xe_sink ev c = Some e))"
| "fault (Operate ae key op) s s' e = seed_fault ae s e"

fun answer_typed :: "service_call \<Rightarrow> service_reply \<Rightarrow> bool" where
  "answer_typed GetHealth r = (\<exists>h. r = Health h \<and> hr_status h \<in> {''healthy'', ''degraded''})"
| "answer_typed (GetModels ae now creds) r =
     (\<exists>ms. r = Models ms \<and> {''auto'', ''cheapest'', ''fastest''} \<subseteq> mi_id ` set ms)"
| "answer_typed (PostChat ae ev creds body) r = (\<exists>rep. r = Completion rep \<and> reply_ok body rep)"
| "answer_typed (Operate ae key op) r = (r = Operated)"

definition outcome_typed ::
  "service_call \<Rightarrow> app_state \<Rightarrow> api_error + service_reply \<Rightarrow> app_state \<Rightarrow> bool"
where
  "outcome_typed call s r s' \<longleftrightarrow> (case r of
       Inr rep \<Rightarrow> answer_typed call rep
     | Inl (Http h) \<Rightarrow> error_status call (detail h) = Some (status_code h)
     | Inl (Internal e) \<Rightarrow> fault call s s' e)"

lemma fresh_process_ok: "settings_ok st \<Longrightarrow> process_ok st (fresh_process st bedrock openai)"
  by (simp add: process_ok_def auth_ok_def fresh_process_def keystore_ok_def limiter_ok_def mtd_ok_def
      new_mtd_cache_def table_ok_def settings_ok_def wf_build_registry)

lemma chat_not_auth: "chat_status d = Some n \<Longrightarrow> auth_status d = None"
  by (cases d) simp_all

lemma post_chat_typed:
  assumes "settings_ok st" "process_ok st s" "post_chat_completions st ae ev creds body s = (r, s')"
  shows "process_ok st s' \<and> outcome_typed (PostChat ae ev creds body) s (map_sum id Completion r) s'"
proof -
  obtain x s1 where g: "get_current_tenant st ae creds s = (x, s1)" by fastforce
  note gate = get_current_tenant_ok [OF assms(2), of ae creds, unfolded g]
  show ?thesis
  proof (cases x)
    case (Inl e)
    with gate g assms(3) show ?thesis
      by (cases e) (auto simp: post_chat_completions_def gated_def outcome_typed_def)
  next
    case (Inr t)
    then have "chat_completions st ev t body s1 = (r, s')" using assms(3) g by (simp add: post_chat_completions_def)
    then have "handled st ev body (r, s')"
      using chat_completions_ok [OF assms(1), of s1 ev body t] gate by (simp add: gated_def)
    then show ?thesis
      by (auto simp: handled_def outcome_typed_def chat_not_auth split: sum.splits api_error.splits)
  qed
qed

lemma get_models_typed:
  assumes "process_ok st s" "get_models st ae now creds s = (r, s')"
  shows "process_ok st s' \<and> outcome_typed (GetModels ae now creds) s (map_sum id Models r) s'"
proof -
  obtain x s1 where g: "get_current_tenant st ae creds s = (x, s1)" by fastforce
  note gate = get_current_tenant_ok [OF assms(1), of ae creds, unfolded g]
  then show ?thesis
    using g assms(2)
    by (auto simp: get_models_def gated_def outcome_typed_def models_endpoint_def split: sum.splits api_error.splits)
qed

lemma serve_typed:
  assumes "settings_ok st" "process_ok st s" "serve st call s = (r, s')"
  shows "process_ok st s' \<and> outcome_typed call s r s'"
proof (cases call)
  case GetHealth
  with assms show ?thesis by (auto simp: outcome_typed_def health_endpoint_def Let_def)
next
  case (GetModels ae now creds)
  with assms(3) get_models_typed [OF assms(2)] show ?thesis by (auto simp: map_prod_def split: prod.splits)
next
  case (PostChat ae ev creds body)
  with assms(3) post_chat_typed [OF assms(1,2)] show ?thesis by (auto simp: map_prod_def split: prod.splits)
next
  case (Operate ae key op)
  obtain x s1 where a: "admin_call st ae key op s = (x, s1)" by fastforce
  with assms(3) Operate admin_call_ok [OF assms(2), of ae key op] show ?thesis
    by (auto simp: operated_def outcome_typed_def split: sum.splits api_error.splits)
qed

lemma reachable_ok: "reachable st bedrock openai s \<Longrightarrow> settings_ok st \<Longrightarrow> process_ok st s"
  by (induction rule: reachable.induct) (auto simp: fresh_process_ok dest: serve_typed)

section \<open>Properties\<close>

text \<open>
  Type soundness of the service. Whatever sequence of calls a process has served, its state
  conforms to its types: the key store, limiter, budget cache and response cache are
  dictionaries with entries of the right shape, the usage rows are numbered without gaps
  and add up, every cached entry is a finished answer in the right partition within the
  capacity, and every metric call has the declared labels. Every further call answers with the
  shape of its endpoint or with an HTTP error whose status is the one declared for its detail;
  an internal error only comes from a metric that raised, from a key store that cannot be seeded,
  or from a key with a request limit of 0 or less.
\<close>

theorem service_type_safe:
  assumes "settings_ok st" "reachable st bedrock openai s" "serve st call s = (r, s')"
  shows "process_ok st s' \<and> outcome_typed call s r s'"
  using serve_typed [OF assms(1) reachable_ok [OF assms(2,1)] assms(3)] .

text \<open>The gate leaves providers, cache and metrics alone.\<close>

lemma request_stage_rest:
  assumes "request_stage ae t s = (r, s')"
  shows "registry_of s' = registry_of s \<and> cache_of s' = cache_of s \<and> metrics_of s' = metrics_of s
    \<and> usage_of s' = usage_of s \<and> keystore_of s' = keystore_of s"
proof -
  have b: "registry_of s' = registry_of s \<and> cache_of s' = cache_of s \<and> metrics_of s' = metrics_of s
      \<and> usage_of s' = usage_of s \<and> keystore_of s' = keystore_of s"
    if "budget_stage ae t s = (r, s')" for s s' r
    using that by (auto simp: budget_stage_def Let_def split: prod.splits if_splits)
  have t: "registry_of s' = registry_of s \<and> cache_of s' = cache_of s \<and> metrics_of s' = metrics_of s
      \<and> usage_of s' = usage_of s \<and> keystore_of s' = keystore_of s"
    if "token_stage ae t s = (r, s')" for s s' r
    using that by (auto simp: token_stage_def Let_def dest: b split: prod.splits if_splits)
  show ?thesis
    using assms by (auto simp: request_stage_def Let_def dest: t split: prod.splits if_splits sum.splits)
qed

lemma not_crashes: "0 < rpm_limit t \<Longrightarrow> \<not> crashes ae t s"
  using request_stage_result [of ae t s] by (auto split: if_splits)


section \<open>A process that serves\<close>

text \<open>
  A process with the two fakes for Bedrock and OpenAI, authentication, a seeded demo key and the
  exact cache switched on.
\<close>

definition demo_live :: settings where
  "demo_live = auth_on\<lparr>openai_enabled := True, openai_api_key := Some ''k'', semantic_cache_enabled := True\<rparr>"

definition demo_seeded :: auth_env where
  "demo_seeded = demo_auth_env\<lparr>ae_environ := (\<lambda>k. if k = ''DEMO_TENANT_KEY'' then Some ''key'' else None)\<rparr>"

definition demo_bedrock :: provider where
  "demo_bedrock = demo_provider ''alpha'' [''gpt-4o'', ''m''] (\<lambda>_. Raised (demo_error True))"

definition demo_openai :: provider where
  "demo_openai = demo_provider ''beta'' [''gpt-4o-mini'', ''m''] (\<lambda>_. Ok demo_answer)"

abbreviation "demo_fresh \<equiv> fresh_process demo_live demo_bedrock demo_openai"

definition demo_record :: key_record where
  "demo_record = new_record ''key'' ((new_tenant ''demo'' ''Demo Tenant'')\<lparr>rpm_limit := 60, tpm_limit := 100000\<rparr>) ''seed''"

definition demo_open_process :: app_state where
  "demo_open_process = demo_fresh\<lparr>keystore_of := Some [(''key'', demo_record)]\<rparr>"

lemma demo_live: "settings_ok demo_live" "auth_enabled demo_live" "fallback_enabled demo_live"
  by (simp_all add: demo_live_def settings_ok_def default_settings_def)

lemma demo_limits: "int_of_str ''60'' = Some 60" "int_of_str ''100000'' = Some 100000"
  by code_simp+

lemma demo_seed: "seed_from_env (ae_hash demo_seeded) (ae_environ demo_seeded) [] = Inr [(''key'', demo_record)]"
  by (simp add: seed_from_env_def demo_seeded_def env_int_def demo_limits)
     (simp add: add_existing_def demo_record_def new_tenant_def demo_auth_env_def Let_def)

lemma demo_refused:
  "serve demo_live (GetModels demo_seeded 0 (Some ''no'')) demo_fresh = (Inl (http_error 401 InvalidKey []), demo_open_process)"
proof -
  have "get_keystore (ae_hash demo_seeded) (ae_environ demo_seeded) (keystore_of demo_fresh)
      = (Inr [(''key'', demo_record)], Some [(''key'', demo_record)])"
    by (simp add: get_keystore_def fresh_process_def demo_seed)
  moreover have "lookup (ae_hash demo_seeded) ''no'' [(''key'', demo_record)] = None"
    by (simp add: lookup_def demo_seeded_def demo_auth_env_def)
  ultimately show ?thesis
    by (simp add: get_models_def get_current_tenant_def demo_live(2) demo_open_process_def)
qed

theorem service_type_safe_witness:
  "serve demo_live (GetModels demo_seeded 0 (Some ''no'')) demo_fresh = (Inl (http_error 401 InvalidKey []), demo_open_process)
    \<and> process_ok demo_live demo_open_process
    \<and> outcome_typed (GetModels demo_seeded 0 (Some ''no'')) demo_fresh (Inl (http_error 401 InvalidKey [])) demo_open_process"
  using service_type_safe [OF demo_live(1) reachable.start demo_refused] demo_refused by simp

lemma demo_open_reachable: "reachable demo_live demo_bedrock demo_openai demo_open_process"
  using reachable.step [OF reachable.start demo_refused] .

lemma demo_open_registry: "registry_of demo_open_process = demo_down"
  by (simp add: demo_open_process_def fresh_process_def build_registry_def demo_live_def demo_registry_def
      demo_bedrock_def demo_openai_def register_def default_settings_def Let_def)

lemma demo_open_admits: "verdict_on demo_seeded (ktenant demo_record) demo_open_process = 200"
  by (simp add: verdict_on_def within_rpm_def within_tpm_def limiter_after_request_def current_check_request over_budget_def)
     (simp add: demo_seeded_def demo_auth_defs demo_record_def demo_open_process_def fresh_process_def)


end
