(* ===== verification/Coroutine.thy ===== *)
theory Coroutine
  imports Service
begin

text \<open>
  The metered endpoints as coroutines. The handlers are \<open>async\<close>: a request runs without interruption
  up to an \<open>await\<close> that really waits (the spending query of the budget check, the call of a provider,
  the insertion of the usage row) and other requests run in the meantime. With the in-memory
  limiter, key store and cache no other \<open>await\<close> of the handlers suspends. A task is what a
  request is waiting for, with what its frame holds; \<open>advance\<close> resumes it up to the next
  suspension. Run alone, a task does what the handler of \<open>Routes\<close> does.
\<close>

section \<open>Requests and tasks\<close>

datatype goal = WantModels seconds | WantChat chat_request

record client_call =
  cc_auth :: auth_env
  cc_env :: app_env
  cc_creds :: "string option"
  cc_goal :: goal

text \<open>The frame of a request whose provider call is under way: one attempt of the loop in \<open>route\<close>.\<close>

record pending_call =
  pc_body :: chat_request
  pc_started :: seconds
  pc_provider :: provider
  pc_candidate :: candidate
  pc_rest :: "candidate list"
  pc_attempts :: "string list"
  pc_counter :: nat

datatype task =
    Arrived
  | QueryingSpend tenant
  | SpendRead tenant usd
  | Calling tenant pending_call
  | Booking tenant chat_request chat_response gateway_meta
  | Booked tenant chat_request chat_response gateway_meta
  | Replied "api_error + service_reply"

section \<open>After the answer of a provider\<close>

definition reply_of :: "app_env \<Rightarrow> chat_request \<Rightarrow> chat_response \<Rightarrow> reply" where
  "reply_of ev body resp = (if stream body then EventStream (sse_stream (xe_frepr ev) resp) else Body resp)"

definition answered ::
  "settings \<Rightarrow> app_env \<Rightarrow> tenant \<Rightarrow> chat_request \<Rightarrow> chat_response \<Rightarrow> app_state \<Rightarrow> task \<times> app_state"
where
  "answered st ev t body resp s =
     (let s1 = (if semantic_cache_enabled st \<and> \<not> stream body
                then s\<lparr>cache_of := map_option (store_stage st ev body resp) (cache_of s)\<rparr> else s);
          s2 = s1\<lparr>limiter_of := record_tokens (xe_mono ev 0) (tid t) (total_tokens (resp_usage resp))
                 (limiter_of s1)\<rparr>
      in case gateway resp of
           None \<Rightarrow> (Replied (Inr (Completion (reply_of ev body resp))), s2)
         | Some g \<Rightarrow> (Booking t body resp g, s2))"

definition book_row ::
  "app_env \<Rightarrow> tenant \<Rightarrow> chat_request \<Rightarrow> chat_response \<Rightarrow> gateway_meta \<Rightarrow> app_state \<Rightarrow> app_state"
where
  "book_row ev t body resp g s = (case xe_db_fails ev of
       Some e \<Rightarrow> s
     | None \<Rightarrow> s\<lparr>usage_of := insert_usage (usage_row ev t body resp g) (usage_of s)\<rparr>)"

definition note_spend :: "app_env \<Rightarrow> tenant \<Rightarrow> gateway_meta \<Rightarrow> app_state \<Rightarrow> app_state" where
  "note_spend ev t g s =
     (if amount (gm_cost_usd g)
      then s\<lparr>budget_of := record_spend (xe_mono ev 1) (xe_mono ev 2) (tid t) (the (gm_cost_usd g)) (budget_of s)\<rparr>
      else s)"

definition finish_booking ::
  "app_env \<Rightarrow> tenant \<Rightarrow> chat_request \<Rightarrow> chat_response \<Rightarrow> gateway_meta \<Rightarrow> app_state \<Rightarrow> task \<times> app_state"
where
  "finish_booking ev t body resp g s =
     (let (r, s1) = emit_metrics ev (completion_metrics t body resp g) (note_spend ev t g s)
      in case r of
           Inl e \<Rightarrow> (Replied (Inl (Internal e)), s1)
         | Inr u \<Rightarrow> (Replied (Inr (Completion (reply_of ev body resp))), s1\<lparr>spans_of := spans_of s1 @
             [set_llm_span_attributes (xe_recording ev) (xe_accepts ev) (span_attributes (tid t) (model body)
                (gm_provider g) (gm_upstream_model g) (prompt_tokens (resp_usage resp))
                (completion_tokens (resp_usage resp)) (gm_cost_usd g) (gm_cache g) (gm_fallback_used g))]\<rparr>))"

section \<open>The loop over the chain\<close>

text \<open>The loop runs to the next candidate whose circuit admits it, or to the end of the chain.\<close>

fun next_call ::
  "app_env \<Rightarrow> tenant \<Rightarrow> chat_request \<Rightarrow> seconds \<Rightarrow> candidate list \<Rightarrow> string list \<Rightarrow> last_error option
     \<Rightarrow> nat \<Rightarrow> app_state \<Rightarrow> task \<times> app_state"
where
  "next_call ev t body started [] attempts last_err n s =
     (Replied (Inl (http_error 502 (UpstreamsFailed attempts
        (case last_err of None \<Rightarrow> NoProvidersTried | Some e \<Rightarrow> e)) [])), s)"
| "next_call ev t body started ((p, x) # chain) attempts last_err n s =
     (case get_entry (registry_of s) p of
        None \<Rightarrow> next_call ev t body started chain attempts last_err (n + 3) s
      | Some e \<Rightarrow>
          (let (ok, b) = allow (mono (xe_route ev) n) (ebreaker e);
               s1 = s\<lparr>registry_of := set_breaker p b (registry_of s)\<rparr>
           in if \<not> ok then next_call ev t body started chain attempts last_err (n + 3) s1
              else (Calling t \<lparr>pc_body = body, pc_started = started, pc_provider = eprovider e,
                      pc_candidate = (p, x), pc_rest = chain, pc_attempts = attempts @ [attempt_label (p, x)],
                      pc_counter = n\<rparr>, s1)))"

text \<open>The breaker is updated as it is when the call returns; others may have changed it.\<close>

definition change_breaker :: "string \<Rightarrow> (breaker \<Rightarrow> breaker) \<Rightarrow> app_state \<Rightarrow> app_state" where
  "change_breaker p f s =
     s\<lparr>registry_of := AList.map_entry p (\<lambda>e. e\<lparr>ebreaker := f (ebreaker e)\<rparr>) (registry_of s)\<rparr>"

definition provider_returned ::
  "settings \<Rightarrow> app_env \<Rightarrow> tenant \<Rightarrow> pending_call \<Rightarrow> app_state \<Rightarrow> task \<times> app_state"
where
  "provider_returned st ev t k s =
     (let (p, x) = pc_candidate k; n = pc_counter k; body = pc_body k;
          failed = change_breaker p (record_failure (mono (xe_route ev) (n + 2))) s
      in case chat (pc_provider k) (n + 1) body x of
           Raised err \<Rightarrow>
             if \<not> pe_retryable err
             then (Replied (Inl (http_error 502 (UpstreamsFailed (pc_attempts k) (ProviderFailed err)) [])), failed)
             else next_call ev t body (pc_started k) (pc_rest k) (pc_attempts k) (Some (ProviderFailed err)) (n + 3) failed
         | Unexpected exc \<Rightarrow>
             next_call ev t body (pc_started k) (pc_rest k) (pc_attempts k) (Some (OtherException exc)) (n + 3) failed
         | Ok r \<Rightarrow>
             answered st ev t body (normalized_response (xe_route ev) (n + 2) (pc_started k) p r (pc_attempts k))
               (change_breaker p record_success s))"

definition start_route ::
  "settings \<Rightarrow> app_env \<Rightarrow> tenant \<Rightarrow> chat_request \<Rightarrow> app_state \<Rightarrow> task \<times> app_state"
where
  "start_route st ev t body s =
     (let (chain, reg, n) = resolve_chain (mono (xe_route ev)) (model body) (fallback_enabled st)
                              (xe_start ev) (registry_of s);
          s1 = s\<lparr>registry_of := reg\<rparr>
      in if chain = [] then (Replied (Inl (http_error 503 (NoProvider (model body)) [])), s1)
         else next_call ev t body (perf (xe_route ev) n) chain [] None n s1)"

section \<open>From the gate to the chain\<close>

definition look_up ::
  "settings \<Rightarrow> app_env \<Rightarrow> tenant \<Rightarrow> chat_request \<Rightarrow> app_state \<Rightarrow> task \<times> app_state"
where
  "look_up st ev t body s =
     (if \<not> semantic_cache_enabled st then start_route st ev t body s
      else (let b = get_cache st (cache_of s) in
        if stream body then start_route st ev t body (s\<lparr>cache_of := Some b\<rparr>)
        else (let (r, b') = lookup_stage st ev body b; s1 = s\<lparr>cache_of := Some b'\<rparr>
              in case r of
                   Inl e \<Rightarrow> (Replied (Inl (Internal e)), s1)
                 | Inr (Some cached) \<Rightarrow>
                     (let (x, s2) = serve_hit ev t body cached s1 in (Replied (map_sum id Completion x), s2))
                 | Inr None \<Rightarrow> start_route st ev t body s1)))"

definition enter :: "settings \<Rightarrow> client_call \<Rightarrow> tenant \<Rightarrow> app_state \<Rightarrow> task \<times> app_state" where
  "enter st q t s = (case cc_goal q of
       WantModels now \<Rightarrow> (Replied (Inr (Models (models_endpoint now t (registry_of s)))), s)
     | WantChat body \<Rightarrow>
         if \<not> model_allowed t (model body)
         then (Replied (Inl (http_error 403 (ModelForbidden (tid t) (model body)) [])), s)
         else (let (body1, found) = guard_stage st body;
                   (r, s1) = emit_metrics (cc_env q) (map (\<lambda>l. Inc GuardrailEvents [tid t, l] 1) found) s
               in case r of
                    Inl e \<Rightarrow> (Replied (Inl (Internal e)), s1)
                  | Inr u \<Rightarrow> look_up st (cc_env q) t body1 s1))"

text \<open>The gate up to the budget check: the two limits.\<close>

definition limits_stage ::
  "auth_env \<Rightarrow> tenant \<Rightarrow> app_state \<Rightarrow> (api_error + unit) \<times> app_state"
where
  "limits_stage ae t s =
     (let (r, lm) = check_request (ae_mono ae 0) (tid t) (rpm_limit t) (limiter_of s);
          s1 = s\<lparr>limiter_of := lm\<rparr>
      in case r of
           Inl e \<Rightarrow> (Inl (Internal e), s1)
         | Inr d \<Rightarrow>
             if \<not> allowed d
             then (let hs = (case retry_after_seconds d of None \<Rightarrow> []
                       | Some x \<Rightarrow> [(''Retry-After'', show_int (trunc x + 1))])
                   in (Inl (http_error 429 (case reason d of None \<Rightarrow> RateLimitExceeded
                         | Some r \<Rightarrow> Limited r) hs), s1))
             else (let (d, lm) = check_tokens (ae_mono ae 1) (tid t) (tpm_limit t) (limiter_of s1);
                       s2 = s1\<lparr>limiter_of := lm\<rparr>
                   in if \<not> allowed d
                      then (Inl (http_error 429 (case reason d of None \<Rightarrow> TokenLimitExceeded
                              | Some r \<Rightarrow> Limited r) []), s2)
                      else (Inr (), s2)))"

definition budget_decided ::
  "settings \<Rightarrow> client_call \<Rightarrow> tenant \<Rightarrow> budget_decision \<times> mtd_cache \<Rightarrow> app_state \<Rightarrow> task \<times> app_state"
where
  "budget_decided st q t dc s =
     (let s1 = s\<lparr>budget_of := snd dc\<rparr>; d = fst dc
      in if \<not> bd_allowed d
         then (Replied (Inl (http_error 402 (case bd_reason d of
                 None \<Rightarrow> BudgetSpentUnexplained (spent_usd d) (budget_usd d)
               | Some r \<Rightarrow> BudgetSpent r (spent_usd d) (budget_usd d)) [])), s1)
         else enter st q t s1)"

definition arrive :: "settings \<Rightarrow> client_call \<Rightarrow> app_state \<Rightarrow> task \<times> app_state" where
  "arrive st q s =
     (let ae = cc_auth q in
      if \<not> auth_enabled st then enter st q anonymous s
      else if \<not> given (cc_creds q)
      then (Replied (Inl (http_error 401 MissingBearer [(''WWW-Authenticate'', ''Bearer'')])), s)
      else (let (ks, kst) = get_keystore (ae_hash ae) (ae_environ ae) (keystore_of s);
                s1 = s\<lparr>keystore_of := kst\<rparr>
            in case ks of
                 Inl e \<Rightarrow> (Replied (Inl (Internal e)), s1)
               | Inr ks \<Rightarrow> (case lookup (ae_hash ae) (the (cc_creds q)) ks of
                     None \<Rightarrow> (Replied (Inl (http_error 401 InvalidKey [])), s1)
                   | Some r \<Rightarrow> (let t = ktenant r; (x, s2) = limits_stage ae t s1
                       in case x of
                            Inl e \<Rightarrow> (Replied (Inl e), s2)
                          | Inr u \<Rightarrow>
                              if asks_repository (ae_mono ae 2) t (budget_of s2) then (QueryingSpend t, s2)
                              else budget_decided st q t
                                     (check_budget (ae_mono ae 2) (ae_mono ae 3) (\<lambda>i. 0) t (budget_of s2)) s2))))"

section \<open>Resuming a task\<close>

fun advance :: "settings \<Rightarrow> client_call \<Rightarrow> task \<Rightarrow> app_state \<Rightarrow> task \<times> app_state" where
  "advance st q Arrived s = arrive st q s"
| "advance st q (QueryingSpend t) s =
     (SpendRead t (month_to_date_cost (ae_utc (cc_auth q)) (tid t) (usage_of s)), s)"
| "advance st q (SpendRead t spent) s =
     budget_decided st q t (after_answer (ae_mono (cc_auth q) 3) t spent (budget_of s)) s"
| "advance st q (Calling t k) s = provider_returned st (cc_env q) t k s"
| "advance st q (Booking t body resp g) s = (Booked t body resp g, book_row (cc_env q) t body resp g s)"
| "advance st q (Booked t body resp g) s = finish_booking (cc_env q) t body resp g s"
| "advance st q (Replied r) s = (Replied r, s)"

fun replied :: "task \<Rightarrow> bool" where
  "replied (Replied r) = True"
| "replied pc = False"

text \<open>A request that runs alone, up to its reply.\<close>

inductive completes :: "settings \<Rightarrow> client_call \<Rightarrow> task \<Rightarrow> app_state \<Rightarrow> api_error + service_reply \<Rightarrow> app_state \<Rightarrow> bool"
  for st q
where
  finished: "completes st q (Replied r) s r s"
| resumed: "\<not> replied pc \<Longrightarrow> advance st q pc s = (pc', s') \<Longrightarrow> completes st q pc' s' r s'' \<Longrightarrow> completes st q pc s r s''"

fun service_call_of :: "client_call \<Rightarrow> service_call" where
  "service_call_of q = (case cc_goal q of
       WantModels now \<Rightarrow> GetModels (cc_auth q) now (cc_creds q)
     | WantChat body \<Rightarrow> PostChat (cc_auth q) (cc_env q) (cc_creds q) body)"

section \<open>Run alone, a task is its handler\<close>

lemma completes_step:
  "completes st q (fst (advance st q pc s)) (snd (advance st q pc s)) r s' \<Longrightarrow> \<not> replied pc \<Longrightarrow>
     completes st q pc s r s'"
  by (rule completes.resumed [of _ _ _ _ "fst (advance st q pc s)" "snd (advance st q pc s)"]) simp_all

inductive_cases completes_Replied: "completes st q (Replied r) s r' s'"

lemma completes_unique: "completes st q pc s r s' \<Longrightarrow> completes st q pc s r2 s2 \<Longrightarrow> r2 = r \<and> s2 = s'"
proof (induction arbitrary: r2 s2 rule: completes.induct)
  case (finished r s)
  then show ?case by (elim completes_Replied) simp_all
next
  case (resumed pc s pc' s' r s'')
  from resumed.prems show ?case
  proof cases
    case finished
    with resumed.hyps(1) show ?thesis by simp
  next
    case (resumed pc2 s2')
    with \<open>advance st q pc s = (pc', s')\<close> have "completes st q pc' s' r2 s2" by simp
    then show ?thesis by (rule resumed.IH)
  qed
qed

text \<open>\<open>ends x y\<close>: the task of \<open>x\<close> in its state leads to the reply and the state of \<open>y\<close>.\<close>

definition ends :: "settings \<Rightarrow> client_call \<Rightarrow> task \<times> app_state \<Rightarrow> (api_error + service_reply) \<times> app_state \<Rightarrow> bool" where
  "ends st q x y \<longleftrightarrow> completes st q (fst x) (snd x) (fst y) (snd y)"

lemma ends_Replied [simp]: "ends st q (Replied r, s) (r', s') \<longleftrightarrow> r' = r \<and> s' = s"
  by (auto simp: ends_def intro: completes.finished elim: completes_Replied)

lemma ends_resumed: "ends st q (advance st q pc s) y \<Longrightarrow> \<not> replied pc \<Longrightarrow> ends st q (pc, s) y"
  unfolding ends_def fst_conv snd_conv by (rule completes_step)

lemma finish_booking_record:
  assumes "gateway resp = Some g"
  shows "finish_booking ev t body resp g (book_row ev t body resp g (s\<lparr>limiter_of :=
      record_tokens (xe_mono ev 0) (tid t) (total_tokens (resp_usage resp)) (limiter_of s)\<rparr>))
    = (let (r, s') = record_stage ev t body resp s
       in (Replied (case r of Inl e \<Rightarrow> Inl (Internal e) | Inr u \<Rightarrow> Inr (Completion (reply_of ev body resp))), s'))"
proof -
  define s2 where "s2 = note_spend ev t g (book_row ev t body resp g (s\<lparr>limiter_of :=
      record_tokens (xe_mono ev 0) (tid t) (total_tokens (resp_usage resp)) (limiter_of s)\<rparr>))"
  obtain r s3 where e: "emit_metrics ev (completion_metrics t body resp g) s2 = (r, s3)" by fastforce
  have "record_stage ev t body resp s = (let (r, s4) = emit_metrics ev (completion_metrics t body resp g) s2
      in case r of
           Inl e \<Rightarrow> (Inl e, s4)
         | Inr u \<Rightarrow> (Inr (), s4\<lparr>spans_of := spans_of s4 @
             [set_llm_span_attributes (xe_recording ev) (xe_accepts ev) (span_attributes (tid t) (model body)
                (gm_provider g) (gm_upstream_model g) (prompt_tokens (resp_usage resp))
                (completion_tokens (resp_usage resp)) (gm_cost_usd g) (gm_cache g) (gm_fallback_used g))]\<rparr>))"
    unfolding record_stage_def assms option.case Let_def note_spend_def book_row_def completion_metrics_def s2_def
    by (rule refl)
  then show ?thesis
    by (cases r) (simp_all add: finish_booking_def s2_def [symmetric] e)
qed

text \<open>The last part of \<open>upstream_stage\<close>, for a result of the router.\<close>

definition routed ::
  "settings \<Rightarrow> app_env \<Rightarrow> tenant \<Rightarrow> chat_request \<Rightarrow> app_state \<Rightarrow> (route_error + chat_response) \<times> registry
     \<Rightarrow> (api_error + reply) \<times> app_state"
where
  "routed st ev t body s out = (case fst out of
       Inl (NoProviderAvailable m) \<Rightarrow> (Inl (http_error 503 (NoProvider m) []), s\<lparr>registry_of := snd out\<rparr>)
     | Inl (AllProvidersFailed attempts err) \<Rightarrow>
         (Inl (http_error 502 (UpstreamsFailed attempts err) []), s\<lparr>registry_of := snd out\<rparr>)
     | Inr resp \<Rightarrow> (let (r, s3) = record_stage ev t body resp (stored st ev body resp (snd out) s)
         in (case r of Inl e \<Rightarrow> Inl (Internal e) | Inr u \<Rightarrow> Inr (reply_of ev body resp), s3)))"

lemma upstream_stage_routed:
  "upstream_stage st ev t body s =
     routed st ev t body s (route (xe_route ev) (fallback_enabled st) body (xe_start ev) (registry_of s))"
  by (auto simp: upstream_stage_def routed_def stored_def reply_of_def Let_def case_prod_unfold
      split: sum.split route_error.split)

lemma routed_registry [simp]: "routed st ev t body (s\<lparr>registry_of := reg\<rparr>) out = routed st ev t body s out"
  by (auto simp: routed_def stored_def Let_def split: sum.split route_error.split)

lemma routed_failed [simp]:
  "routed st ev t body s (Inl (NoProviderAvailable m), reg) = (Inl (http_error 503 (NoProvider m) []), s\<lparr>registry_of := reg\<rparr>)"
  "routed st ev t body s (Inl (AllProvidersFailed attempts err), reg) =
     (Inl (http_error 502 (UpstreamsFailed attempts err) []), s\<lparr>registry_of := reg\<rparr>)"
  by (simp_all add: routed_def)

fun served :: "(api_error + reply) \<times> app_state \<Rightarrow> (api_error + service_reply) \<times> app_state" where
  "served (r, s) = (map_sum id Completion r, s)"

lemma ends_answered:
  assumes "cc_env q = ev"
  shows "ends st q (answered st ev t body resp (s\<lparr>registry_of := reg\<rparr>)) (served (routed st ev t body s (Inr resp, reg)))"
proof (cases "gateway resp")
  case None
  then show ?thesis
    by (simp add: answered_def routed_def stored_def record_stage_def Let_def)
next
  case (Some g)
  define s1 where "s1 = stored st ev body resp reg s"
  define s2 where "s2 = s1\<lparr>limiter_of := record_tokens (xe_mono ev 0) (tid t) (total_tokens (resp_usage resp)) (limiter_of s1)\<rparr>"
  have a: "answered st ev t body resp (s\<lparr>registry_of := reg\<rparr>) = (Booking t body resp g, s2)"
    by (simp add: answered_def Some s2_def s1_def stored_def Let_def)
  obtain r s3 where rec: "record_stage ev t body resp s1 = (r, s3)" by fastforce
  have "ends st q (advance st q (Booked t body resp g) (book_row ev t body resp g s2))
      (served (routed st ev t body s (Inr resp, reg)))"
    using finish_booking_record [OF Some, of ev t body s1]
    by (cases r) (simp_all add: assms rec s2_def [symmetric] routed_def s1_def [symmetric])
  then show ?thesis
    unfolding a by (intro ends_resumed) (simp_all add: assms ends_resumed)
qed

lemma ends_next_call:
  assumes "cc_env q = ev"
  shows "ends st q (next_call ev t body started chain attempts le n s)
    (served (routed st ev t body s (route_loop (xe_route ev) body started chain attempts le n (registry_of s))))"
proof (induction chain arbitrary: attempts le n s)
  case Nil
  then show ?case by (simp add: routed_def)
next
  case (Cons c chain)
  obtain p x where c: "c = (p, x)" by fastforce
  show ?case
  proof (cases "get_entry (registry_of s) p")
    case None
    with Cons.IH show ?thesis by (simp add: c route_loop.simps(2))
  next
    case (Some e)
    obtain ok b where ok: "allow (mono (xe_route ev) n) (ebreaker e) = (ok, b)" by fastforce
    define reg1 where "reg1 = set_breaker p b (registry_of s)"
    have IH: "ends st q (next_call ev t body started chain attempts le n (s\<lparr>registry_of := reg\<rparr>))
        (served (routed st ev t body s (route_loop (xe_route ev) body started chain attempts le n reg)))"
      for attempts le n reg
      using Cons.IH [of attempts le n "s\<lparr>registry_of := reg\<rparr>"] by simp
    have ch: "change_breaker p f (s\<lparr>registry_of := reg1\<rparr>) = s\<lparr>registry_of := set_breaker p (f b) reg1\<rparr>" for f
      by (simp add: change_breaker_def reg1_def set_breaker_def map_entry_twice comp_def)
    show ?thesis
    proof (cases ok)
      case False
      with IH [of attempts le "n + 3" reg1] Some ok show ?thesis
        by (simp add: c route_loop.simps(2) reg1_def)
    next
      case True
      have "ends st q (provider_returned st ev t \<lparr>pc_body = body, pc_started = started, pc_provider = eprovider e,
            pc_candidate = (p, x), pc_rest = chain, pc_attempts = attempts @ [attempt_label (p, x)], pc_counter = n\<rparr>
          (s\<lparr>registry_of := reg1\<rparr>))
        (served (routed st ev t body s (route_loop (xe_route ev) body started (c # chain) attempts le n (registry_of s))))"
        using IH ends_answered [OF assms]
        by (cases "chat (eprovider e) (n + 1) body x")
           (simp_all add: provider_returned_def ch c route_loop.simps(2) Some ok True reg1_def [symmetric] Let_def)
      then show ?thesis
        by (auto simp: c Some ok True reg1_def [symmetric] assms intro!: ends_resumed)
    qed
  qed
qed

lemma ends_start_route:
  assumes "cc_env q = ev"
  shows "ends st q (start_route st ev t body s) (served (upstream_stage st ev t body s))"
proof -
  obtain chain reg n where c: "resolve_chain (mono (xe_route ev)) (model body) (fallback_enabled st)
      (xe_start ev) (registry_of s) = (chain, reg, n)" by (metis prod_cases3)
  show ?thesis
    using ends_next_call [OF assms, of st t body "perf (xe_route ev) n" chain "[]" None n "s\<lparr>registry_of := reg\<rparr>"]
    by (simp add: upstream_stage_routed start_route_def route_def c)
qed

lemma ends_look_up:
  assumes "cc_env q = ev"
  shows "ends st q (look_up st ev t body s) (served (cached_stage st ev t body s))"
proof -
  note up = ends_start_route [OF assms]
  show ?thesis
  proof (cases "semantic_cache_enabled st \<and> \<not> stream body")
    case True
    obtain r b where l: "lookup_stage st ev body (get_cache st (cache_of s)) = (r, b)" by fastforce
    show ?thesis
    proof (cases r)
      case (Inl e)
      with True l show ?thesis by (simp add: look_up_def cached_stage_def)
    next
      case (Inr found)
      obtain x s2 where h: "\<And>cached. found = Some cached \<Longrightarrow> serve_hit ev t body cached (s\<lparr>cache_of := Some b\<rparr>) = (x, s2)"
        by (cases found) fastforce+
      show ?thesis
        using True l Inr up h by (cases found) (simp_all add: look_up_def cached_stage_def)
    qed
  qed (use up in \<open>auto simp: look_up_def cached_stage_def\<close>)
qed

text \<open>What the handler does for a tenant the gate has let through.\<close>

definition handle :: "settings \<Rightarrow> client_call \<Rightarrow> tenant \<Rightarrow> app_state \<Rightarrow> (api_error + service_reply) \<times> app_state" where
  "handle st q t s = (case cc_goal q of
       WantModels now \<Rightarrow> (Inr (Models (models_endpoint now t (registry_of s))), s)
     | WantChat body \<Rightarrow> served (chat_completions st (cc_env q) t body s))"

lemma ends_enter: "ends st q (enter st q t s) (handle st q t s)"
proof (cases "cc_goal q")
  case (WantChat body)
  obtain body1 found where g: "guard_stage st body = (body1, found)" by fastforce
  obtain r s1 where e: "emit_metrics (cc_env q) (map (\<lambda>l. Inc GuardrailEvents [tid t, l] 1) found) s = (r, s1)" by fastforce
  show ?thesis
    using ends_look_up [OF refl, of st q t body1 s1]
    by (cases r) (simp_all add: WantChat enter_def handle_def chat_completions_def g e)
qed (simp add: enter_def handle_def)

section \<open>The gate\<close>

lemma request_stage_limits:
  "request_stage ae t s = (case limits_stage ae t s of
       (Inl e, s1) \<Rightarrow> (Inl e, s1)
     | (Inr u, s1) \<Rightarrow> budget_stage ae t s1)"
  by (auto simp: request_stage_def token_stage_def limits_stage_def Let_def split: prod.split sum.split)

text \<open>After the gate: its reply, or the handler.\<close>

definition after_gate ::
  "settings \<Rightarrow> client_call \<Rightarrow> (api_error + tenant) \<times> app_state \<Rightarrow> (api_error + service_reply) \<times> app_state"
where
  "after_gate st q out = (case fst out of Inl e \<Rightarrow> (Inl e, snd out) | Inr t \<Rightarrow> handle st q t (snd out))"

lemma budget_decided_gate:
  assumes "check_budget (ae_mono ae 2) (ae_mono ae 3) (\<lambda>i. month_to_date_cost (ae_utc ae) i (usage_of s)) t (budget_of s) = dc"
  shows "ends st q (budget_decided st q t dc s) (after_gate st q (budget_stage ae t s))"
  using ends_enter
  by (auto simp: budget_decided_def budget_stage_def after_gate_def assms case_prod_unfold Let_def)

lemma ends_budget:
  assumes "ae = cc_auth q"
  shows "ends st q (if asks_repository (ae_mono ae 2) t (budget_of s) then (QueryingSpend t, s)
      else budget_decided st q t (check_budget (ae_mono ae 2) (ae_mono ae 3) (\<lambda>i. 0) t (budget_of s)) s)
    (after_gate st q (budget_stage ae t s))"
proof (cases "asks_repository (ae_mono ae 2) t (budget_of s)")
  case True
  have "ends st q (advance st q (SpendRead t (month_to_date_cost (ae_utc ae) (tid t) (usage_of s))) s)
      (after_gate st q (budget_stage ae t s))"
    using budget_decided_gate [OF check_budget_asks [OF True]] by (simp add: assms)
  then have "ends st q (advance st q (QueryingSpend t) s) (after_gate st q (budget_stage ae t s))"
    unfolding advance.simps(2) assms [symmetric] by (rule ends_resumed) simp
  then have "ends st q (QueryingSpend t, s) (after_gate st q (budget_stage ae t s))"
    by (rule ends_resumed) simp
  with True show ?thesis by simp
next
  case False
  from budget_decided_gate [OF check_budget_no_query(1) [OF this]] False show ?thesis by simp
qed

lemma arrive_known:
  assumes "auth_enabled st" "given (cc_creds q)"
    and "get_keystore (ae_hash (cc_auth q)) (ae_environ (cc_auth q)) (keystore_of s) = (Inr ks, kst)"
    and "lookup (ae_hash (cc_auth q)) (the (cc_creds q)) ks = Some kr"
    and "limits_stage (cc_auth q) (ktenant kr) (s\<lparr>keystore_of := kst\<rparr>) = (x, s2)"
  shows "arrive st q s = (case x of
      Inl e \<Rightarrow> (Replied (Inl e), s2)
    | Inr u \<Rightarrow> if asks_repository (ae_mono (cc_auth q) 2) (ktenant kr) (budget_of s2) then (QueryingSpend (ktenant kr), s2)
        else budget_decided st q (ktenant kr)
          (check_budget (ae_mono (cc_auth q) 2) (ae_mono (cc_auth q) 3) (\<lambda>i. 0) (ktenant kr) (budget_of s2)) s2)"
  using assms by (simp add: arrive_def Let_def cong: sum.case_cong)

lemma ends_arrive: "ends st q (arrive st q s) (after_gate st q (get_current_tenant st (cc_auth q) (cc_creds q) s))"
proof (cases "auth_enabled st \<and> given (cc_creds q)")
  case True
  obtain r kst where k: "get_keystore (ae_hash (cc_auth q)) (ae_environ (cc_auth q)) (keystore_of s) = (r, kst)" by fastforce
  show ?thesis
  proof (cases r)
    case (Inl e)
    with True k show ?thesis by (simp add: arrive_def get_current_tenant_def after_gate_def)
  next
    case (Inr ks)
    show ?thesis
    proof (cases "lookup (ae_hash (cc_auth q)) (the (cc_creds q)) ks")
      case None
      with True k Inr show ?thesis by (simp add: arrive_def get_current_tenant_def after_gate_def)
    next
      case (Some kr)
      obtain x s2 where l: "limits_stage (cc_auth q) (ktenant kr) (s\<lparr>keystore_of := kst\<rparr>) = (x, s2)" by fastforce
      show ?thesis
        using True k Inr Some arrive_known [OF _ _ _ Some l, of st] l
          ends_budget [OF refl, where q = q and t = "ktenant kr" and s = s2 and st = st]
        by (cases x) (simp_all add: get_current_tenant_def request_stage_limits after_gate_def Let_def)
    qed
  qed
qed (use ends_enter in \<open>auto simp: arrive_def get_current_tenant_def after_gate_def\<close>)

section \<open>Property\<close>

lemma serve_after_gate:
  "serve st (service_call_of q) s = after_gate st q (get_current_tenant st (cc_auth q) (cc_creds q) s)"
proof (cases "cc_goal q")
  case (WantChat body)
  have "map_prod (map_sum id Completion) id = served" by (rule ext) (simp add: split_paired_all)
  then show ?thesis
    by (auto simp: WantChat post_chat_completions_def after_gate_def handle_def Let_def case_prod_unfold split: sum.split)
qed (auto simp: get_models_def after_gate_def handle_def Let_def case_prod_unfold split: sum.split)


end
