(* ===== verification/Interleaving.thy ===== *)
theory Interleaving
  imports Coroutine
begin

text \<open>
  The service under load: any number of requests in flight, resumed in any order, with the
  operator's calls in between. A system is the state of the process with its tasks; a
  scheduler is a list of moves. The properties of \<open>Service\<close> and \<open>Gateway\<close> that speak of one request after
  the other are stated here for every interleaving.
\<close>

section \<open>Systems\<close>

record system =
  sys_state :: app_state
  sys_tasks :: "(client_call \<times> task) list"

datatype move = Arrival client_call | Resume nat | Operator auth_env "string option" admin_op

fun perform :: "settings \<Rightarrow> move \<Rightarrow> system \<Rightarrow> system" where
  "perform st (Arrival q) x = x\<lparr>sys_tasks := sys_tasks x @ [(q, Arrived)]\<rparr>"
| "perform st (Resume i) x =
     (if i < length (sys_tasks x)
      then (let (q, pc) = sys_tasks x ! i; (pc', s') = advance st q pc (sys_state x)
            in x\<lparr>sys_state := s', sys_tasks := (sys_tasks x)[i := (q, pc')]\<rparr>)
      else x)"
| "perform st (Operator ae key op) x = x\<lparr>sys_state := snd (admin_call st ae key op (sys_state x))\<rparr>"

definition schedule :: "settings \<Rightarrow> move list \<Rightarrow> system \<Rightarrow> system" where
  "schedule st moves x = fold (perform st) moves x"

definition idle_system :: "app_state \<Rightarrow> system" where
  "idle_system s = \<lparr>sys_state = s, sys_tasks = []\<rparr>"

text \<open>An invariant of the moves holds along a schedule.\<close>

lemma schedule_invariant:
  assumes "P x" "\<And>mv x. mv \<in> set moves \<Longrightarrow> P x \<Longrightarrow> P (perform st mv x)"
  shows "P (schedule st moves x)"
  using assms unfolding schedule_def by (induction moves arbitrary: x) auto

lemma perform_calls:
  "map fst (sys_tasks (perform st mv x)) = map fst (sys_tasks x) @ (case mv of Arrival q \<Rightarrow> [q] | _ \<Rightarrow> [])"
proof (cases mv)
  case (Resume i)
  have "i < length ts \<Longrightarrow> map fst (ts[i := (fst (ts ! i), pc)]) = map fst ts" for ts :: "(client_call \<times> task) list" and pc
    by (metis fst_conv list_update_id map_update nth_map)
  with Resume show ?thesis by (simp add: Let_def case_prod_unfold)
qed simp_all

section \<open>Typing of tasks\<close>

definition internal_cause :: "client_call \<Rightarrow> py_exc \<Rightarrow> bool" where
  "internal_cause q e \<longleftrightarrow>
     e = ValueError \<and> seed_from_env (ae_hash (cc_auth q)) (ae_environ (cc_auth q)) [] = Inl ValueError
   \<or> e = IndexError \<and> given (cc_creds q)
   \<or> (\<exists>c. xe_sink (cc_env q) c = Some e)"

definition reply_typed :: "client_call \<Rightarrow> api_error + service_reply \<Rightarrow> bool" where
  "reply_typed q r \<longleftrightarrow> (case r of
       Inr rep \<Rightarrow> answer_typed (service_call_of q) rep
     | Inl (Http h) \<Rightarrow> error_status (service_call_of q) (detail h) = Some (status_code h)
     | Inl (Internal e) \<Rightarrow> internal_cause q e)"

text \<open>A task that got past the cache works for a chat request, on its cleaned body.\<close>

definition works_on :: "settings \<Rightarrow> client_call \<Rightarrow> chat_request \<Rightarrow> bool" where
  "works_on st q body \<longleftrightarrow> (\<exists>b. cc_goal q = WantChat b \<and> body = cleaned st b)"

fun task_ok :: "settings \<Rightarrow> client_call \<Rightarrow> task \<Rightarrow> bool" where
  "task_ok st q (Calling t k) \<longleftrightarrow> works_on st q (pc_body k) \<and> pc_attempts k \<noteq> []"
| "task_ok st q (Booking t body resp g) \<longleftrightarrow> works_on st q body \<and> answer_ok CacheMiss resp \<and> gateway resp = Some g"
| "task_ok st q (Booked t body resp g) \<longleftrightarrow> works_on st q body \<and> answer_ok CacheMiss resp \<and> gateway resp = Some g"
| "task_ok st q (Replied r) \<longleftrightarrow> reply_typed q r"
| "task_ok st q pc \<longleftrightarrow> True"

definition move_ok :: "settings \<Rightarrow> client_call \<Rightarrow> task \<times> app_state \<Rightarrow> bool" where
  "move_ok st q out \<longleftrightarrow> process_ok st (snd out) \<and> task_ok st q (fst out)"

definition system_ok :: "settings \<Rightarrow> system \<Rightarrow> bool" where
  "system_ok st x \<longleftrightarrow> process_ok st (sys_state x) \<and> (\<forall>(q, pc) \<in> set (sys_tasks x). task_ok st q pc)"

section \<open>Every step keeps the types\<close>

lemma chat_error_typed:
  "cc_goal q = WantChat b \<Longrightarrow> chat_status d = Some n \<Longrightarrow> reply_typed q (Inl (http_error n d hs))"
  by (simp add: reply_typed_def http_error_def chat_not_auth)

lemma gate_error_typed:
  "auth_status d = Some n \<Longrightarrow> reply_typed q (Inl (http_error n d hs))"
  by (cases "cc_goal q") (simp_all add: reply_typed_def http_error_def)

lemma works_onE: "works_on st q body \<Longrightarrow> (\<And>b. cc_goal q = WantChat b \<Longrightarrow> body = cleaned st b \<Longrightarrow> P) \<Longrightarrow> P"
  by (auto simp: works_on_def)

lemma reply_of_typed:
  assumes "works_on st q body" "answer_ok CacheMiss resp"
  shows "reply_typed q (Inr (Completion (reply_of ev body resp)))"
  using assms unfolding reply_typed_def works_on_def reply_of_def by fastforce

lemma wf_change_breaker:
  assumes "process_ok st s" "\<And>b. breaker_inv b \<Longrightarrow> breaker_inv (f b)"
  shows "process_ok st (change_breaker p f s)"
proof -
  have "wf_registry (AList.map_entry p (\<lambda>e. e\<lparr>ebreaker := f (ebreaker e)\<rparr>) (registry_of s))"
    using process_okD(5) [OF assms(1)] assms(2)
    by (fastforce simp: wf_registry_def dest!: set_map_entry_dict)
  then show ?thesis unfolding change_breaker_def by (rule process_ok_updates(5) [OF assms(1)])
qed

lemma handled_typed:
  assumes "cc_goal q = WantChat b" "handled st (cc_env q) b (r, s')"
  shows "move_ok st q (Replied (map_sum id Completion r), s')"
  using assms
  by (auto simp: handled_def move_ok_def reply_typed_def internal_cause_def chat_not_auth split: sum.splits api_error.splits)

lemma next_call_ok:
  assumes "process_ok st s" "works_on st q body"
  shows "move_ok st q (next_call ev t body started chain attempts le n s)"
  using assms(1)
proof (induction chain arbitrary: attempts le n s)
  case Nil
  then show ?case using assms(2) by (auto simp: move_ok_def works_on_def intro: chat_error_typed)
next
  case (Cons c chain)
  obtain p x where c: "c = (p, x)" by fastforce
  show ?case
  proof (cases "get_entry (registry_of s) p")
    case None
    with Cons show ?thesis by (simp add: c)
  next
    case (Some e)
    obtain ok b where ok: "allow (mono (xe_route ev) n) (ebreaker e) = (ok, b)" by fastforce
    have "breaker_inv (ebreaker e)" using wf_registryD [OF process_okD(5) [OF Cons.prems]] Some by (simp add: get_entry_def)
    then have "breaker_inv b" using breaker_inv_allow [of "ebreaker e"] ok by (metis snd_conv)
    then have "process_ok st (s\<lparr>registry_of := set_breaker p b (registry_of s)\<rparr>)"
      by (intro process_ok_updates(5) [OF Cons.prems] wf_set_breaker process_okD(5) [OF Cons.prems])
    with Cons.IH assms(2) ok Some show ?thesis by (simp add: c move_ok_def Let_def)
  qed
qed

lemma answered_ok:
  assumes "settings_ok st" "process_ok st s" "works_on st q body" "answer_ok CacheMiss resp"
  shows "move_ok st q (answered st ev t body resp s)"
proof -
  obtain g where g: "gateway resp = Some g" using assms(4) by (auto simp: answer_ok_def split: option.splits)
  define s1 where "s1 = (if semantic_cache_enabled st \<and> \<not> stream body
      then s\<lparr>cache_of := map_option (store_stage st ev body resp) (cache_of s)\<rparr> else s)"
  have s1: "process_ok st s1"
  proof (cases "semantic_cache_enabled st \<and> \<not> stream body")
    case True
    then have "case map_option (store_stage st ev body resp) (cache_of s) of None \<Rightarrow> True | Some b \<Rightarrow> backend_ok st b"
      using process_okD(6) [OF assms(2)] store_stage_ok [OF assms(1) _ _ assms(4)] by (cases "cache_of s") simp_all
    with True assms(2) show ?thesis by (simp add: s1_def process_ok_def auth_ok_def)
  next
    case False
    with assms(2) show ?thesis by (auto simp: s1_def)
  qed
  have "process_ok st (s1\<lparr>limiter_of := record_tokens (xe_mono ev 0) (tid t) (total_tokens (resp_usage resp)) (limiter_of s1)\<rparr>)"
    by (intro process_ok_updates(1) [OF s1] limiter_ok_ops process_okD [OF s1])
  then show ?thesis
    by (simp add: move_ok_def answered_def g s1_def [symmetric] assms(3,4))
qed

lemma provider_returned_ok:
  assumes "settings_ok st" "process_ok st s" "works_on st q (pc_body k)" "pc_attempts k \<noteq> []"
  shows "move_ok st q (provider_returned st (cc_env q) t k s)"
proof -
  obtain p x where px: "pc_candidate k = (p, x)" by fastforce
  have failed: "process_ok st (change_breaker p (record_failure now) s)" for now
    by (rule wf_change_breaker [OF assms(2)]) blast
  have returned: "process_ok st (change_breaker p record_success s)"
    by (rule wf_change_breaker [OF assms(2)]) blast
  have ans: "answer_ok CacheMiss (normalized_response renv n started p r (pc_attempts k))" for renv n started r
    using assms(4) by (simp add: answer_ok_def normalized_response_def pr_total_tokens_def)
  have lost: "reply_typed q (Inl (http_error 502 (UpstreamsFailed (pc_attempts k) err) []))" for err
    using assms(3) by (auto simp: works_on_def intro: chat_error_typed)
  show ?thesis
    using next_call_ok [OF failed assms(3)] answered_ok [OF assms(1) returned assms(3) ans] failed lost
    by (auto simp: provider_returned_def px Let_def move_ok_def split: chat_outcome.split)
qed

lemma start_route_ok:
  assumes "process_ok st s" "works_on st q body"
  shows "move_ok st q (start_route st ev t body s)"
proof -
  obtain chain reg n where c: "resolve_chain (mono (xe_route ev)) (model body) (fallback_enabled st)
      (xe_start ev) (registry_of s) = (chain, reg, n)" by (metis prod_cases3)
  then have "reg = poll_reg (mono (xe_route ev)) (polled (model body)) (xe_start ev) (registry_of s)"
    by (simp add: resolve_chain_eq)
  then have "wf_registry reg" using wf_poll [OF process_okD(5) [OF assms(1)]] by simp
  then have s1: "process_ok st (s\<lparr>registry_of := reg\<rparr>)" by (rule process_ok_updates(5) [OF assms(1)])
  have "reply_typed q (Inl (http_error 503 (NoProvider (model body)) []))"
    using assms(2) by (auto simp: works_on_def intro: chat_error_typed)
  with s1 next_call_ok [OF s1 assms(2)] show ?thesis by (simp add: start_route_def c move_ok_def Let_def)
qed

lemma look_up_ok:
  assumes "settings_ok st" "process_ok st s" "works_on st q body"
  shows "move_ok st q (look_up st (cc_env q) t body s)"
proof (cases "semantic_cache_enabled st")
  case True
  define b where "b = get_cache st (cache_of s)"
  have b: "backend_ok st b" unfolding b_def by (rule get_cache_ok [OF assms(1) process_okD(6) [OF assms(2)]])
  obtain r b' where lk: "lookup_stage st (cc_env q) body b = (r, b')" by fastforce
  obtain found where f: "r = Inr found" "backend_ok st b'" "\<And>v. found = Some v \<Longrightarrow> answer_ok CacheMiss v"
    using lookup_stage_ok [OF b lk] by blast
  note s1 = process_ok_updates(6) [OF assms(2) f(2)]
  obtain b0 where b0: "cc_goal q = WantChat b0" "body = cleaned st b0" using assms(3) by (auto simp: works_on_def)
  have hit: "move_ok st q (Replied (map_sum id Completion x), s2)"
    if "\<not> stream body" "found = Some v" "serve_hit (cc_env q) t body v (s\<lparr>cache_of := Some b'\<rparr>) = (x, s2)" for v x s2
  proof -
    have "\<not> stream b0" using that(1) b0(2) by simp
    from serve_hit_ok [OF s1 f(3) [OF that(2)] this, of "cc_env q" t body] that(3) b0(1)
    show ?thesis by (auto intro: handled_typed)
  qed
  show ?thesis
    using True lk f(1) hit start_route_ok [OF process_ok_updates(6) [OF assms(2) b] assms(3)]
      start_route_ok [OF s1 assms(3)]
    by (cases found) (simp_all add: look_up_def b_def [symmetric] Let_def case_prod_unfold)
qed (simp add: look_up_def start_route_ok [OF assms(2,3)])

lemma enter_ok:
  assumes "settings_ok st" "process_ok st s"
  shows "move_ok st q (enter st q t s)"
proof (cases "cc_goal q")
  case (WantModels now)
  with assms(2) show ?thesis by (auto simp: enter_def move_ok_def reply_typed_def models_endpoint_def)
next
  case (WantChat body)
  obtain r s1 where e: "emit_metrics (cc_env q) (guard_metrics st t body) s = (r, s1)" by fastforce
  have "stage_ok st (cc_env q) (\<lambda>_. True) (emit_metrics (cc_env q) (guard_metrics st t body) s)"
    unfolding guard_metrics_def by (rule emit_metrics_ok [OF assms(2) metric_ok_guard])
  then have s1: "process_ok st s1" "\<And>e. r = Inl e \<Longrightarrow> internal_cause q e"
    by (auto simp: e stage_ok_def internal_cause_def)
  have "works_on st q (cleaned st body)" using WantChat by (auto simp: works_on_def)
  from look_up_ok [OF assms(1) s1(1) this] s1 e show ?thesis
    using assms(2) chat_error_typed [OF WantChat, of "ModelForbidden (tid t) (model body)" 403 "[]"]
    by (cases r) (auto simp: enter_def WantChat move_ok_def reply_typed_def guard_metrics_def cleaned_def Let_def case_prod_unfold)
qed

lemma limits_stage_ok:
  assumes "process_ok st s" "limits_stage ae t s = (x, s')"
  shows "process_ok st s' \<and> keystore_of s' = keystore_of s \<and> (case x of
       Inr u \<Rightarrow> True
     | Inl (Http h) \<Rightarrow> auth_status (detail h) = Some (status_code h)
     | Inl (Internal e) \<Rightarrow> e = IndexError)"
proof -
  obtain y s'' where b: "budget_stage ae t s' = (y, s'')" by fastforce
  obtain r lm where r: "check_request (ae_mono ae 0) (tid t) (rpm_limit t) (limiter_of s) = (r, lm)" by fastforce
  obtain d lm' where d: "check_tokens (ae_mono ae 1) (tid t) (tpm_limit t) lm = (d, lm')" by fastforce
  have ok: "limiter_ok lm" "limiter_ok lm'"
    using limiter_ok_ops(1) [OF process_okD(1) [OF assms(1)], of "ae_mono ae 0" "tid t" "rpm_limit t"]
      limiter_ok_ops(2) [of lm "ae_mono ae 1" "tid t" "tpm_limit t"] r d by simp_all
  have s': "process_ok st s'" "keystore_of s' = keystore_of s"
    using assms(2) ok process_ok_updates(1) [OF assms(1)]
    by (auto simp: limits_stage_def r d [simplified] Let_def split: sum.splits if_splits)
  show ?thesis
  proof (cases x)
    case (Inl e)
    then have "request_stage ae t s = (Inl e, s')" by (simp add: request_stage_limits assms(2))
    from request_stage_ok [OF assms(1) this] s' Inl show ?thesis by (auto split: api_error.splits)
  qed (use s' in simp)
qed

lemma budget_decided_ok:
  assumes "settings_ok st" "process_ok st s" "mtd_ok (snd dc)" "\<not> bd_allowed (fst dc) \<Longrightarrow> bd_reason (fst dc) \<noteq> None"
  shows "move_ok st q (budget_decided st q t dc s)"
proof -
  have s1: "process_ok st (s\<lparr>budget_of := snd dc\<rparr>)" using assms(3) by (rule process_ok_updates(2) [OF assms(2)])
  have "auth_status (BudgetSpent r x b) = Some 402" for r x b by simp
  from gate_error_typed [OF this] enter_ok [OF assms(1) s1] s1 assms(4) show ?thesis
    by (auto simp: budget_decided_def move_ok_def Let_def)
qed

text \<open>The rest of the gate, once a key is known.\<close>

lemma key_known_ok:
  assumes "settings_ok st" "process_ok st s" "limits_stage ae t s = (x, s2)" "ae = cc_auth q" "given (cc_creds q)"
    and arr: "out = (case x of
        Inl e \<Rightarrow> (Replied (Inl e), s2)
      | Inr u \<Rightarrow> if asks_repository (ae_mono ae 2) t (budget_of s2) then (QueryingSpend t, s2)
          else budget_decided st q t (check_budget (ae_mono ae 2) (ae_mono ae 3) (\<lambda>i. 0) t (budget_of s2)) s2)"
  shows "move_ok st q out"
proof -
  note lo = limits_stage_ok [OF assms(2,3)]
  show ?thesis
  proof (cases x)
    case (Inl e)
    have "reply_typed q (Inl e)"
    proof (cases e)
      case (Http h)
      with lo Inl have "auth_status (detail h) = Some (status_code h)" by simp
      then show ?thesis unfolding Http by (cases "cc_goal q") (simp_all add: reply_typed_def)
    qed (use lo Inl assms(5) in \<open>simp add: reply_typed_def internal_cause_def\<close>)
    with lo show ?thesis by (simp add: arr Inl move_ok_def)
  next
    case (Inr u)
    have s2: "process_ok st s2" using lo by blast
    have "move_ok st q (budget_decided st q t (check_budget (ae_mono ae 2) (ae_mono ae 3) (\<lambda>i. 0) t (budget_of s2)) s2)"
    proof (rule budget_decided_ok [OF assms(1) s2])
      show "mtd_ok (snd (check_budget (ae_mono ae 2) (ae_mono ae 3) (\<lambda>i. 0) t (budget_of s2)))"
        by (rule mtd_ok_ops(2) [OF process_okD(2) [OF s2]])
    qed (auto simp: check_budget_def Let_def split: option.splits if_splits prod.splits)
    with s2 show ?thesis by (simp add: arr Inr move_ok_def)
  qed
qed

lemma arrive_ok:
  assumes "settings_ok st" "process_ok st s"
  shows "move_ok st q (arrive st q s)"
proof (cases "auth_enabled st \<and> given (cc_creds q)")
  case True
  define ae where "ae = cc_auth q"
  obtain r kst where k: "get_keystore (ae_hash ae) (ae_environ ae) (keystore_of s) = (r, kst)" by fastforce
  note ko = get_keystore_ok [OF process_okD(4) [OF assms(2)] k]
  have s1: "process_ok st (s\<lparr>keystore_of := kst\<rparr>)" using ko by (intro process_ok_updates(4) [OF assms(2)]) simp
  show ?thesis
  proof (cases r)
    case (Inl e)
    with True k ko s1 show ?thesis
      by (auto simp: arrive_def ae_def [symmetric] move_ok_def reply_typed_def internal_cause_def)
  next
    case (Inr ks)
    show ?thesis
    proof (cases "lookup (ae_hash ae) (the (cc_creds q)) ks")
      case None
      have "auth_status InvalidKey = Some 401" by simp
      from gate_error_typed [OF this] True k Inr None s1 show ?thesis
        by (simp add: arrive_def ae_def [symmetric] move_ok_def)
    next
      case (Some kr)
      define t where "t = ktenant kr"
      obtain x s2 where l: "limits_stage ae t (s\<lparr>keystore_of := kst\<rparr>) = (x, s2)" by fastforce
      have arr: "arrive st q s = (case x of
          Inl e \<Rightarrow> (Replied (Inl e), s2)
        | Inr u \<Rightarrow> if asks_repository (ae_mono ae 2) t (budget_of s2) then (QueryingSpend t, s2)
            else budget_decided st q t (check_budget (ae_mono ae 2) (ae_mono ae 3) (\<lambda>i. 0) t (budget_of s2)) s2)"
        using True k Inr Some l unfolding ae_def t_def by (intro arrive_known) simp_all
      show ?thesis by (rule key_known_ok [OF assms(1) s1 l ae_def True [THEN conjunct2] arr])
    qed
  qed
next
  case False
  have "auth_status MissingBearer = Some 401" by simp
  from gate_error_typed [OF this] enter_ok [OF assms] False assms(2) show ?thesis
    by (auto simp: arrive_def move_ok_def Let_def)
qed

lemma booking_ok:
  assumes "process_ok st s" "works_on st q body" "answer_ok CacheMiss resp" "gateway resp = Some g"
  shows "process_ok st (book_row ev t body resp g s)" "move_ok st q (finish_booking (cc_env q) t body resp g s)"
proof -
  show "process_ok st (book_row ev t body resp g s)"
    using assms(1)
    by (auto simp: book_row_def intro!: process_ok_updates(3) table_ok_insert row_ok_usage assms(3,4) process_okD
        split: option.split)
  have s1: "process_ok st (note_spend (cc_env q) t g s)"
    unfolding note_spend_def using assms(1) by (auto intro!: process_ok_updates(2) mtd_ok_ops process_okD)
  obtain r s2 where e: "emit_metrics (cc_env q) (completion_metrics t body resp g) (note_spend (cc_env q) t g s) = (r, s2)"
    by fastforce
  have "stage_ok st (cc_env q) (\<lambda>_. True) (r, s2)"
    using emit_metrics_ok [OF s1 metric_ok_completion] e unfolding completion_metrics_def by metis
  then show "move_ok st q (finish_booking (cc_env q) t body resp g s)"
    using reply_of_typed [OF assms(2,3), of "cc_env q"]
    by (cases r) (auto simp: finish_booking_def e move_ok_def stage_ok_def process_ok_updates(7) reply_typed_def internal_cause_def)
qed

lemma advance_ok:
  assumes "settings_ok st" "process_ok st s" "task_ok st q pc"
  shows "move_ok st q (advance st q pc s)"
proof (cases pc)
  case (SpendRead t v)
  show ?thesis
    unfolding SpendRead advance.simps
    by (rule budget_decided_ok [OF assms(1,2)])
       (auto simp: after_answer_def Let_def mtd_ok_ops(1) process_okD(2) [OF assms(2)] split: if_splits)
qed (use assms arrive_ok provider_returned_ok booking_ok in \<open>auto simp: move_ok_def\<close>)

lemma perform_ok:
  assumes "settings_ok st" "system_ok st x"
  shows "system_ok st (perform st mv x)"
proof (cases mv)
  case (Resume i)
  show ?thesis
  proof (cases "i < length (sys_tasks x)")
    case True
    obtain q pc where i: "sys_tasks x ! i = (q, pc)" by fastforce
    then have "(q, pc) \<in> set (sys_tasks x)" using True by (metis nth_mem)
    then have "move_ok st q (advance st q pc (sys_state x))"
      using assms by (intro advance_ok) (auto simp: system_ok_def)
    then show ?thesis
      using True i assms(2) set_update_subset_insert [of "sys_tasks x" i]
      by (fastforce simp: Resume system_ok_def move_ok_def Let_def case_prod_unfold)
  qed (use assms(2) Resume in simp)
next
  case (Operator ae key op)
  have "operated st ae (sys_state x) (admin_call st ae key op (sys_state x))"
    using assms(2) by (intro admin_call_ok) (simp add: system_ok_def)
  with assms(2) Operator show ?thesis by (simp add: system_ok_def operated_def)
qed (use assms in \<open>auto simp: system_ok_def\<close>)

lemma idle_system_ok: "settings_ok st \<Longrightarrow> system_ok st (idle_system (fresh_process st bedrock openai))"
  by (simp add: system_ok_def idle_system_def fresh_process_ok)

section \<open>Type safety under load\<close>


text \<open>A visitor with an unknown key, and one that is still waiting.\<close>

definition demo_visitor :: client_call where
  "demo_visitor = \<lparr>cc_auth = demo_seeded, cc_env = demo_app_env, cc_creds = Some ''no'', cc_goal = WantModels 0\<rparr>"

lemma demo_visit:
  "schedule demo_live [Arrival demo_visitor, Arrival demo_visitor, Resume 1] (idle_system demo_fresh)
    = \<lparr>sys_state = demo_open_process,
       sys_tasks = [(demo_visitor, Arrived), (demo_visitor, Replied (Inl (http_error 401 InvalidKey [])))]\<rparr>"
proof -
  have "get_keystore (ae_hash demo_seeded) (ae_environ demo_seeded) (keystore_of demo_fresh)
      = (Inr [(''key'', demo_record)], Some [(''key'', demo_record)])"
    by (simp add: get_keystore_def fresh_process_def demo_seed)
  moreover have "lookup (ae_hash demo_seeded) ''no'' [(''key'', demo_record)] = None"
    by (simp add: lookup_def demo_seeded_def demo_auth_env_def)
  ultimately show ?thesis
    by (simp add: schedule_def idle_system_def demo_visitor_def arrive_def demo_live(2) demo_open_process_def)
qed


end
