(* ===== verification/Step_Effects.thy ===== *)
theory Step_Effects
  imports Interleaving
begin

text \<open>
  What a resumption of a task does to the limiter, the budget cache and the books, case by case:
  the facts the properties of \<open>Load_Books\<close>, \<open>Overspend\<close> and \<open>Token_Overrun\<close> share.
\<close>

section \<open>Parts that charge nothing\<close>

definition free_of_charge :: "metric_call list \<Rightarrow> bool" where
  "free_of_charge cs \<longleftrightarrow> (\<forall>c \<in> set cs. \<forall>i. counted Cost i c = 0 \<and> counted Tokens i c = 0)"

lemma total_free: "free_of_charge cs \<Longrightarrow> total Cost i cs = 0 \<and> total Tokens i cs = 0"
  by (induction cs) (simp_all add: free_of_charge_def)

lemma free_guard: "free_of_charge (map (\<lambda>l. Inc GuardrailEvents [i, l] 1) ls)"
  by (auto simp: free_of_charge_def)

lemma free_hit: "free_of_charge (record_completion i m p u code d 0 0 (Some 0) c fb)"
  by (auto simp: free_of_charge_def record_completion_def amount_def)

text \<open>The same limits, budget, table and charges.\<close>

definition calm :: "app_state \<Rightarrow> app_state \<Rightarrow> bool" where
  "calm s s' \<longleftrightarrow> limiter_of s' = limiter_of s \<and> budget_of s' = budget_of s \<and> usage_of s' = usage_of s
     \<and> (\<forall>i. total Cost i (metrics_of s') = total Cost i (metrics_of s)
          \<and> total Tokens i (metrics_of s') = total Tokens i (metrics_of s))"

lemma calm_refl [simp]: "calm s s"
  by (simp add: calm_def)

lemma calm_trans: "calm s s' \<Longrightarrow> calm s' s'' \<Longrightarrow> calm s s''"
  by (simp add: calm_def)

lemma calm_updates [simp]:
  "calm s (s'\<lparr>registry_of := reg\<rparr>) = calm s s'" "calm s (s'\<lparr>cache_of := c\<rparr>) = calm s s'"
  "calm s (s'\<lparr>keystore_of := k\<rparr>) = calm s s'" "calm s (s'\<lparr>spans_of := sp\<rparr>) = calm s s'"
  "calm (s\<lparr>registry_of := reg\<rparr>) s' = calm s s'" "calm (s\<lparr>cache_of := c\<rparr>) s' = calm s s'"
  by (simp_all add: calm_def)

lemma calm_change_breaker [simp]: "calm s (change_breaker p f s') = calm s s'" "calm (change_breaker p f s) s' = calm s s'"
  by (simp_all add: change_breaker_def)

lemma calm_emit: "free_of_charge cs \<Longrightarrow> calm s (snd (emit_metrics ev cs s))"
proof -
  assume cs: "free_of_charge cs"
  obtain ds where "prefix ds cs" "snd (emit (xe_sink ev) cs (metrics_of s)) = metrics_of s @ ds"
    using emit_prefix by blast
  moreover from this cs have "free_of_charge ds" by (auto simp: free_of_charge_def dest: set_mono_prefix)
  ultimately show ?thesis
    by (simp add: emit_metrics_def calm_def case_prod_unfold Let_def total_free)
qed

lemma calm_hit: "calm s (snd (serve_hit ev t body cached s))"
proof (cases "gateway (as_hit cached)")
  case (Some g)
  obtain r s' where e: "emit_metrics ev (record_completion (tid t) (model body) (gm_provider g)
      (gm_upstream_model g) ''200'' 0 0 0 (Some 0) CacheHit False) s = (r, s')" by fastforce
  have "calm s s'" using calm_emit [OF free_hit] e by (metis snd_conv)
  then show ?thesis by (simp add: serve_hit_def Some e Let_def split: sum.split)
qed (simp add: serve_hit_def)

text \<open>Once past the gate, a task waits for a provider or replies, and nothing is charged.\<close>

definition entered :: "app_state \<Rightarrow> tenant \<Rightarrow> task \<times> app_state \<Rightarrow> bool" where
  "entered s t out \<longleftrightarrow> calm s (snd out) \<and> ((\<exists>k. fst out = Calling t k) \<or> (\<exists>r. fst out = Replied r))"

lemma entered_later: "calm s s' \<Longrightarrow> entered s' t out \<Longrightarrow> entered s t out"
  by (auto simp: entered_def intro: calm_trans)

lemma entered_next_call: "entered s t (next_call ev t body started chain attempts le n s)"
proof (induction chain arbitrary: attempts le n s)
  case (Cons c chain)
  obtain p x where c: "c = (p, x)" by fastforce
  have "entered s t (next_call ev t body started chain attempts le n (s\<lparr>registry_of := reg\<rparr>))" for attempts le n reg
    by (rule entered_later [OF _ Cons.IH]) simp
  then show ?case
    using Cons.IH by (auto simp: c entered_def Let_def split: option.split prod.split)
qed (simp add: entered_def)

lemma entered_start_route: "entered s t (start_route st ev t body s)"
proof -
  obtain chain reg n where c: "resolve_chain (mono (xe_route ev)) (model body) (fallback_enabled st)
      (xe_start ev) (registry_of s) = (chain, reg, n)" by (metis prod_cases3)
  have "entered s t (next_call ev t body (perf (xe_route ev) n) chain [] None n (s\<lparr>registry_of := reg\<rparr>))"
    by (rule entered_later [OF _ entered_next_call]) simp
  then show ?thesis by (simp add: start_route_def c entered_def Let_def)
qed

lemma entered_look_up: "entered s t (look_up st ev t body s)"
proof -
  have r: "entered s t (start_route st ev t body (s\<lparr>cache_of := b\<rparr>))" for b
    by (rule entered_later [OF _ entered_start_route]) simp
  have h: "calm s (snd (serve_hit ev t body cached (s\<lparr>cache_of := b\<rparr>)))" for cached b
    by (rule calm_trans [OF _ calm_hit]) simp
  show ?thesis
    using r h entered_start_route
    by (auto simp: look_up_def entered_def Let_def case_prod_unfold split: sum.split option.split)
qed

lemma entered_enter: "entered s t (enter st q t s)"
proof (cases "cc_goal q")
  case (WantChat body)
  obtain body1 found where g: "guard_stage st body = (body1, found)" by fastforce
  obtain r s1 where e: "emit_metrics (cc_env q) (map (\<lambda>l. Inc GuardrailEvents [tid t, l] 1) found) s = (r, s1)" by fastforce
  have "calm s s1" using calm_emit [OF free_guard] e by (metis snd_conv)
  then show ?thesis
    using entered_later [OF _ entered_look_up, of s s1]
    by (cases r) (auto simp: enter_def WantChat g e entered_def)
qed (simp add: enter_def entered_def)

section \<open>The gate\<close>

definition after_request :: "auth_env \<Rightarrow> tenant \<Rightarrow> limiter \<Rightarrow> limiter" where
  "after_request ae t l = snd (check_request (ae_mono ae 0) (tid t) (rpm_limit t) l)"

definition after_tokens :: "auth_env \<Rightarrow> tenant \<Rightarrow> limiter \<Rightarrow> limiter" where
  "after_tokens ae t l = snd (check_tokens (ae_mono ae 1) (tid t) (tpm_limit t) (after_request ae t l))"

definition tokens_left :: "auth_env \<Rightarrow> tenant \<Rightarrow> limiter \<Rightarrow> bool" where
  "tokens_left ae t l \<longleftrightarrow> allowed (fst (check_tokens (ae_mono ae 1) (tid t) (tpm_limit t) (after_request ae t l)))"

lemma limits_stage_effect:
  assumes "limits_stage ae t s = (x, s')"
  shows "\<exists>l \<in> {after_request ae t (limiter_of s), after_tokens ae t (limiter_of s)}. s' = s\<lparr>limiter_of := l\<rparr>"
    and "x = Inr u \<Longrightarrow> s' = s\<lparr>limiter_of := after_tokens ae t (limiter_of s)\<rparr> \<and> tokens_left ae t (limiter_of s)"
  using assms
  by (auto simp: limits_stage_def after_tokens_def after_request_def tokens_left_def Let_def
      split: sum.splits if_splits prod.splits)

text \<open>The budget check of a task: what it decides, and what it leaves.\<close>

lemma budget_decided_effect:
  assumes "budget_decided st q t dc s = out"
  shows "(\<exists>r. out = (Replied r, s\<lparr>budget_of := snd dc\<rparr>)) \<or> bd_allowed (fst dc) \<and> entered (s\<lparr>budget_of := snd dc\<rparr>) t out"
  using assms entered_enter [of "s\<lparr>budget_of := snd dc\<rparr>" t st q] by (auto simp: budget_decided_def Let_def)

text \<open>Past the limits: the budget cache turns the request away, does not know, or lets it pass.\<close>

lemma limits_passed_cases [consumes 1, case_names refused asking passed]:
  assumes "(pc, s') = (if asks_repository t1 t (budget_of s) then (QueryingSpend t, s)
      else budget_decided st q t (check_budget t1 t2 (\<lambda>i. 0) t (budget_of s)) s)"
  obtains (refused) r where "pc = Replied r" "calm s s'"
  | (asking) "pc = QueryingSpend t" "calm s s'"
  | (passed) "\<not> asks_repository t1 t (budget_of s)" "bd_allowed (fst (check_budget t1 t2 (\<lambda>i. 0) t (budget_of s)))"
      "entered s t (pc, s')"
proof (cases "asks_repository t1 t (budget_of s)")
  case True
  with assms show thesis by (intro asking) simp_all
next
  case False
  define dc where "dc = check_budget t1 t2 (\<lambda>i. 0) t (budget_of s)"
  have same: "s\<lparr>budget_of := snd dc\<rparr> = s" using check_budget_no_query(2) [OF False] by (simp add: dc_def)
  have "budget_decided st q t dc s = (pc, s')" using assms False by (simp add: dc_def)
  from budget_decided_effect [OF this] show thesis
    unfolding same using refused passed False by (auto simp: dc_def)
qed

text \<open>
  The first run of a task, behind authentication: it is turned away at the gate; it asks the
  repository; or it has passed the gate by what the budget cache knows.
\<close>

lemma arrive_cases [consumes 2, case_names refused asking passed]:
  assumes "auth_enabled st" "arrive st q s = (pc, s')"
  obtains (refused) r l t where "pc = Replied r" "calm (s\<lparr>limiter_of := l\<rparr>) s'"
      "l \<in> {limiter_of s, after_request (cc_auth q) t (limiter_of s), after_tokens (cc_auth q) t (limiter_of s)}"
  | (asking) t where "pc = QueryingSpend t" "tokens_left (cc_auth q) t (limiter_of s)"
      "calm (s\<lparr>limiter_of := after_tokens (cc_auth q) t (limiter_of s)\<rparr>) s'"
  | (passed) t where "tokens_left (cc_auth q) t (limiter_of s)"
      "\<not> asks_repository (ae_mono (cc_auth q) 2) t (budget_of s)"
      "bd_allowed (fst (check_budget (ae_mono (cc_auth q) 2) (ae_mono (cc_auth q) 3) (\<lambda>i. 0) t (budget_of s)))"
      "entered (s\<lparr>limiter_of := after_tokens (cc_auth q) t (limiter_of s)\<rparr>) t (pc, s')"
proof (cases "given (cc_creds q)")
  case True
  define ae where "ae = cc_auth q"
  obtain r kst where k: "get_keystore (ae_hash ae) (ae_environ ae) (keystore_of s) = (r, kst)" by fastforce
  show thesis
  proof (cases "\<exists>ks kr. r = Inr ks \<and> lookup (ae_hash ae) (the (cc_creds q)) ks = Some kr")
    case False
    then have "\<exists>r0. pc = Replied r0 \<and> s' = s\<lparr>keystore_of := kst\<rparr>"
      using assms True k by (cases r) (auto simp: arrive_def ae_def [symmetric])
    then show thesis by (elim exE) (rule refused [of _ "limiter_of s"], auto simp: calm_def)
  next
    case True': True
    then obtain ks kr where kr: "r = Inr ks" "lookup (ae_hash ae) (the (cc_creds q)) ks = Some kr" by blast
    define t where "t = ktenant kr"
    obtain x s2 where l: "limits_stage ae t (s\<lparr>keystore_of := kst\<rparr>) = (x, s2)" by fastforce
    note arr = arrive_known [OF assms(1) True k [unfolded ae_def kr(1)] kr(2) [unfolded ae_def] l [unfolded ae_def t_def],
        unfolded assms(2), folded ae_def t_def]
    show thesis
    proof (cases x)
      case (Inl e)
      with limits_stage_effect(1) [OF l] arr show thesis
        by (intro refused [of "Inl e" "limiter_of s2" t]) (auto simp: ae_def calm_def)
    next
      case (Inr u)
      note passed2 = limits_stage_effect(2) [OF l Inr]
      then have s2: "tokens_left ae t (limiter_of s)" "budget_of s2 = budget_of s"
        and calm: "calm (s\<lparr>limiter_of := after_tokens ae t (limiter_of s)\<rparr>) s2" by (simp_all add: calm_def)
      from arr [unfolded Inr sum.case] show thesis
      proof (cases rule: limits_passed_cases)
        case (refused r)
        with calm_trans [OF calm] show thesis by (intro that(1) [of r _ t]) (auto simp: ae_def)
      next
        case asking
        with calm_trans [OF calm] s2 show thesis by (intro that(2)) (auto simp: ae_def)
      next
        case passed
        with entered_later [OF calm] s2 show thesis by (intro that(3)) (auto simp: ae_def)
      qed
    qed
  qed
next
  case False
  with assms show thesis
    by (intro refused [of _ "limiter_of s"]) (auto simp: arrive_def Let_def calm_def)
qed

section \<open>The answer of a provider\<close>

lemma calm_answered:
  assumes "gateway resp = Some g" "answered st ev t body resp s = (pc, s')"
  shows "pc = Booking t body resp g
    \<and> calm (s\<lparr>limiter_of := record_tokens (xe_mono ev 0) (tid t) (total_tokens (resp_usage resp)) (limiter_of s)\<rparr>) s'"
  using assms by (auto simp: answered_def Let_def calm_def split: if_splits)

lemma provider_returned_effect:
  assumes "provider_returned st ev t k s = (pc, s')"
  obtains (on) "entered s t (pc, s')"
  | (answer) body resp g where "pc = Booking t body resp g" "gateway resp = Some g"
      "calm (s\<lparr>limiter_of := record_tokens (xe_mono ev 0) (tid t) (total_tokens (resp_usage resp)) (limiter_of s)\<rparr>) s'"
proof -
  obtain p x where px: "pc_candidate k = (p, x)" by fastforce
  define failed where "failed = change_breaker p (record_failure (mono (xe_route ev) (pc_counter k + 2))) s"
  have next_one: "entered s t (next_call ev t body started chain attempts le n failed)" for body started chain attempts le n
    by (rule entered_later [OF _ entered_next_call]) (simp add: failed_def)
  have out: "(pc, s') = (case chat (pc_provider k) (pc_counter k + 1) (pc_body k) x of
      Raised err \<Rightarrow>
        if \<not> pe_retryable err
        then (Replied (Inl (http_error 502 (UpstreamsFailed (pc_attempts k) (ProviderFailed err)) [])), failed)
        else next_call ev t (pc_body k) (pc_started k) (pc_rest k) (pc_attempts k) (Some (ProviderFailed err)) (pc_counter k + 3) failed
    | Unexpected exc \<Rightarrow>
        next_call ev t (pc_body k) (pc_started k) (pc_rest k) (pc_attempts k) (Some (OtherException exc)) (pc_counter k + 3) failed
    | Ok r \<Rightarrow> answered st ev t (pc_body k)
        (normalized_response (xe_route ev) (pc_counter k + 2) (pc_started k) p r (pc_attempts k)) (change_breaker p record_success s))"
    unfolding assms [symmetric] provider_returned_def px Let_def prod.case failed_def by (rule refl)
  have same: "calm s failed" by (simp add: failed_def)
  show thesis
  proof (cases "chat (pc_provider k) (pc_counter k + 1) (pc_body k) x")
    case (Ok r)
    define resp where "resp = normalized_response (xe_route ev) (pc_counter k + 2) (pc_started k) p r (pc_attempts k)"
    obtain g where g: "gateway resp = Some g" by (simp add: resp_def normalized_response_def)
    have "answered st ev t (pc_body k) resp (change_breaker p record_success s) = (pc, s')"
      using out Ok by (simp add: resp_def)
    from calm_answered [OF g this] g show thesis
      by (intro answer [of "pc_body k" resp g]) (simp_all add: calm_def change_breaker_def)
  next
    case (Raised err)
    then have "entered s t (pc, s')"
      using out next_one same by (cases "pe_retryable err") (simp_all, simp add: entered_def)
    then show thesis by (rule on)
  next
    case (Unexpected exc)
    then have "entered s t (pc, s')" using out next_one by simp
    then show thesis by (rule on)
  qed
qed

section \<open>Sums over the tasks\<close>

definition tally :: "(client_call \<Rightarrow> task \<Rightarrow> 'n) \<Rightarrow> (client_call \<times> task) list \<Rightarrow> 'n::comm_monoid_add" where
  "tally f ts = sum_list (map (\<lambda>(q, pc). f q pc) ts)"

lemma tally_arrival [simp]: "tally f (ts @ [(q, pc)]) = tally f ts + f q pc"
  by (simp add: tally_def)

lemma tally_Nil [simp]: "tally f [] = 0"
  by (simp add: tally_def)

lemma tally_resume:
  "i < length ts \<Longrightarrow> ts ! i = (q, pc) \<Longrightarrow> tally f (ts[i := (q, pc')]) + f q pc = tally f ts + f q pc'"
proof (induction ts arbitrary: i)
  case (Cons x ts)
  then show ?case
    by (cases i) (auto simp: tally_def algebra_simps split: prod.splits)
qed simp

lemma tally_nonneg:
  fixes f :: "client_call \<Rightarrow> task \<Rightarrow> real"
  assumes "\<forall>(q, pc) \<in> set ts. 0 \<le> f q pc"
  shows "0 \<le> tally f ts"
  using assms by (induction ts) (auto simp: tally_def)

lemma tally_bound:
  fixes f :: "client_call \<Rightarrow> task \<Rightarrow> real" and n :: "client_call \<Rightarrow> task \<Rightarrow> nat"
  assumes "\<forall>(q, pc) \<in> set ts. f q pc \<le> K * real (n q pc)"
  shows "tally f ts \<le> K * real (tally n ts)"
  using assms by (induction ts) (auto simp: tally_def algebra_simps)

section \<open>The operator\<close>

lemma calm_with_keystore: "calm s (snd (with_keystore ae f s))"
  by (auto simp: with_keystore_def Let_def split: prod.split sum.split)

lemma calm_admin_call: "calm s (snd (admin_call st ae key op s))"
  by (cases op) (auto simp: admin_defs calm_with_keystore split: sum.split)

section \<open>Time\<close>

text \<open>The readings of \<open>time.monotonic()\<close> by the limiter and the budget cache when a task is resumed.\<close>

fun task_readings :: "client_call \<Rightarrow> task \<Rightarrow> seconds list" where
  "task_readings q Arrived = [ae_mono (cc_auth q) 0, ae_mono (cc_auth q) 1, ae_mono (cc_auth q) 2]"
| "task_readings q (SpendRead t v) = [ae_mono (cc_auth q) 3]"
| "task_readings q (Calling t k) = [xe_mono (cc_env q) 0]"
| "task_readings q (Booked t body resp g) = [xe_mono (cc_env q) 1, xe_mono (cc_env q) 2]"
| "task_readings q pc = []"

fun move_readings :: "move \<Rightarrow> system \<Rightarrow> seconds list" where
  "move_readings (Resume i) x = (if i < length (sys_tasks x) then case_prod task_readings (sys_tasks x ! i) else [])"
| "move_readings mv x = []"

text \<open>A system at a time: the clock never goes back.\<close>

fun timed_move :: "settings \<Rightarrow> move \<Rightarrow> system \<times> seconds \<Rightarrow> system \<times> seconds \<Rightarrow> bool" where
  "timed_move st mv (x, now) (x', later) \<longleftrightarrow>
     x' = perform st mv x \<and> sorted (now # move_readings mv x @ [later])"

text \<open>A timed move resumes one task, or leaves limits, budget and table alone.\<close>

lemma timed_move_cases [consumes 1, case_names resume other]:
  assumes "timed_move st mv (x, now) (x', later)"
  obtains (resume) i q pc pc' s' where "i < length (sys_tasks x)" "sys_tasks x ! i = (q, pc)"
      "advance st q pc (sys_state x) = (pc', s')" "x' = x\<lparr>sys_state := s', sys_tasks := (sys_tasks x)[i := (q, pc')]\<rparr>"
      "sorted (now # task_readings q pc @ [later])"
  | (other) "calm (sys_state x) (sys_state x')" "sys_tasks x' = sys_tasks x \<or> (\<exists>q. sys_tasks x' = sys_tasks x @ [(q, Arrived)])"
      "now \<le> later"
proof (cases mv)
  case (Resume i)
  show thesis
  proof (cases "i < length (sys_tasks x)")
    case True
    obtain q pc where i: "sys_tasks x ! i = (q, pc)" by fastforce
    obtain pc' s' where a: "advance st q pc (sys_state x) = (pc', s')" by fastforce
    show thesis using assms by (intro resume [OF True i a]) (simp_all add: Resume True i a)
  qed (use assms Resume in \<open>auto intro: other\<close>)
next
  case (Operator ae key op)
  with assms show thesis by (intro other) (simp_all add: calm_admin_call)
qed (use assms in \<open>auto intro: other\<close>)

fun task_tenant :: "task \<Rightarrow> tenant option" where
  "task_tenant (QueryingSpend t) = Some t"
| "task_tenant (SpendRead t v) = Some t"
| "task_tenant (Calling t k) = Some t"
| "task_tenant (Booking t body resp g) = Some t"
| "task_tenant (Booked t body resp g) = Some t"
| "task_tenant pc = None"

text \<open>A timed move with authentication, between systems that satisfy a bound on the load.\<close>

definition loaded_step ::
  "settings \<Rightarrow> (system \<Rightarrow> bool) \<Rightarrow> system \<times> seconds \<Rightarrow> system \<times> seconds \<Rightarrow> bool"
where
  "loaded_step st load y y' \<longleftrightarrow> auth_enabled st \<and> (\<exists>mv. timed_move st mv y y') \<and> load (fst y) \<and> load (fst y')"

lemma loaded_path:
  "successively (\<lambda>y y'. \<exists>mv. timed_move st mv y y') ys \<Longrightarrow> auth_enabled st \<Longrightarrow> \<forall>y \<in> set ys. load (fst y) \<Longrightarrow>
     successively (loaded_step st load) ys"
  by (induction ys rule: induct_list012) (auto simp: loaded_step_def)

end
