(* ===== verification/Load_Books.thy ===== *)
theory Load_Books
  imports Step_Effects
begin

text \<open>
  The books under load: what the metrics count and what the usage table holds, while requests are
  between the two bookings.
\<close>

section \<open>What is in the table and not yet counted\<close>

fun uncounted_cost :: "tenant_id \<Rightarrow> client_call \<Rightarrow> task \<Rightarrow> real" where
  "uncounted_cost i q (Booked t body resp g) =
     (if tid t = i \<and> xe_db_fails (cc_env q) = None then (case gm_cost_usd g of None \<Rightarrow> 0 | Some c \<Rightarrow> c) else 0)"
| "uncounted_cost i q pc = 0"

fun uncounted_tokens :: "tenant_id \<Rightarrow> client_call \<Rightarrow> task \<Rightarrow> real" where
  "uncounted_tokens i q (Booked t body resp g) =
     (if tid t = i \<and> xe_db_fails (cc_env q) = None then of_int (total_tokens (resp_usage resp)) else 0)"
| "uncounted_tokens i q pc = 0"

fun awaits_booking :: "task \<Rightarrow> bool" where
  "awaits_booking (Booking t body resp g) = True"
| "awaits_booking (Booked t body resp g) = True"
| "awaits_booking pc = False"

definition row_cost :: "tenant_id \<Rightarrow> app_state \<Rightarrow> real" where
  "row_cost i s = sum_cost (rows_of i (usage_of s))"

definition row_tokens :: "tenant_id \<Rightarrow> app_state \<Rightarrow> real" where
  "row_tokens i s = of_int (sum_list (map ur_total_tokens (rows_of i (usage_of s))))"

definition books_due :: "tenant_id \<Rightarrow> system \<Rightarrow> bool" where
  "books_due i x \<longleftrightarrow>
     total Cost i (metrics_of (sys_state x)) + tally (uncounted_cost i) (sys_tasks x) = row_cost i (sys_state x)
   \<and> total Tokens i (metrics_of (sys_state x)) + tally (uncounted_tokens i) (sys_tasks x) = row_tokens i (sys_state x)"

lemma uncounted_other [simp]:
  "\<not> awaits_booking pc \<Longrightarrow> uncounted_cost i q pc = 0" "\<not> awaits_booking pc \<Longrightarrow> uncounted_tokens i q pc = 0"
  by (cases pc; simp)+

section \<open>A step\<close>

definition same_books :: "app_state \<Rightarrow> app_state \<Rightarrow> bool" where
  "same_books s s' \<longleftrightarrow> usage_of s' = usage_of s
     \<and> (\<forall>i. total Cost i (metrics_of s') = total Cost i (metrics_of s)
          \<and> total Tokens i (metrics_of s') = total Tokens i (metrics_of s))"

lemma calm_books: "calm s s' \<Longrightarrow> same_books s s'"
  and calm_limiter_books: "calm (s\<lparr>limiter_of := l\<rparr>) s' \<Longrightarrow> same_books s s'"
  and calm_budget_books: "calm (s\<lparr>budget_of := b\<rparr>) s' \<Longrightarrow> same_books s s'"
  by (simp_all add: calm_def same_books_def)

lemma entered_not_booking: "entered s t (pc, s') \<Longrightarrow> \<not> awaits_booking pc"
  by (auto simp: entered_def)

lemma arrive_books:
  assumes "arrive st q s = (pc, s')"
  shows "same_books s s' \<and> \<not> awaits_booking pc"
proof (cases "auth_enabled st")
  case True
  from this assms show ?thesis
  proof (cases rule: arrive_cases)
    case (passed t)
    then show ?thesis using entered_not_booking [OF passed(4)] by (auto simp: entered_def intro: calm_limiter_books)
  qed (auto intro: calm_limiter_books)
next
  case False
  then have "entered s anonymous (pc, s')"
    using assms entered_enter [of s anonymous st q] by (simp add: arrive_def)
  then show ?thesis using entered_not_booking by (auto simp: entered_def intro: calm_books)
qed

lemma quiet_step:
  assumes "advance st q pc s = (pc', s')" "\<not> awaits_booking pc"
  shows "same_books s s' \<and> (\<forall>t body resp g. pc' \<noteq> Booked t body resp g)"
proof (cases pc)
  case Arrived
  with arrive_books [of st q s pc' s'] assms show ?thesis by auto
next
  case (SpendRead t v)
  from assms budget_decided_effect [OF refl, of st q t "after_answer (ae_mono (cc_auth q) 3) t v (budget_of s)" s]
  show ?thesis
    by (auto simp: SpendRead entered_def calm_def same_books_def)
next
  case (Calling t k)
  with assms have "provider_returned st (cc_env q) t k s = (pc', s')" by simp
  then show ?thesis
  proof (cases rule: provider_returned_effect)
    case on
    then show ?thesis by (auto simp: entered_def intro: calm_books)
  qed (auto intro: calm_limiter_books)
qed (use assms in \<open>auto simp: same_books_def\<close>)

lemma uncounted_waiting: "(\<forall>t body resp g. pc \<noteq> Booked t body resp g) \<Longrightarrow> uncounted_cost i q pc = 0 \<and> uncounted_tokens i q pc = 0"
  by (cases pc) simp_all

text \<open>
  Inserting the row puts an amount into the table and leaves it uncounted; noting it counts it.
\<close>

lemma advance_books:
  assumes "advance st q pc s = (pc', s')" "task_ok st q pc" "quiet (cc_env q)" "xe_db_fails (cc_env q) = None"
  shows "row_cost i s' - total Cost i (metrics_of s') + uncounted_cost i q pc
      = row_cost i s - total Cost i (metrics_of s) + uncounted_cost i q pc'
    \<and> row_tokens i s' - total Tokens i (metrics_of s') + uncounted_tokens i q pc
      = row_tokens i s - total Tokens i (metrics_of s) + uncounted_tokens i q pc'"
proof -
  consider "\<not> awaits_booking pc" | (book) t body resp g where "pc = Booking t body resp g"
    | (count) t body resp g where "pc = Booked t body resp g"
    by (cases pc) auto
  then show ?thesis
  proof cases
    case 1
    with quiet_step [OF assms(1)] uncounted_waiting [of pc' i q] show ?thesis
      by (auto simp: same_books_def row_cost_def row_tokens_def)
  next
    case book
    with assms(1) show ?thesis
      by (auto simp: book_row_def row_cost_def row_tokens_def rows_of_insert usage_row_def sum_cost_def split: option.splits)
  next
    case count
    then have "total_tokens (resp_usage resp) = prompt_tokens (resp_usage resp) + completion_tokens (resp_usage resp)"
      using assms(2) by (simp add: answer_ok_def)
    then show ?thesis
      using assms(1,3,4) count
      by (auto simp: finish_booking_def emit_metrics_quiet note_spend_def completion_metrics_def total_record_completion
          row_cost_def row_tokens_def split: option.split)
  qed
qed

section \<open>Property\<close>

definition healthy_call :: "client_call \<Rightarrow> bool" where
  "healthy_call q \<longleftrightarrow> quiet (cc_env q) \<and> xe_db_fails (cc_env q) = None"

lemma perform_books:
  assumes "system_ok st x" "\<forall>(q, pc) \<in> set (sys_tasks x). healthy_call q" "books_due i x"
  shows "books_due i (perform st mv x)"
proof (cases mv)
  case (Resume j)
  show ?thesis
  proof (cases "j < length (sys_tasks x)")
    case True
    obtain q pc where j: "sys_tasks x ! j = (q, pc)" by fastforce
    obtain pc' s' where a: "advance st q pc (sys_state x) = (pc', s')" by fastforce
    have mem: "(q, pc) \<in> set (sys_tasks x)" using True j by (metis nth_mem)
    then have q: "quiet (cc_env q)" "xe_db_fails (cc_env q) = None" and ok: "task_ok st q pc"
      using assms(1,2) by (auto simp: healthy_call_def system_ok_def)
    have x': "perform st mv x = x\<lparr>sys_state := s', sys_tasks := (sys_tasks x)[j := (q, pc')]\<rparr>"
      using True by (simp add: Resume j a)
    show ?thesis
      using advance_books [OF a ok q, of i] assms(3)
        tally_resume [OF True j, of "uncounted_cost i" pc'] tally_resume [OF True j, of "uncounted_tokens i" pc']
      by (simp add: books_due_def x')
  qed (use assms(3) Resume in simp)
next
  case (Operator ae key op)
  then show ?thesis
    using calm_admin_call [of "sys_state x" st ae key op] assms(3)
    by (simp add: books_due_def row_cost_def row_tokens_def calm_def)
qed (use assms(3) in \<open>simp add: books_due_def\<close>)

lemma healthy_perform:
  assumes "\<forall>(q, pc) \<in> set (sys_tasks x). healthy_call q" "\<forall>q. mv = Arrival q \<longrightarrow> healthy_call q"
  shows "\<forall>(q, pc) \<in> set (sys_tasks (perform st mv x)). healthy_call q"
proof -
  have "\<forall>q \<in> set (map fst (sys_tasks (perform st mv x))). healthy_call q"
    unfolding perform_calls using assms by (auto split: move.splits)
  then show ?thesis by auto
qed

text \<open>
  C4. The books agree under load. Whatever the order in which requests arrive and are resumed, at
  every moment and for every tenant the cost and token counters of the metrics fall short of
  the tenant's rows in the usage table by exactly what the requests between the two bookings
  have in the table; as soon as none is, the counters and the table agree. Nothing is lost
  and nothing is booked twice by interleaving (as long as neither the database nor a metric raises).
\<close>

theorem books_agree_under_load:
  assumes "settings_ok st" "\<forall>q. Arrival q \<in> set moves \<longrightarrow> quiet (cc_env q) \<and> xe_db_fails (cc_env q) = None"
    and "x = schedule st moves (idle_system (fresh_process st bedrock openai))"
  shows "total Cost i (metrics_of (sys_state x)) + tally (uncounted_cost i) (sys_tasks x)
        = sum_cost (rows_of i (usage_of (sys_state x)))
    \<and> total Tokens i (metrics_of (sys_state x)) + tally (uncounted_tokens i) (sys_tasks x)
        = of_int (sum_list (map ur_total_tokens (rows_of i (usage_of (sys_state x)))))
    \<and> ((\<forall>(q, pc) \<in> set (sys_tasks x). \<not> awaits_booking pc) \<longrightarrow> books i (sys_state x))"
proof -
  define P where "P x \<longleftrightarrow> system_ok st x \<and> (\<forall>(q, pc) \<in> set (sys_tasks x). healthy_call q) \<and> books_due i x" for x
  have "P x"
    unfolding assms(3)
  proof (rule schedule_invariant)
    show "P (idle_system (fresh_process st bedrock openai))"
      by (simp add: P_def idle_system_ok [OF assms(1)])
         (simp add: idle_system_def books_due_def row_cost_def row_tokens_def fresh_process_def rows_of_def sum_cost_def)
    show "P (perform st mv y)" if "mv \<in> set moves" "P y" for mv y
      using that perform_ok [OF assms(1)] perform_books healthy_perform assms(2)
      unfolding P_def by (metis healthy_call_def)
  qed
  then have due: "books_due i x" by (simp add: P_def)
  have "tally (uncounted_cost i) ts = 0 \<and> tally (uncounted_tokens i) ts = 0"
    if "\<forall>(q, pc) \<in> set ts. \<not> awaits_booking pc" for ts
    using that by (induction ts) (auto simp: tally_def)
  with due show ?thesis by (auto simp: books_due_def books_def row_cost_def row_tokens_def)
qed

text \<open>Two requests, resumed in turns.\<close>

definition demo_client :: client_call where
  "demo_client = \<lparr>cc_auth = demo_seeded, cc_env = demo_app_env, cc_creds = Some ''key'', cc_goal = WantChat demo_req\<rparr>"

definition demo_turns :: "move list" where
  "demo_turns = [Arrival demo_client, Arrival demo_client, Resume 0, Resume 1, Resume 1, Resume 0, Resume 0, Resume 1]"

theorem books_agree_under_load_witness:
  "settings_ok demo_live
    \<and> (let x = schedule demo_live demo_turns (idle_system demo_fresh)
       in total Cost ''demo'' (metrics_of (sys_state x)) + tally (uncounted_cost ''demo'') (sys_tasks x)
            = sum_cost (rows_of ''demo'' (usage_of (sys_state x))))"
  using books_agree_under_load [OF demo_live(1) _ refl, of demo_turns "''demo''" demo_bedrock demo_openai]
    demo_quiet(1) demo_live(1)
  by (simp add: demo_turns_def demo_client_def) (simp add: demo_app_env_def)

end
