(* ===== verification/Admission.thy ===== *)
theory Admission
  imports Prelude
begin

text \<open>
  Checking first and charging later. The gateway admits a request while the tenant has used less
  than its limit, and books what the request has cost when the upstream call is over; requests in
  between are in flight. The theory states what such a scheme costs under interleaving, for any
  limit of that kind: the budget of \<open>Overspend\<close> and the token limit of \<open>Token_Overrun\<close>.
\<close>

text \<open>Runs of a step relation, with the highest number of requests in flight at once.\<close>

inductive flight_runs :: "('s \<Rightarrow> 's \<Rightarrow> bool) \<Rightarrow> ('s \<Rightarrow> nat) \<Rightarrow> 's \<Rightarrow> 's \<Rightarrow> nat \<Rightarrow> bool"
  for step flight s0
where
  start: "flight_runs step flight s0 s0 (flight s0)"
| more: "flight_runs step flight s0 s m \<Longrightarrow> step s s' \<Longrightarrow> flight_runs step flight s0 s' (max m (flight s'))"

text \<open>A path of steps is a run; its highest flight is the highest one along the path.\<close>

lemma flight_runs_path:
  assumes "successively step ys" "ys \<noteq> []"
  shows "flight_runs step flight (hd ys) (last ys) (Max (flight ` set ys))"
  using assms
proof (induction ys rule: rev_induct)
  case (snoc y ys)
  show ?case
  proof (cases "ys = []")
    case True
    then show ?thesis using flight_runs.start [of step flight y] by simp
  next
    case False
    then have "step (last ys) y" and "flight_runs step flight (hd ys) (last ys) (Max (flight ` set ys))"
      using snoc by (auto simp: successively_append_iff)
    from flight_runs.more [OF this(2,1)] False show ?thesis by (simp add: max.commute)
  qed
qed simp

text \<open>
  The contract, per tenant with a limit: a step admits a request within the limit, or lets usage
  and flight be, or ends a request and charges at most \<open>K\<close>.
\<close>

locale late_charging =
  fixes step :: "'s \<Rightarrow> 's \<Rightarrow> bool" and inv :: "'s \<Rightarrow> bool" and limited :: "'i \<Rightarrow> bool" and limit :: "'i \<Rightarrow> real"
    and used :: "'i \<Rightarrow> 's \<Rightarrow> real" and flight :: "'i \<Rightarrow> 's \<Rightarrow> nat" and K :: real
  assumes step_inv: "inv s \<Longrightarrow> step s s' \<Longrightarrow> inv s'"
    and step_cases: "inv s \<Longrightarrow> step s s' \<Longrightarrow> limited i \<Longrightarrow>
        used i s' \<le> limit i \<and> flight i s' = Suc (flight i s)
      \<or> used i s' \<le> used i s \<and> flight i s' \<le> flight i s
      \<or> used i s' \<le> used i s + K \<and> flight i s = Suc (flight i s')"
begin

definition bounded :: "'i \<Rightarrow> nat \<Rightarrow> 's \<Rightarrow> bool" where
  "bounded i m s \<longleftrightarrow> inv s \<and> used i s + K * flight i s \<le> limit i + K * m"

lemma bounded_step:
  assumes "bounded i m s" "step s s'" "limited i" "0 \<le> K"
  shows "bounded i (max m (flight i s')) s'"
proof -
  have up: "K * real m \<le> K * real (max m (flight i s'))" "K * real (flight i s') \<le> K * real (max m (flight i s'))"
    using assms(4) by (intro mult_left_mono; simp)+
  have inv: "inv s" and le: "used i s + K * flight i s \<le> limit i + K * m"
    using assms(1) by (simp_all add: bounded_def)
  from step_cases [OF inv assms(2,3)] have "used i s' + K * flight i s' \<le> limit i + K * max m (flight i s')"
  proof (elim disjE conjE)
    assume "used i s' \<le> limit i"
    with up(2) show ?thesis by simp
  next
    assume "used i s' \<le> used i s" "flight i s' \<le> flight i s"
    then have "used i s' + K * flight i s' \<le> used i s + K * flight i s"
      using assms(4) by (intro add_mono mult_left_mono) simp_all
    with le up(1) show ?thesis by linarith
  next
    assume "used i s' \<le> used i s + K" "flight i s = Suc (flight i s')"
    with le up(1) show ?thesis by (simp add: algebra_simps)
  qed
  with step_inv [OF inv assms(2)] show ?thesis by (simp add: bounded_def)
qed

lemma overrun_flight:
  assumes "flight_runs step (flight i) s0 s m" "inv s0" "used i s0 \<le> limit i" "flight i s0 = 0" "limited i" "0 \<le> K"
  shows "used i s + K * flight i s \<le> limit i + m * K"
proof -
  have "bounded i m s"
    using assms(1)
  proof induction
    case start
    then show ?case using assms(2-4) by (simp add: bounded_def)
  next
    case (more s m s')
    then show ?case using bounded_step assms(5,6) by blast
  qed
  then show ?thesis by (simp add: bounded_def mult.commute)
qed

lemma overrun:
  assumes "flight_runs step (flight i) s0 s m" "inv s0" "used i s0 \<le> limit i" "flight i s0 = 0" "limited i" "0 \<le> K"
  shows "inv s \<and> used i s \<le> limit i + m * K"
proof -
  have "inv s" using assms(1,2) by induction (auto intro: step_inv)
  moreover have "0 \<le> K * flight i s" using assms(6) by simp
  ultimately show ?thesis using overrun_flight [OF assms] by simp
qed

end

end
