(* ===== verification/Load_Demo.thy ===== *)
theory Load_Demo
  imports Step_Effects Admission
begin

text \<open>
  A concrete process for the witnesses of the theorems on concurrent requests: one tenant with a
  budget of 2 dollars and a token limit of 1000, one provider whose completions take a million
  prompt tokens at 2 dollars, and requests that arrive at the same time.
\<close>

definition busy_tenant :: tenant where
  "busy_tenant = (new_tenant ''a'' ''A'')\<lparr>tpm_limit := 1000, monthly_budget_usd := Some 2\<rparr>"

definition busy_keys :: keystore where
  "busy_keys = [(''key'', new_record ''key'' busy_tenant ''x'')]"

definition busy_answer :: provider_response where
  "busy_answer = \<lparr>pr_content = ''hi'', pr_model = ''gpt-4.1'', pr_prompt_tokens = 1000000,
     pr_completion_tokens = 0, pr_finish_reason = ''stop'', pr_raw = None\<rparr>"

definition busy_provider :: provider where
  "busy_provider = demo_provider ''solo'' [''m''] (\<lambda>_. Ok busy_answer)"

definition busy_registry :: registry where
  "busy_registry = [(''solo'', \<lparr>eprovider = busy_provider, ebreaker = new_breaker 5 30\<rparr>)]"

definition busy_env :: app_env where
  "busy_env = demo_app_env\<lparr>xe_mono := \<lambda>_. 30\<rparr>"

definition busy_call :: client_call where
  "busy_call = \<lparr>cc_auth = demo_auth_env, cc_env = busy_env, cc_creds = Some ''key'', cc_goal = WantChat demo_req\<rparr>"

text \<open>The process with \<open>ts\<close> requests and \<open>es\<close> charges in the tenant's window.\<close>

definition busy :: "seconds list \<Rightarrow> (seconds \<times> int) list \<Rightarrow> mtd_cache \<Rightarrow> usage_table \<Rightarrow> app_state" where
  "busy ts es c rows = \<lparr>keystore_of = Some busy_keys,
     limiter_of = [(''a'', \<lparr>timestamps = ts, token_events = es\<rparr>)], budget_of = c, usage_of = rows,
     registry_of = busy_registry, cache_of = None, metrics_of = [], spans_of = []\<rparr>"

definition busy_pending :: pending_call where
  "busy_pending = \<lparr>pc_body = demo_req, pc_started = 0, pc_provider = busy_provider, pc_candidate = (''solo'', ''m''),
     pc_rest = [], pc_attempts = [''solo:m''], pc_counter = 1\<rparr>"

definition busy_response :: chat_response where
  "busy_response = normalized_response demo_env 3 0 ''solo'' busy_answer [''solo:m'']"

definition busy_meta :: gateway_meta where
  "busy_meta = the (gateway busy_response)"

definition busy_cache :: mtd_cache where
  "busy_cache = mtd_set 30 ''a'' 0 new_mtd_cache"

definition busy_rows :: "usage_table \<Rightarrow> usage_table" where
  "busy_rows rows = insert_usage (usage_row busy_env busy_tenant demo_req busy_response busy_meta) rows"

lemmas busy_fields = busy_call_def busy_env_def demo_app_env_def demo_auth_env_def

lemma busy_meta: "gateway busy_response = Some busy_meta" "gm_cost_usd busy_meta = Some 2" "total_tokens (resp_usage busy_response) = 1000000"
proof -
  have "estimate_cost ''gpt-4.1'' 1000000 0 = Some 2"
    by (simp add: estimate_cost_def find_pricing_def PRICING_def cost_def price_def py_round_def round_half_even_def)
  then show "gateway busy_response = Some busy_meta" "gm_cost_usd busy_meta = Some 2" "total_tokens (resp_usage busy_response) = 1000000"
    by (simp_all add: busy_meta_def busy_response_def normalized_response_def busy_answer_def pr_total_tokens_def)
qed

section \<open>The steps of a request\<close>

lemma busy_asks:
  assumes "ts = [] \<or> ts = [30]"
  shows "advance auth_on busy_call Arrived (busy ts [] new_mtd_cache rows)
    = (QueryingSpend busy_tenant, busy (ts @ [30]) [] new_mtd_cache rows)"
  using assms
  by (auto simp: arrive_def busy_fields busy_def get_keystore_def lookup_def busy_keys_def new_record_def
      limits_stage_def check_request_def check_tokens_def window_of_def prune_def busy_tenant_def new_tenant_def
      asks_repository_def new_mtd_cache_def mtd_get_def admit_def Let_def)

lemma busy_read:
  "advance auth_on busy_call (QueryingSpend busy_tenant) (busy ts es c [])
    = (SpendRead busy_tenant 0, busy ts es c [])"
  by (simp add: busy_def month_to_date_cost_def sum_cost_def)

lemma busy_next_call:
  "next_call busy_env busy_tenant demo_req 0 [(''solo'', ''m'')] [] None 1 (busy ts es c rows)
    = (Calling busy_tenant busy_pending, busy ts es c rows)"
  by (simp add: busy_def busy_registry_def get_entry_def set_breaker_def allow_def new_breaker_def attempt_label_def busy_pending_def)

lemma busy_chain:
  "resolve_chain (mono (xe_route busy_env)) ''m'' True 0 busy_registry = ([(''solo'', ''m'')], busy_registry, 1)"
  by (simp add: resolve_chain_def for_model_def busy_registry_def busy_provider_def demo_provider_def allow_def
      new_breaker_def ALIASES_def poll.simps cut_def Let_def)

lemma busy_settles:
  assumes "c = new_mtd_cache \<or> c = busy_cache"
  shows "advance auth_on busy_call (SpendRead busy_tenant 0) (busy ts es c [])
    = (Calling busy_tenant busy_pending, busy ts es busy_cache [])"
proof -
  have mono: "ae_mono (cc_auth busy_call) 3 = 30" by (simp add: busy_fields)
  have cache: "mtd_set 30 ''a'' 0 c = busy_cache"
    using assms by (auto simp: busy_cache_def mtd_set_def new_mtd_cache_def)
  have "after_answer 30 busy_tenant 0 c
      = (\<lparr>bd_allowed = True, spent_usd = 0, budget_usd = Some 2, bd_reason = None\<rparr>, busy_cache)"
    using cache by (simp add: after_answer_def busy_tenant_def new_tenant_def)
  moreover have "enter auth_on busy_call busy_tenant (busy ts es busy_cache []) = (Calling busy_tenant busy_pending, busy ts es busy_cache [])"
  proof -
    have e: "emit_metrics busy_env [] s = (Inr (), s)" for s by (simp add: emit_metrics_def)
    have g: "guard_stage auth_on demo_req = (demo_req, [])" by (simp add: guard_stage_def default_settings_def)
    have q: "cc_goal busy_call = WantChat demo_req" "cc_env busy_call = busy_env" by (simp_all add: busy_call_def)
    have m: "model_allowed busy_tenant (model demo_req)" by (simp add: model_allowed_def busy_tenant_def new_tenant_def)
    have f: "fallback_enabled auth_on" "\<not> semantic_cache_enabled auth_on" by (simp_all add: default_settings_def)
    have x: "xe_start busy_env = 0" "perf (xe_route busy_env) 1 = 0" by (simp_all add: busy_env_def demo_app_env_def demo_env_def)
    have r: "registry_of (busy ts es busy_cache []) = busy_registry"
      "busy ts es busy_cache []\<lparr>registry_of := busy_registry\<rparr> = busy ts es busy_cache []" by (simp_all add: busy_def)
    show ?thesis
      by (simp add: enter_def q g m [unfolded model_demo_req] e look_up_def f start_route_def x [simplified] r model_demo_req
          busy_chain busy_next_call [unfolded One_nat_def] del: next_call.simps)
  qed
  moreover have "busy ts es c []\<lparr>budget_of := busy_cache\<rparr> = busy ts es busy_cache []" "budget_of (busy ts es c []) = c"
    by (simp_all add: busy_def)
  ultimately show ?thesis by (simp add: budget_decided_def mono)
qed

lemma busy_returns:
  "advance auth_on busy_call (Calling busy_tenant busy_pending) (busy ts es c rows)
    = (Booking busy_tenant demo_req busy_response busy_meta, busy ts' es' c rows)"
  if "ts' = dropWhile (\<lambda>t. t < - 30) ts" "es' = dropWhile (\<lambda>e. fst e < - 30) es @ [(30, 1000000)]"
proof -
  have s: "change_breaker ''solo'' record_success (busy ts es c rows) = busy ts es c rows"
    by (simp add: change_breaker_def busy_def busy_registry_def record_success_def new_breaker_def)
  have r: "normalized_response (xe_route busy_env) (1 + 2) 0 ''solo'' busy_answer [''solo:m''] = busy_response"
    by (simp add: busy_response_def busy_env_def demo_app_env_def eval_nat_numeral)
  have "answered auth_on busy_env busy_tenant demo_req busy_response (busy ts es c rows)
      = (Booking busy_tenant demo_req busy_response busy_meta, busy ts' es' c rows)"
    by (simp add: answered_def busy_meta that)
       (simp add: default_settings_def busy_def busy_env_def record_tokens_def window_of_def prune_def busy_tenant_def new_tenant_def)
  with s r show ?thesis
    by (simp add: provider_returned_def busy_pending_def busy_provider_def demo_provider_def busy_call_def)
qed

section \<open>Two requests at once\<close>

text \<open>
  The tenant's window does not exist before the first request. Both requests are checked before either
  is booked, and both rows are inserted before either is noted.
\<close>

definition busy_fresh :: app_state where
  "busy_fresh = (busy [] [] new_mtd_cache [])\<lparr>limiter_of := []\<rparr>"

lemma busy_asks_fresh:
  "advance auth_on busy_call Arrived busy_fresh = (QueryingSpend busy_tenant, busy [30] [] new_mtd_cache [])"
  by (auto simp: arrive_def busy_fields busy_fresh_def busy_def get_keystore_def lookup_def busy_keys_def new_record_def
      limits_stage_def check_request_def check_tokens_def window_of_def prune_def busy_tenant_def new_tenant_def
      asks_repository_def new_mtd_cache_def mtd_get_def admit_def new_window_def Let_def)

lemma busy_books:
  "advance auth_on busy_call (Booking busy_tenant demo_req busy_response busy_meta) (busy ts es c rows)
    = (Booked busy_tenant demo_req busy_response busy_meta, busy ts es c (busy_rows rows))"
  by (simp add: book_row_def busy_call_def busy_env_def demo_app_env_def busy_def busy_rows_def)

definition busy_at :: "app_state \<Rightarrow> task list \<Rightarrow> system \<times> seconds" where
  "busy_at s pcs = (\<lparr>sys_state = s, sys_tasks = map (Pair busy_call) pcs\<rparr>, 30)"

lemma busy_arrival: "\<exists>mv. timed_move auth_on mv (busy_at s pcs) (busy_at s (pcs @ [Arrived]))"
  by (rule exI [of _ "Arrival busy_call"]) (simp add: busy_at_def)

lemma busy_resume:
  assumes "i < length pcs" "advance auth_on busy_call (pcs ! i) s = (pc', s')" "pcs' = pcs[i := pc']"
  shows "\<exists>mv. timed_move auth_on mv (busy_at s pcs) (busy_at s' pcs')"
proof (rule exI [of _ "Resume i"])
  have "task_readings busy_call pc = replicate (length (task_readings busy_call pc)) 30" for pc
    by (cases pc) (simp_all add: busy_fields eval_nat_numeral)
  then have "sorted (30 # task_readings busy_call (pcs ! i) @ [30])"
    by (metis append_Cons append_Nil append_replicate_commute replicate_append_same sorted_replicate replicate_Suc)
  then show "timed_move auth_on (Resume i) (busy_at s pcs) (busy_at s' pcs')"
    using assms by (simp add: busy_at_def map_update)
qed

abbreviation "b_asking \<equiv> QueryingSpend busy_tenant"
abbreviation "b_read \<equiv> SpendRead busy_tenant 0"
abbreviation "b_calling \<equiv> Calling busy_tenant busy_pending"
abbreviation "b_booking \<equiv> Booking busy_tenant demo_req busy_response busy_meta"
abbreviation "b_booked \<equiv> Booked busy_tenant demo_req busy_response busy_meta"

definition busy_path :: "(system \<times> seconds) list" where
  "busy_path =
     [busy_at busy_fresh [], busy_at busy_fresh [Arrived], busy_at busy_fresh [Arrived, Arrived],
      busy_at (busy [30] [] new_mtd_cache []) [b_asking, Arrived],
      busy_at (busy [30, 30] [] new_mtd_cache []) [b_asking, b_asking],
      busy_at (busy [30, 30] [] new_mtd_cache []) [b_read, b_asking],
      busy_at (busy [30, 30] [] new_mtd_cache []) [b_read, b_read],
      busy_at (busy [30, 30] [] busy_cache []) [b_calling, b_read],
      busy_at (busy [30, 30] [] busy_cache []) [b_calling, b_calling],
      busy_at (busy [30, 30] [(30, 1000000)] busy_cache []) [b_booking, b_calling],
      busy_at (busy [30, 30] [(30, 1000000), (30, 1000000)] busy_cache []) [b_booking, b_booking],
      busy_at (busy [30, 30] [(30, 1000000), (30, 1000000)] busy_cache (busy_rows [])) [b_booked, b_booking],
      busy_at (busy [30, 30] [(30, 1000000), (30, 1000000)] busy_cache (busy_rows (busy_rows []))) [b_booked, b_booked]]"

lemma busy_path_timed: "successively (\<lambda>y y'. \<exists>mv. timed_move auth_on mv y y') busy_path"
proof -
  note steps = busy_asks busy_asks_fresh busy_read busy_settles busy_returns [OF refl refl] busy_books
  note first = busy_resume [where i = 0] and second = busy_resume [where i = 1]
  show ?thesis
    unfolding busy_path_def successively.simps
    apply (intro conjI TrueI)
               apply (rule busy_arrival [where pcs = "[]", unfolded append_Nil])
              apply (rule busy_arrival [where pcs = "[Arrived]", unfolded append_Cons append_Nil])
             apply (rule first; simp add: steps del: advance.simps)
            apply (rule second; simp add: steps del: advance.simps)
           apply (rule first; simp add: steps del: advance.simps)
          apply (rule second; simp add: steps del: advance.simps)
         apply (rule first; simp add: steps del: advance.simps)
        apply (rule second; simp add: steps del: advance.simps)
       apply (rule first; simp add: steps del: advance.simps)
      apply (rule second; simp add: steps del: advance.simps)
     apply (rule first; simp add: steps del: advance.simps)
    apply (rule second; simp add: steps del: advance.simps)
    done
qed

lemma busy_path_ends:
  "busy_path \<noteq> []" "hd busy_path = (idle_system busy_fresh, 30)"
  "last busy_path = busy_at (busy [30, 30] [(30, 1000000), (30, 1000000)] busy_cache (busy_rows (busy_rows []))) [b_booked, b_booked]"
  by (simp_all add: busy_path_def) (simp add: busy_at_def idle_system_def)

lemma busy_path_runs:
  assumes "\<forall>y \<in> set busy_path. load (fst y)" "Max (set (map f busy_path)) = m"
  shows "flight_runs (loaded_step auth_on load) f (idle_system busy_fresh, 30) (last busy_path) m"
  using flight_runs_path [OF loaded_path [OF busy_path_timed _ assms(1)], of f] assms(2)
  by (simp add: busy_path_ends(1,2))

lemma busy_tid: "tid busy_tenant = ''a''"
  by (simp add: busy_tenant_def new_tenant_def)

end
