(* ===== verification/Overspend.thy ===== *)
theory Overspend
  imports Load_Books Load_Demo
begin

text \<open>
  The budget under load. A request is checked against the budget before the upstream call and
  booked after it; the check itself may be suspended while the table is asked, and the booking
  while the row is inserted (\<open>auth/dependencies.py\<close>, \<open>auth/budget.py\<close>, \<open>api/routes.py\<close>). The theory bounds
  what this can cost, for every interleaving of the requests of all tenants.
\<close>

section \<open>Runs within bounds\<close>

text \<open>The admitted requests of a tenant that are not noted yet.\<close>

fun in_flight :: "tenant_id \<Rightarrow> client_call \<Rightarrow> task \<Rightarrow> nat" where
  "in_flight i q (Calling t k) = (if tid t = i then 1 else 0)"
| "in_flight i q (Booking t body resp g) = (if tid t = i then 1 else 0)"
| "in_flight i q (Booked t body resp g) = (if tid t = i then 1 else 0)"
| "in_flight i q pc = 0"

definition flight :: "tenant_id \<Rightarrow> system \<Rightarrow> nat" where
  "flight i x = tally (in_flight i) (sys_tasks x)"

definition spent :: "datetime \<Rightarrow> tenant_id \<Rightarrow> system \<Rightarrow> usd" where
  "spent now i x = month_to_date_cost now i (usage_of (sys_state x))"

definition unnoted :: "tenant_id \<Rightarrow> system \<Rightarrow> usd" where
  "unnoted i x = tally (uncounted_cost i) (sys_tasks x)"

text \<open>
  \<open>T\<close> gives the tenant behind an id, \<open>now\<close> is a moment of the month under consideration, \<open>K\<close> the highest
  price of a completion, and \<open>S\<close> what is booked at most for a tenant while one of its budget checks
  waits for the repository.
\<close>

fun price_within :: "usd \<Rightarrow> task \<Rightarrow> bool" where
  "price_within K (Booking t body resp g) = (\<forall>c. gm_cost_usd g = Some c \<longrightarrow> 0 \<le> c \<and> c \<le> K)"
| "price_within K (Booked t body resp g) = (\<forall>c. gm_cost_usd g = Some c \<longrightarrow> 0 \<le> c \<and> c \<le> K)"
| "price_within K pc = True"

fun answer_within :: "datetime \<Rightarrow> usd \<Rightarrow> system \<Rightarrow> task \<Rightarrow> bool" where
  "answer_within now S x (SpendRead t v) = (spent now (tid t) x \<le> v + S)"
| "answer_within now S x pc = True"

definition load_within :: "(tenant_id \<Rightarrow> tenant) \<Rightarrow> datetime \<Rightarrow> usd \<Rightarrow> usd \<Rightarrow> system \<Rightarrow> bool" where
  "load_within T now K S x \<longleftrightarrow> (\<forall>(q, pc) \<in> set (sys_tasks x). month_start now \<le> xe_utc (cc_env q)
     \<and> (\<forall>t. task_tenant pc = Some t \<longrightarrow> t = T (tid t)) \<and> price_within K pc \<and> answer_within now S x pc)"

abbreviation "budget_step st T now K S \<equiv> loaded_step st (load_within T now K S)"

section \<open>The invariant\<close>

text \<open>
  A live entry of the cache lags behind the table by at most what is in the table and not noted,
  and \<open>S\<close>.
\<close>

definition cache_lag :: "datetime \<Rightarrow> usd \<Rightarrow> system \<times> seconds \<Rightarrow> bool" where
  "cache_lag now S y \<longleftrightarrow> 0 \<le> ttl (budget_of (sys_state (fst y)))
     \<and> (\<forall>i v. mtd_get (snd y) i (budget_of (sys_state (fst y))) = Some v \<longrightarrow>
          spent now i (fst y) - unnoted i (fst y) - S \<le> v)"

definition has_budget :: "(tenant_id \<Rightarrow> tenant) \<Rightarrow> tenant_id \<Rightarrow> bool" where
  "has_budget T i \<longleftrightarrow> tid (T i) = i \<and> (case monthly_budget_usd (T i) of None \<Rightarrow> False | Some b \<Rightarrow> 0 < b)"

definition noted :: "datetime \<Rightarrow> tenant_id \<Rightarrow> system \<times> seconds \<Rightarrow> real" where
  "noted now i y = spent now i (fst y) - unnoted i (fst y)"

lemma load_withinD:
  assumes "load_within T now K S x" "i < length (sys_tasks x)" "sys_tasks x ! i = (q, pc)"
  shows "month_start now \<le> xe_utc (cc_env q)" "task_tenant pc = Some t \<Longrightarrow> t = T (tid t)"
    and "price_within K pc" "answer_within now S x pc"
  using assms nth_mem [OF assms(2)] by (auto simp: load_within_def)

lemma uncounted_nonneg: "price_within K pc \<Longrightarrow> 0 \<le> uncounted_cost i q pc"
  by (cases pc) (auto split: option.split)

lemma uncounted_le: "price_within K pc \<Longrightarrow> uncounted_cost i q pc \<le> max 0 K * in_flight i q pc"
  by (cases pc) (auto split: option.split)

lemma unnoted_bounds:
  assumes "load_within T now K S x"
  shows "0 \<le> unnoted i x" "unnoted i x \<le> max 0 K * flight i x"
proof -
  have p: "\<forall>(q, pc) \<in> set (sys_tasks x). price_within K pc" using assms by (auto simp: load_within_def)
  show "0 \<le> unnoted i x"
    unfolding unnoted_def by (rule tally_nonneg) (use p uncounted_nonneg in blast)
  show "unnoted i x \<le> max 0 K * flight i x"
    unfolding unnoted_def flight_def by (rule tally_bound) (use p uncounted_le in blast)
qed

section \<open>One step\<close>

text \<open>A step for the tenant \<open>j\<close>: it admits within the limit, lets things be, or notes a completion.\<close>

definition step_fits ::
  "(tenant_id \<Rightarrow> tenant) \<Rightarrow> datetime \<Rightarrow> usd \<Rightarrow> usd \<Rightarrow> tenant_id \<Rightarrow> system \<times> seconds \<Rightarrow> system \<times> seconds \<Rightarrow> bool"
where
  "step_fits T now K S j y y' \<longleftrightarrow>
     noted now j y' \<le> the (monthly_budget_usd (T j)) + S \<and> flight j (fst y') = Suc (flight j (fst y))
   \<or> noted now j y' \<le> noted now j y \<and> flight j (fst y') \<le> flight j (fst y)
   \<or> noted now j y' \<le> noted now j y + max 0 K \<and> flight j (fst y) = Suc (flight j (fst y'))"

lemma lag_kept:
  assumes "cache_lag now S (x, t)" "t \<le> t'" "budget_of (sys_state x') = budget_of (sys_state x)"
    and "\<And>j. noted now j (x', t') \<le> noted now j (x, t)"
  shows "cache_lag now S (x', t')"
  unfolding cache_lag_def fst_conv snd_conv assms(3)
proof (intro conjI allI impI)
  show "0 \<le> ttl (budget_of (sys_state x))" using assms(1) by (simp add: cache_lag_def)
  fix j v
  assume "mtd_get t' j (budget_of (sys_state x)) = Some v"
  then have "mtd_get t j (budget_of (sys_state x)) = Some v" using assms(2) by (rule mtd_get_earlier)
  then have "noted now j (x, t) - S \<le> v" using assms(1) by (simp add: cache_lag_def noted_def)
  with assms(4) [of j] show "spent now j x' - unnoted j x' - S \<le> v" by (simp add: noted_def)
qed

text \<open>What the sums become when a task is resumed.\<close>

lemma resumed_sums:
  assumes "i < length (sys_tasks x)" "sys_tasks x ! i = (q, pc)"
    and "x' = x\<lparr>sys_state := s', sys_tasks := (sys_tasks x)[i := (q, pc')]\<rparr>"
  shows "unnoted j x' = unnoted j x + uncounted_cost j q pc' - uncounted_cost j q pc"
    and "flight j x' + in_flight j q pc = flight j x + in_flight j q pc'"
    and "sys_state x' = s'" "(q, pc') \<in> set (sys_tasks x')"
  using tally_resume [OF assms(1,2), of "uncounted_cost j" pc'] tally_resume [OF assms(1,2), of "in_flight j" pc']
    set_update_memI [OF assms(1), of "(q, pc')"]
  by (simp_all add: unnoted_def flight_def assms(3))

text \<open>A task that leaves budget and table alone and is not between the bookings.\<close>

lemma idle_step:
  assumes "unnoted j x' = unnoted j x + uncounted_cost j q pc' - uncounted_cost j q pc"
    and "usage_of (sys_state x') = usage_of (sys_state x)"
    and "uncounted_cost j q pc' = 0" "uncounted_cost j q pc = 0"
  shows "noted now j (x', t') = noted now j (x, t)"
  using assms by (simp add: noted_def spent_def)

lemma entered_uncounted:
  "entered s t (pc', s') \<Longrightarrow> uncounted_cost j q pc' = 0"
  "entered s t (pc', s') \<Longrightarrow> in_flight j q pc' = 0 \<or> in_flight j q pc' = 1 \<and> tid t = j \<and> (\<exists>k. pc' = Calling t k)"
  by (auto simp: entered_def split: if_splits)

text \<open>Admission by the cache: its entry is below the budget.\<close>

lemma admitted_by_cache:
  assumes "has_budget T j" "\<not> asks_repository t1 (T j) c" "bd_allowed (fst (check_budget t1 t2 f (T j) c))"
  obtains v where "mtd_get t1 j c = Some v" "v < the (monthly_budget_usd (T j))"
proof -
  obtain b where b: "tid (T j) = j" "monthly_budget_usd (T j) = Some b" "0 < b"
    using assms(1) by (auto simp: has_budget_def split: option.splits)
  then obtain v where "mtd_get t1 j c = Some v" using assms(2) by (auto simp: asks_repository_def)
  with assms(3) b show thesis by (intro that [of v]) (auto simp: check_budget_def Let_def not_le split: if_splits)
qed

lemma arrived_step:
  assumes "auth_enabled st" "arrive st q s = (pc', s')" "cache_lag now S (x, t)" "sys_state x = s" "sys_state x' = s'"
    and sums: "\<And>j. unnoted j x' = unnoted j x + uncounted_cost j q pc'" "\<And>j. flight j x' = flight j x + in_flight j q pc'"
    and fits: "\<And>t. task_tenant pc' = Some t \<Longrightarrow> t = T (tid t)"
    and time: "t \<le> ae_mono (cc_auth q) 2" "t \<le> t'"
  shows "cache_lag now S (x', t')" "has_budget T j \<Longrightarrow> step_fits T now K S j (x, t) (x', t')"
proof -
  have quiet: "budget_of s' = budget_of s \<and> usage_of s' = usage_of s \<and> uncounted_cost j q pc' = 0" for j
    using assms(1,2)
  proof (cases rule: arrive_cases)
    case (passed t)
    then show ?thesis using entered_uncounted(1) [OF passed(4)] by (simp add: entered_def calm_def)
  qed (simp_all add: calm_def)
  then have n: "noted now j (x', t') = noted now j (x, t)" for j
    using sums(1) assms(4,5) by (simp add: noted_def spent_def)
  show "cache_lag now S (x', t')" using lag_kept [OF assms(3) time(2)] quiet n assms(4,5) by simp
  assume j: "has_budget T j"
  show "step_fits T now K S j (x, t) (x', t')"
    using assms(1,2)
  proof (cases rule: arrive_cases)
    case (passed tn)
    from entered_uncounted(2) [OF passed(4), of j q] show ?thesis
    proof
      assume "in_flight j q pc' = 0"
      with sums(2) n show ?thesis by (simp add: step_fits_def)
    next
      assume e: "in_flight j q pc' = 1 \<and> tid tn = j \<and> (\<exists>k. pc' = Calling tn k)"
      then have tn: "tn = T j" using fits [of tn] by auto
      obtain v where v: "mtd_get (ae_mono (cc_auth q) 2) j (budget_of s) = Some v" "v < the (monthly_budget_usd (T j))"
        using admitted_by_cache [OF j passed(2,3) [unfolded tn]] by blast
      have "noted now j (x, t) - S \<le> v"
        using assms(3) mtd_get_earlier [OF v(1) time(1)] by (simp add: cache_lag_def noted_def assms(4))
      with v(2) e sums(2) n show ?thesis by (simp add: step_fits_def)
    qed
  qed (use sums(2) n in \<open>simp_all add: step_fits_def\<close>)
qed

lemma settled_step:
  assumes "budget_decided st q tn (after_answer t1 tn v (budget_of s)) s = (pc', s')"
    and "cache_lag now S (x, t)" "sys_state x = s" "sys_state x' = s'"
    and sums: "\<And>j. unnoted j x' = unnoted j x + uncounted_cost j q pc'" "\<And>j. flight j x' = flight j x + in_flight j q pc'"
    and "tn = T (tid tn)" "spent now (tid tn) x \<le> v + S" "\<And>j. 0 \<le> unnoted j x" "t \<le> t'"
  shows "cache_lag now S (x', t')" "has_budget T j \<Longrightarrow> step_fits T now K S j (x, t) (x', t')"
proof -
  define c where "c = mtd_set t1 (tid tn) v (budget_of s)"
  have c: "snd (after_answer t1 tn v (budget_of s)) = c" by (simp add: after_answer_def c_def Let_def)
  note effect = budget_decided_effect [OF assms(1), unfolded c]
  have quiet: "budget_of s' = c \<and> usage_of s' = usage_of s \<and> uncounted_cost j q pc' = 0" for j
    using effect by (auto simp: entered_def calm_def)
  then have n: "noted now j (x', t') = noted now j (x, t)" for j
    using sums(1) assms(3,4) by (simp add: noted_def spent_def)
  have known: "noted now (tid tn) (x, t) \<le> v + S" using assms(8) assms(9) [of "tid tn"] by (simp add: noted_def)
  have ttl: "0 \<le> ttl (budget_of s)" using assms(2,3) by (simp add: cache_lag_def)
  show "cache_lag now S (x', t')"
    unfolding cache_lag_def fst_conv snd_conv assms(4)
  proof (intro conjI allI impI)
    show "0 \<le> ttl (budget_of s')" using quiet ttl by (simp add: c_def)
    fix j w
    assume w: "mtd_get t' j (budget_of s') = Some w"
    have "noted now j (x, t) \<le> w + S"
    proof (cases "j = tid tn")
      case True
      with w quiet known show ?thesis by (simp add: c_def mtd_get_set [OF ttl] split: if_splits)
    next
      case False
      with w quiet have "mtd_get t' j (budget_of s) = Some w" by (simp add: c_def mtd_get_set [OF ttl])
      from mtd_get_earlier [OF this \<open>t \<le> t'\<close>] assms(2,3) show ?thesis by (fastforce simp: cache_lag_def noted_def)
    qed
    with n [of j] show "spent now j x' - unnoted j x' - S \<le> w" by (simp add: noted_def)
  qed
  assume j: "has_budget T j"
  show "step_fits T now K S j (x, t) (x', t')"
  proof (cases "in_flight j q pc' = 0")
    case True
    with sums(2) n show ?thesis by (simp add: step_fits_def)
  next
    case False
    then obtain e: "bd_allowed (fst (after_answer t1 tn v (budget_of s)))" "in_flight j q pc' = 1" "tid tn = j"
      using effect entered_uncounted(2) [of "s\<lparr>budget_of := c\<rparr>" tn pc' s' j q] by auto
    then have "v < the (monthly_budget_usd (T j))"
      using assms(7) by (auto simp: after_answer_def Let_def not_le split: if_splits)
    with known e(2,3) sums(2) n show ?thesis by (simp add: step_fits_def)
  qed
qed

text \<open>Noting a price raises an entry by it, if there is one.\<close>

lemma noted_entry:
  assumes "mtd_get t' j (record_spend r1 r2 i paid c) = Some w" "0 \<le> ttl c" "t \<le> r1" "r1 \<le> t'"
    and old: "\<And>t1 w. mtd_get t1 j c = Some w \<Longrightarrow> t \<le> t1 \<Longrightarrow> L \<le> w"
    and u: "0 \<le> paid" "u \<le> paid" "i \<noteq> j \<Longrightarrow> u = 0"
  shows "L + u \<le> w"
proof (cases "0 < paid \<and> i = j")
  case True
  show ?thesis
  proof (cases "mtd_get r1 j c")
    case None
    then have "mtd_get t' j c = Some w" using assms(1) True by (simp add: record_spend_def)
    from mtd_get_earlier [OF this assms(4)] None show ?thesis by simp
  next
    case (Some cur)
    then have "w = cur + paid" using assms(1) True by (simp add: record_spend_def mtd_get_set [OF assms(2)] split: if_splits)
    with old [OF Some assms(3)] u(2) show ?thesis by simp
  qed
next
  case False
  then have "mtd_get t' j c = Some w" "u \<le> 0"
    using assms(1) u by (auto simp: record_spend_def mtd_get_set [OF assms(2)] split: option.splits if_splits)
  with old [of t' w] assms(3,4) show ?thesis by simp
qed

lemma noting_step:
  assumes "finish_booking (cc_env q) tn body resp g s = (pc', s')"
    and "cache_lag now S (x, t)" "sys_state x = s" "sys_state x' = s'"
    and sums: "\<And>j. unnoted j x' = unnoted j x - uncounted_cost j q (Booked tn body resp g)"
      "\<And>j. flight j x' + in_flight j q (Booked tn body resp g) = flight j x"
    and price: "\<forall>c. gm_cost_usd g = Some c \<longrightarrow> 0 \<le> c \<and> c \<le> K"
    and time: "t \<le> xe_mono (cc_env q) 1" "xe_mono (cc_env q) 1 \<le> t'"
  shows "cache_lag now S (x', t')" "step_fits T now K S j (x, t) (x', t')"
proof -
  define u where "u j = uncounted_cost j q (Booked tn body resp g)" for j
  define paid where "paid = (case gm_cost_usd g of None \<Rightarrow> 0 | Some c \<Rightarrow> c)"
  have u: "u j \<le> paid" "tid tn \<noteq> j \<Longrightarrow> u j = 0" and paid: "0 \<le> paid" "paid \<le> max 0 K" for j
    using price by (auto simp: u_def paid_def split: option.split)
  have s': "usage_of s' = usage_of s" "budget_of s' = budget_of (note_spend (cc_env q) tn g s)"
    using assms(1) by (auto simp: finish_booking_def emit_metrics_def note_spend_def Let_def split: prod.splits sum.splits if_splits)
  have b: "budget_of s' = record_spend (xe_mono (cc_env q) 1) (xe_mono (cc_env q) 2) (tid tn) paid (budget_of s)"
    unfolding s'(2) by (auto simp: note_spend_def paid_def amount_def record_spend_def split: option.split)
  have n: "noted now j (x', t') = noted now j (x, t) + u j" for j
    using sums(1) s'(1) assms(3,4) by (simp add: noted_def spent_def u_def)
  have ttl: "0 \<le> ttl (budget_of s)" using assms(2,3) by (simp add: cache_lag_def)
  have old: "noted now j (x, t) - S \<le> w" if "mtd_get t1 j (budget_of s) = Some w" "t \<le> t1" for j w t1
    using mtd_get_earlier [OF that] assms(2,3) by (fastforce simp: cache_lag_def noted_def)
  show "cache_lag now S (x', t')"
    unfolding cache_lag_def fst_conv snd_conv assms(4)
  proof (intro conjI allI impI)
    show "0 \<le> ttl (budget_of s')" using ttl by (simp add: b record_spend_def split: option.split)
    fix j w
    assume w: "mtd_get t' j (budget_of s') = Some w"
    have "noted now j (x, t) - S + u j \<le> w"
      by (rule noted_entry [OF w [unfolded b] ttl time _ paid(1) u]) (auto dest: old)
    with n [of j] show "spent now j x' - unnoted j x' - S \<le> w" by (simp add: noted_def)
  qed
  show "step_fits T now K S j (x, t) (x', t')"
  proof (cases "tid tn = j")
    case True
    then have "flight j x = Suc (flight j x')" using sums(2) [of j] by simp
    with n [of j] u(1) [of j] paid(2) show ?thesis by (simp add: step_fits_def)
  next
    case False
    with n [of j] u(2) [of j] sums(2) [of j] show ?thesis by (simp add: step_fits_def)
  qed
qed

lemma sums_zero [simp]:
  "uncounted_cost j q (Calling t k) = 0" "uncounted_cost j q (Booking t body resp g) = 0"
  by simp_all

text \<open>A call that returns changes nothing here: the next one is made, the answer waits to be booked, or it is over.\<close>

lemma calling_step:
  assumes "provider_returned st ev tn k s = (pc', s')"
    and "cache_lag now S (x, t)" "sys_state x = s" "sys_state x' = s'" "t \<le> t'"
    and sums: "\<And>j. unnoted j x' = unnoted j x + uncounted_cost j q pc'"
      "\<And>j. flight j x' + in_flight j q (Calling tn k) = flight j x + in_flight j q pc'"
  shows "cache_lag now S (x', t')" "step_fits T now K S j (x, t) (x', t')"
proof -
  have quiet: "budget_of s' = budget_of s \<and> usage_of s' = usage_of s \<and> uncounted_cost j q pc' = 0
      \<and> in_flight j q pc' \<le> in_flight j q (Calling tn k)" for j
    using assms(1)
  proof (cases rule: provider_returned_effect)
    case on
    then show ?thesis using entered_uncounted [OF on, of j q] by (auto simp: entered_def calm_def)
  next
    case (answer body resp g)
    then show ?thesis by (simp add: calm_def)
  qed
  then have n: "noted now j (x', t') = noted now j (x, t)" for j
    using sums(1) assms(3,4) by (simp add: noted_def spent_def)
  then show "cache_lag now S (x', t')" using lag_kept [OF assms(2,5)] quiet assms(3,4) by simp
  have "flight j x' \<le> flight j x" using sums(2) [of j] quiet [of j] by simp
  with n [of j] show "step_fits T now K S j (x, t) (x', t')" by (simp add: step_fits_def)
qed

text \<open>The insertion of the row: the table grows, and so does what is not noted.\<close>

lemma booking_step:
  assumes "book_row (cc_env q) tn body resp g s = s'" "month_start now \<le> xe_utc (cc_env q)"
    and "cache_lag now S (x, t)" "sys_state x = s" "sys_state x' = s'" "t \<le> t'"
    and sums: "\<And>j. unnoted j x' = unnoted j x + uncounted_cost j q (Booked tn body resp g)"
      "\<And>j. flight j x' = flight j x"
  shows "cache_lag now S (x', t')" "step_fits T now K S j (x, t) (x', t')"
proof -
  have "usage_of s' = (case xe_db_fails (cc_env q) of Some e \<Rightarrow> usage_of s
      | None \<Rightarrow> insert_usage (usage_row (cc_env q) tn body resp g) (usage_of s))"
    unfolding assms(1) [symmetric] by (simp add: book_row_def split: option.split)
  then have "spent now j x' = spent now j x + uncounted_cost j q (Booked tn body resp g)" for j
    using assms(2)
    by (auto simp: spent_def assms(4,5) usage_ledger.mtd_book usage_row_def split: option.split)
  then have n: "noted now j (x', t') = noted now j (x, t)" for j using sums(1) by (simp add: noted_def)
  have "budget_of s' = budget_of s" using assms(1) by (auto simp: book_row_def split: option.splits)
  then show "cache_lag now S (x', t')" using lag_kept [OF assms(3,6)] n assms(4,5) by simp
  show "step_fits T now K S j (x, t) (x', t')" using n sums(2) by (simp add: step_fits_def)
qed

text \<open>A step that leaves budget, table and tasks alone.\<close>

lemma unchanged_step:
  assumes "cache_lag now S (x, t)" "t \<le> t'" "\<And>j. unnoted j x' = unnoted j x" "\<And>j. flight j x' = flight j x"
    and "budget_of (sys_state x') = budget_of (sys_state x)" "usage_of (sys_state x') = usage_of (sys_state x)"
  shows "cache_lag now S (x', t')" "step_fits T now K S j (x, t) (x', t')"
proof -
  have n: "noted now j (x', t') = noted now j (x, t)" for j
    using assms(3,6) by (simp add: noted_def spent_def)
  then show "cache_lag now S (x', t')" using lag_kept [OF assms(1,2,5)] by simp
  show "step_fits T now K S j (x, t) (x', t')" using n assms(4) by (simp add: step_fits_def)
qed

lemma resume_fits:
  assumes "auth_enabled st" "load_within T now K S x" "load_within T now K S x'" "cache_lag now S (x, t)"
    and i: "i < length (sys_tasks x)" "sys_tasks x ! i = (q, pc)"
    and step: "advance st q pc (sys_state x) = (pc', s')" "x' = x\<lparr>sys_state := s', sys_tasks := (sys_tasks x)[i := (q, pc')]\<rparr>"
    and time: "sorted (t # task_readings q pc @ [t'])"
  shows "cache_lag now S (x', t') \<and> (has_budget T j \<longrightarrow> step_fits T now K S j (x, t) (x', t'))"
proof -
  note sums = resumed_sums [OF i step(2)] and lag = assms(4)
  obtain i' where i': "i' < length (sys_tasks x')" "sys_tasks x' ! i' = (q, pc')"
    using sums(4) by (metis in_set_conv_nth)
  note tenant = load_withinD(2) [OF assms(3) i'] and here = load_withinD [OF assms(2) i]
  show ?thesis
  proof (cases pc)
    case Arrived
    then have "arrive st q (sys_state x) = (pc', s')" using step(1) by simp
    from arrived_step [where T = T, OF assms(1) this lag refl sums(3)] sums(1,2) tenant time
    show ?thesis by (simp add: Arrived)
  next
    case (SpendRead tn v)
    then have "budget_decided st q tn (after_answer (ae_mono (cc_auth q) 3) tn v (budget_of (sys_state x))) (sys_state x) = (pc', s')"
      using step(1) by simp
    from settled_step [where T = T, OF this lag refl sums(3)] sums(1,2) here(2,4) unnoted_bounds(1) [OF assms(2)] time
    show ?thesis by (simp add: SpendRead)
  next
    case (Calling tn k)
    then have "provider_returned st (cc_env q) tn k (sys_state x) = (pc', s')" using step(1) by simp
    from calling_step [OF this lag refl sums(3)] sums(1,2) time show ?thesis by (simp add: Calling)
  next
    case (Booking tn body resp g)
    then have "book_row (cc_env q) tn body resp g (sys_state x) = s'" "pc' = Booked tn body resp g"
      using step(1) by simp_all
    with booking_step [OF this(1) here(1) lag refl sums(3)] sums(1,2) time show ?thesis by (simp add: Booking)
  next
    case (Booked tn body resp g)
    then have f: "finish_booking (cc_env q) tn body resp g (sys_state x) = (pc', s')" using step(1) by simp
    then have "uncounted_cost j q pc' = 0 \<and> in_flight j q pc' = 0" for j
      by (auto simp: finish_booking_def Let_def split: prod.splits sum.splits)
    with noting_step [where K = K and t' = t', OF f lag refl sums(3)] sums(1,2) here(3) time show ?thesis
      by (simp add: Booked)
  qed (use unchanged_step [OF lag, of t' x'] sums step(1) time in auto)
qed

lemma budget_step_fits:
  assumes "budget_step st T now K S (x, t) (x', t')" "cache_lag now S (x, t)"
  shows "cache_lag now S (x', t') \<and> (has_budget T j \<longrightarrow> step_fits T now K S j (x, t) (x', t'))"
proof -
  from assms(1) obtain mv where mv: "timed_move st mv (x, t) (x', t')" and auth: "auth_enabled st"
    and load: "load_within T now K S x" "load_within T now K S x'"
    by (auto simp: loaded_step_def)
  from mv show ?thesis
  proof (cases rule: timed_move_cases)
    case (resume i q pc pc' s')
    then show ?thesis by (rule resume_fits [OF auth load assms(2)])
  next
    case other
    then have "unnoted j x' = unnoted j x" "flight j x' = flight j x" for j
      by (auto simp: unnoted_def flight_def)
    with unchanged_step [OF assms(2) other(3), of x'] other(1) show ?thesis by (simp add: calm_def)
  qed
qed

text \<open>Checking the budget is an instance of checking first and charging later.\<close>

interpretation budget: late_charging "budget_step st T now K S" "cache_lag now S" "has_budget T"
    "\<lambda>i. the (monthly_budget_usd (T i)) + S" "noted now" "\<lambda>i y. flight i (fst y)" "max 0 K"
  for st T now K S
proof unfold_locales
  fix y y' :: "system \<times> seconds" and i :: tenant_id
  obtain x t x' t' where y: "y = (x, t)" "y' = (x', t')" by fastforce
  assume inv: "cache_lag now S y" and step: "budget_step st T now K S y y'"
  note fits = budget_step_fits [OF step [unfolded y] inv [unfolded y]]
  show "cache_lag now S y'" using fits by (simp add: y)
  show "noted now i y' \<le> the (monthly_budget_usd (T i)) + S \<and> flight i (fst y') = Suc (flight i (fst y))
      \<or> noted now i y' \<le> noted now i y \<and> flight i (fst y') \<le> flight i (fst y)
      \<or> noted now i y' \<le> noted now i y + max 0 K \<and> flight i (fst y) = Suc (flight i (fst y'))"
    if "has_budget T i"
    using fits that by (simp add: y step_fits_def)
qed

section \<open>Property\<close>

text \<open>
  C7. A budget can be overrun only by what is in flight. Whatever the order in which the requests
  of all tenants arrive and are resumed, a tenant that starts the month within its budget \<open>b\<close> has
  never spent more than \<open>b + m * K + S\<close>: \<open>m\<close> is the highest number of its requests that were between
  their admission and the end of their booking at the same time, \<open>K\<close> the highest price of a
  completion, and \<open>S\<close> the most that is booked for the tenant while one of its budget checks waits for
  the repository. (That last part is the price of storing an answer that is out of date, and 0
  if the database answers at once.)
\<close>

theorem budget_overrun_bounded:
  assumes "tid (T i) = i" "monthly_budget_usd (T i) = Some b" "0 < b" "0 \<le> K" "0 \<le> S"
    and "y0 = (idle_system s0, t0)" "budget_of s0 = new_mtd_cache" "month_to_date_cost now i (usage_of s0) \<le> b"
    and "flight_runs (budget_step st T now K S) (\<lambda>y. flight i (fst y)) y0 y m"
    and "load_within T now K S (fst y)"
  shows "month_to_date_cost now i (usage_of (sys_state (fst y))) \<le> b + real m * K + S"
proof -
  have lag: "cache_lag now S y0"
    by (simp add: cache_lag_def assms(6,7) idle_system_def new_mtd_cache_def mtd_get_def)
  have i: "has_budget T i" using assms(1-3) by (simp add: has_budget_def)
  have start: "noted now i y0 \<le> b + S" "flight i (fst y0) = 0"
    using assms(5,8) by (simp_all add: noted_def spent_def unnoted_def flight_def assms(6) idle_system_def)
  have "noted now i y + max 0 K * flight i (fst y) \<le> the (monthly_budget_usd (T i)) + S + real m * max 0 K"
    by (rule budget.overrun_flight [OF assms(9) lag]) (use i start assms(2) in simp_all)
  then show ?thesis
    using unnoted_bounds(2) [OF assms(10), of i] assms(2,4) by (simp add: noted_def spent_def)
qed

section \<open>Two requests at once\<close>

abbreviation "busy_day \<equiv> Datetime 2026 3 2 0 0 0 0"
abbreviation "busy_step \<equiv> budget_step auth_on (\<lambda>_. busy_tenant) busy_day 2 0"

lemma busy_within:
  assumes "set pcs \<subseteq> {Arrived, b_asking, b_read, b_calling, b_booking, b_booked}" "usage_of s = [] \<or> b_read \<notin> set pcs"
  shows "load_within (\<lambda>_. busy_tenant) busy_day 2 0 (fst (busy_at s pcs))"
proof -
  have "month_start busy_day \<le> xe_utc (cc_env busy_call)"
    by (simp add: busy_fields month_start_def less_eq_datetime_def dt_key_def)
  then show ?thesis
    using assms by (fastforce simp: load_within_def busy_at_def busy_meta spent_def month_to_date_cost_def sum_cost_def)
qed

lemma busy_flight: "flight ''a'' (fst (busy_at s pcs)) = sum_list (map (in_flight ''a'' busy_call) pcs)"
  by (simp add: flight_def tally_def busy_at_def comp_def)

lemma busy_path_within: "\<forall>y \<in> set busy_path. load_within (\<lambda>_. busy_tenant) busy_day 2 0 (fst y)"
  unfolding busy_path_def list.simps ball_simps(5,7)
  by (intro conjI ballI TrueI; (rule busy_within)?; simp add: busy_def busy_fresh_def)

lemma busy_budget_runs:
  "flight_runs busy_step (\<lambda>y. flight ''a'' (fst y)) (idle_system busy_fresh, 30) (last busy_path) 2"
  by (rule busy_path_runs [OF busy_path_within]) (simp add: busy_path_def busy_flight busy_tid)

lemma busy_spent: "month_to_date_cost busy_day ''a'' (busy_rows rows) = month_to_date_cost busy_day ''a'' rows + 2"
  by (simp add: busy_rows_def usage_ledger.mtd_book usage_row_def busy_meta busy_fields busy_tid
      month_start_def less_eq_datetime_def dt_key_def)

theorem budget_overrun_bounded_witness:
  "flight_runs (budget_step auth_on (\<lambda>_. busy_tenant) busy_day 2 0) (\<lambda>y. flight ''a'' (fst y))
      (idle_system busy_fresh, 30) (last busy_path) 2
    \<and> month_to_date_cost busy_day ''a'' (usage_of (sys_state (fst (last busy_path)))) = 4
    \<and> month_to_date_cost busy_day ''a'' (usage_of (sys_state (fst (last busy_path)))) \<le> 2 + real 2 * 2 + 0"
proof -
  have none: "month_to_date_cost busy_day ''a'' [] = 0" by (simp add: month_to_date_cost_def sum_cost_def)
  have "month_to_date_cost busy_day ''a'' (usage_of (sys_state (fst (last busy_path)))) \<le> 2 + real 2 * 2 + 0"
    by (rule budget_overrun_bounded [OF _ _ _ _ _ refl _ _ busy_budget_runs])
       (use busy_path_within in \<open>simp_all add: busy_tenant_def new_tenant_def busy_fresh_def busy_def none busy_path_ends(1)\<close>)
  moreover have "usage_of (sys_state (fst (last busy_path))) = busy_rows (busy_rows [])"
    by (simp add: busy_path_ends busy_at_def busy_def)
  ultimately show ?thesis
    using busy_budget_runs by (simp add: busy_spent none)
qed

end
