(* ===== verification/Token_Overrun.thy ===== *)
theory Token_Overrun
  imports Load_Demo
begin

text \<open>
  The token limit under load. The tokens of a request are only known, and only booked, after
  the upstream call (\<open>auth/ratelimit.py\<close>), so that requests admitted in the meantime are not seen by
  the check. The theory bounds what a tenant can use within a minute, for every interleaving of
  the requests of all tenants.
\<close>

section \<open>The tokens of the last minute\<close>

definition minute_tokens :: "seconds \<Rightarrow> tenant_id \<Rightarrow> limiter \<Rightarrow> int" where
  "minute_tokens now i lm = sum_list (map snd (token_events (prune now 60 (current lm i))))"

definition charges_positive :: "limiter \<Rightarrow> bool" where
  "charges_positive lm \<longleftrightarrow> (\<forall>i. \<forall>(t, n) \<in> set (token_events (current lm i)). 0 < n)"

lemma prune_twice:
  "t \<le> t' \<Longrightarrow> token_events (prune t' 60 (prune t 60 w)) = token_events (prune t' 60 w)"
proof -
  assume "t \<le> t'"
  then have "dropWhile (\<lambda>e. fst e < t' - 60) (dropWhile (\<lambda>e. fst e < t - 60) es)
      = dropWhile (\<lambda>e. fst e < t' - 60) es" for es :: "(seconds \<times> int) list"
    by (induction es) auto
  then show ?thesis by (simp add: prune_def Let_def)
qed

lemma dropWhile_sum_le: "\<forall>x \<in> set xs. 0 \<le> f x \<Longrightarrow> sum_list (map f (dropWhile P xs)) \<le> (sum_list (map f xs) :: int)"
  by (induction xs) auto

lemma minute_tokens_later:
  assumes "charges_positive lm" "t \<le> t'"
  shows "minute_tokens t' i lm \<le> minute_tokens t i lm"
proof -
  define es where "es = token_events (prune t 60 (current lm i))"
  have "set es \<subseteq> set (token_events (current lm i))" by (auto simp: es_def prune_def Let_def dest: set_dropWhileD)
  then have "\<forall>e \<in> set es. 0 \<le> snd e" using assms(1) by (fastforce simp: charges_positive_def)
  moreover have "token_events (prune t' 60 (current lm i)) = dropWhile (\<lambda>e. fst e < t' - 60) es"
    using prune_twice [OF assms(2), of "current lm i"] by (simp add: prune_def Let_def es_def)
  ultimately show ?thesis by (simp add: minute_tokens_def dropWhile_sum_le es_def [symmetric])
qed

text \<open>What the operations do to it.\<close>

lemma charges_positive_ops:
  assumes "charges_positive lm"
  shows "charges_positive (snd (check_request t i l lm))" "charges_positive (snd (check_tokens t i l lm))"
    and "charges_positive (record_tokens t i n lm)"
proof -
  have p: "(a, b) \<in> set (token_events (prune t 60 (current lm j))) \<Longrightarrow> 0 < b" for a b j
    using assms by (auto simp: charges_positive_def prune_def Let_def dest!: set_dropWhileD)
  show "charges_positive (snd (check_request t i l lm))" "charges_positive (snd (check_tokens t i l lm))"
    "charges_positive (record_tokens t i n lm)"
    using assms by (auto simp: charges_positive_def current_check_request current_check_tokens current_record_tokens
        Let_def dest: p)
qed

lemma token_events_timestamps [simp]: "token_events (prune t 60 (w\<lparr>timestamps := ts\<rparr>)) = token_events (prune t 60 w)"
  by (simp add: prune_def Let_def)

lemma minute_tokens_ops:
  "minute_tokens t j (snd (check_request t i l lm)) = minute_tokens t j lm"
  "minute_tokens t j (snd (check_tokens t i l lm)) = minute_tokens t j lm"
  by (simp_all add: minute_tokens_def current_check_request current_check_tokens Let_def prune_twice)

lemma minute_tokens_record:
  "minute_tokens t j (record_tokens t i n lm) = minute_tokens t j lm + (if j = i \<and> 0 < n then n else 0)"
proof -
  have "dropWhile (\<lambda>e. fst e < t - 60) (es @ [(t, n)]) = dropWhile (\<lambda>e. fst e < t - 60) es @ [(t, n)]" for es
    by (induction es) auto
  then have "token_events (prune t 60 (w\<lparr>token_events := token_events w @ [(t, n)]\<rparr>)) = token_events (prune t 60 w) @ [(t, n)]" for w
    by (simp add: prune_def Let_def)
  then show ?thesis by (simp add: minute_tokens_def current_record_tokens Let_def prune_twice)
qed

lemma check_tokens_below: "allowed (fst (check_tokens t i l lm)) \<longleftrightarrow> minute_tokens t i lm < l"
  by (simp add: check_tokens_current minute_tokens_def Let_def refuse_def admit_def)

section \<open>Runs within bounds\<close>

text \<open>The requests of a tenant that have passed the token check and have not been charged.\<close>

fun uncharged_task :: "tenant_id \<Rightarrow> client_call \<Rightarrow> task \<Rightarrow> nat" where
  "uncharged_task i q (QueryingSpend t) = (if tid t = i then 1 else 0)"
| "uncharged_task i q (SpendRead t v) = (if tid t = i then 1 else 0)"
| "uncharged_task i q (Calling t k) = (if tid t = i then 1 else 0)"
| "uncharged_task i q pc = 0"

definition uncharged_tasks :: "tenant_id \<Rightarrow> system \<Rightarrow> nat" where
  "uncharged_tasks i x = tally (uncharged_task i) (sys_tasks x)"

text \<open>\<open>T\<close> gives the tenant behind an id, \<open>K\<close> the largest number of tokens of a completion.\<close>

fun tokens_within :: "int \<Rightarrow> task \<Rightarrow> bool" where
  "tokens_within K (Booking t body resp g) = (total_tokens (resp_usage resp) \<le> K)"
| "tokens_within K pc = True"

definition token_load :: "(tenant_id \<Rightarrow> tenant) \<Rightarrow> int \<Rightarrow> system \<Rightarrow> bool" where
  "token_load T K x \<longleftrightarrow> (\<forall>(q, pc) \<in> set (sys_tasks x).
     (\<forall>t. task_tenant pc = Some t \<longrightarrow> t = T (tid t)) \<and> tokens_within K pc)"

abbreviation "token_step st T K \<equiv> loaded_step st (token_load T K)"

definition window_at :: "system \<times> seconds \<Rightarrow> limiter" where
  "window_at y = limiter_of (sys_state (fst y))"

definition used_now :: "tenant_id \<Rightarrow> system \<times> seconds \<Rightarrow> int" where
  "used_now i y = minute_tokens (snd y) i (window_at y)"

definition tokens_fit ::
  "(tenant_id \<Rightarrow> tenant) \<Rightarrow> int \<Rightarrow> tenant_id \<Rightarrow> system \<times> seconds \<Rightarrow> system \<times> seconds \<Rightarrow> bool"
where
  "tokens_fit T K i y y' \<longleftrightarrow>
     used_now i y' \<le> tpm_limit (T i) \<and> uncharged_tasks i (fst y') = Suc (uncharged_tasks i (fst y))
   \<or> used_now i y' \<le> used_now i y \<and> uncharged_tasks i (fst y') \<le> uncharged_tasks i (fst y)
   \<or> used_now i y' \<le> used_now i y + max 0 K \<and> uncharged_tasks i (fst y) = Suc (uncharged_tasks i (fst y'))"

section \<open>One step\<close>

lemma checks_shrink:
  assumes "charges_positive lm" "now \<le> ae_mono ae 0" "ae_mono ae 0 \<le> ae_mono ae 1" "ae_mono ae 1 \<le> later"
  shows "charges_positive (after_request ae t lm)" "charges_positive (after_tokens ae t lm)"
    and "minute_tokens later i (after_request ae t lm) \<le> minute_tokens now i lm"
    and "minute_tokens later i (after_tokens ae t lm) \<le> minute_tokens now i lm"
    and "tokens_left ae t lm \<Longrightarrow> minute_tokens later (tid t) (after_tokens ae t lm) \<le> tpm_limit t"
proof -
  show r: "charges_positive (after_request ae t lm)" unfolding after_request_def by (rule charges_positive_ops(1) [OF assms(1)])
  show a: "charges_positive (after_tokens ae t lm)" unfolding after_tokens_def by (rule charges_positive_ops(2) [OF r])
  have r0: "minute_tokens (ae_mono ae 0) i (after_request ae t lm) \<le> minute_tokens now i lm" for i
    unfolding after_request_def minute_tokens_ops by (rule minute_tokens_later [OF assms(1,2)])
  have r1: "minute_tokens (ae_mono ae 1) i (after_request ae t lm) \<le> minute_tokens now i lm" for i
    using minute_tokens_later [OF r assms(3)] r0 by (rule order_trans)
  then show "minute_tokens later i (after_request ae t lm) \<le> minute_tokens now i lm"
    using minute_tokens_later [OF r assms(4)] order_trans by blast
  have a1: "minute_tokens later i (after_tokens ae t lm) \<le> minute_tokens (ae_mono ae 1) i (after_request ae t lm)" for i
    using minute_tokens_later [OF a assms(4), of i] by (simp add: after_tokens_def minute_tokens_ops)
  then show "minute_tokens later i (after_tokens ae t lm) \<le> minute_tokens now i lm" using r1 order_trans by blast
  show "minute_tokens later (tid t) (after_tokens ae t lm) \<le> tpm_limit t" if "tokens_left ae t lm"
    using that a1 [of "tid t"] check_tokens_below [of "ae_mono ae 1" "tid t" "tpm_limit t" "after_request ae t lm"]
    by (simp add: tokens_left_def)
qed

lemma entered_uncharged:
  "entered s t (pc', s') \<Longrightarrow> limiter_of s' = limiter_of s \<and> uncharged_task i q pc' \<le> (if tid t = i then 1 else 0)
     \<and> (uncharged_task i q pc' = 1 \<longrightarrow> task_tenant pc' = Some t)"
  by (auto simp: entered_def calm_def)

text \<open>A first run at the gate.\<close>

lemma arrived_tokens:
  assumes "auth_enabled st" "arrive st q s = (pc', s')" "charges_positive (limiter_of s)"
    and "sorted [now, ae_mono (cc_auth q) 0, ae_mono (cc_auth q) 1, later]"
  shows "charges_positive (limiter_of s')"
    and "minute_tokens later i (limiter_of s') \<le> minute_tokens now i (limiter_of s)"
    and "uncharged_task i q pc' = 0 \<or> uncharged_task i q pc' = 1
      \<and> (\<exists>t. task_tenant pc' = Some t \<and> tid t = i \<and> minute_tokens later i (limiter_of s') \<le> tpm_limit t)"
proof -
  note checks = checks_shrink [OF assms(3), of now "cc_auth q" later]
  have t: "now \<le> later" using assms(4) by simp
  have "charges_positive (limiter_of s') \<and> minute_tokens later i (limiter_of s') \<le> minute_tokens now i (limiter_of s)
    \<and> (uncharged_task i q pc' = 0 \<or> uncharged_task i q pc' = 1
      \<and> (\<exists>t. task_tenant pc' = Some t \<and> tid t = i \<and> minute_tokens later i (limiter_of s') \<le> tpm_limit t))"
    using assms(1,2)
  proof (cases rule: arrive_cases)
    case (refused r l t)
    then have "limiter_of s' = l" "uncharged_task i q pc' = 0" by (simp_all add: calm_def)
    with refused(3) checks(1,2) [of t] checks(3,4) [where t = t and i = i] checks(5) [of t] assms(3,4) minute_tokens_later [OF assms(3) t] show ?thesis by auto
  next
    case (asking t)
    then have "limiter_of s' = after_tokens (cc_auth q) t (limiter_of s)" by (simp add: calm_def)
    with asking checks(1,2) [of t] checks(3,4) [where t = t and i = i] checks(5) [of t] assms(4) show ?thesis by auto
  next
    case (passed t)
    from entered_uncharged [OF passed(4), of i q] passed(1) checks(1,2) [of t] checks(3,4) [where t = t and i = i] checks(5) [of t] assms(4) show ?thesis
      by (cases "tid t = i") auto
  qed
  then show "charges_positive (limiter_of s')"
    and "minute_tokens later i (limiter_of s') \<le> minute_tokens now i (limiter_of s)"
    and "uncharged_task i q pc' = 0 \<or> uncharged_task i q pc' = 1
      \<and> (\<exists>t. task_tenant pc' = Some t \<and> tid t = i \<and> minute_tokens later i (limiter_of s') \<le> tpm_limit t)" by blast+
qed

text \<open>The later steps: only the return of a provider charges, and it ends the flight.\<close>

lemma later_tokens:
  assumes "advance st q pc s = (pc', s')" "pc \<noteq> Arrived" "charges_positive (limiter_of s)" "tokens_within K pc'"
    and "sorted (now # task_readings q pc @ [later])"
  shows "charges_positive (limiter_of s')"
    and "minute_tokens later i (limiter_of s') \<le> minute_tokens now i (limiter_of s) \<and> uncharged_task i q pc' \<le> uncharged_task i q pc
      \<or> minute_tokens later i (limiter_of s') \<le> minute_tokens now i (limiter_of s) + max 0 K
        \<and> uncharged_task i q pc = Suc (uncharged_task i q pc')"
proof -
  note pass = minute_tokens_later [OF assms(3)]
  have same: "charges_positive (limiter_of s') \<and> minute_tokens later i (limiter_of s') \<le> minute_tokens now i (limiter_of s)"
    if "limiter_of s' = limiter_of s"
    using that assms(3,5) pass by simp
  have "charges_positive (limiter_of s')
    \<and> (minute_tokens later i (limiter_of s') \<le> minute_tokens now i (limiter_of s) \<and> uncharged_task i q pc' \<le> uncharged_task i q pc
      \<or> minute_tokens later i (limiter_of s') \<le> minute_tokens now i (limiter_of s) + max 0 K
        \<and> uncharged_task i q pc = Suc (uncharged_task i q pc'))"
  proof (cases pc)
    case (SpendRead t v)
    have "limiter_of s' = limiter_of s \<and> uncharged_task i q pc' \<le> uncharged_task i q pc"
      using budget_decided_effect [OF refl, of st q t "after_answer (ae_mono (cc_auth q) 3) t v (budget_of s)" s] assms(1)
        entered_uncharged [of _ t pc' s' i q]
      by (auto simp: SpendRead)
    with same show ?thesis by simp
  next
    case (Calling t k)
    then have "provider_returned st (cc_env q) t k s = (pc', s')" using assms(1) by simp
    then show ?thesis
    proof (cases rule: provider_returned_effect)
      case on
      with entered_uncharged [OF on, of i q] same show ?thesis by (auto simp: Calling)
    next
      case (answer body resp g)
      define r where "r = xe_mono (cc_env q) 0"
      define n where "n = total_tokens (resp_usage resp)"
      have lm: "limiter_of s' = record_tokens r (tid t) n (limiter_of s)" using answer(3) by (simp add: calm_def r_def n_def)
      then have pos: "charges_positive (limiter_of s')" using charges_positive_ops(3) [OF assms(3)] by simp
      have "minute_tokens later i (limiter_of s') \<le> minute_tokens r i (limiter_of s')"
        using minute_tokens_later [OF pos] assms(5) by (simp add: Calling r_def)
      also have "\<dots> = minute_tokens r i (limiter_of s) + (if i = tid t \<and> 0 < n then n else 0)"
        unfolding lm by (rule minute_tokens_record)
      also have "\<dots> \<le> minute_tokens now i (limiter_of s) + (if i = tid t then max 0 K else 0)"
        using pass [of now r i] assms(4,5) by (auto simp: Calling answer(1) r_def n_def)
      finally show ?thesis using pos by (auto simp: Calling answer(1))
    qed
  next
    case (Booking t body resp g)
    with assms(1) same show ?thesis by (auto simp: book_row_def split: option.splits)
  next
    case (Booked t body resp g)
    then have "limiter_of s' = limiter_of s" "uncharged_task i q pc' = 0"
      using assms(1) by (auto simp: finish_booking_def emit_metrics_def note_spend_def Let_def split: prod.splits sum.splits if_splits)
    with same show ?thesis by (simp add: Booked)
  qed (use assms same in auto)
  then show "charges_positive (limiter_of s')"
    and "minute_tokens later i (limiter_of s') \<le> minute_tokens now i (limiter_of s) \<and> uncharged_task i q pc' \<le> uncharged_task i q pc
      \<or> minute_tokens later i (limiter_of s') \<le> minute_tokens now i (limiter_of s) + max 0 K
        \<and> uncharged_task i q pc = Suc (uncharged_task i q pc')" by blast+
qed

lemma token_step_fits:
  assumes "token_step st T K (x, now) (x', later)" "charges_positive (window_at (x, now))"
  shows "charges_positive (window_at (x', later))" "tid (T i) = i \<Longrightarrow> tokens_fit T K i (x, now) (x', later)"
proof -
  from assms(1) obtain mv where mv: "timed_move st mv (x, now) (x', later)" and auth: "auth_enabled st"
    and load: "token_load T K x'"
    by (auto simp: loaded_step_def)
  note pos = assms(2) [unfolded window_at_def fst_conv]
  have "charges_positive (window_at (x', later)) \<and> (tid (T i) = i \<longrightarrow> tokens_fit T K i (x, now) (x', later))"
    using mv
  proof (cases rule: timed_move_cases)
    case (resume j q pc pc' s')
    have sums: "uncharged_tasks i x' + uncharged_task i q pc = uncharged_tasks i x + uncharged_task i q pc'"
      using tally_resume [OF resume(1,2), of "uncharged_task i" pc'] by (simp add: uncharged_tasks_def resume(4))
    have s': "sys_state x' = s'" by (simp add: resume(4))
    have "(q, pc') \<in> set (sys_tasks x')" using set_update_memI [OF resume(1)] by (simp add: resume(4))
    then have here: "\<And>t. task_tenant pc' = Some t \<Longrightarrow> t = T (tid t)" "tokens_within K pc'"
      using load by (auto simp: token_load_def)
    show ?thesis
    proof (cases "pc = Arrived")
      case True
      have "arrive st q (sys_state x) = (pc', s')" "sorted [now, ae_mono (cc_auth q) 0, ae_mono (cc_auth q) 1, later]"
        using resume(3,5) True by simp_all
      note arr = arrived_tokens [OF auth this(1) pos this(2)]
      from arr(3) [of i] here(1)
      have "uncharged_task i q pc' = 0 \<or> uncharged_task i q pc' = 1 \<and> minute_tokens later i (limiter_of s') \<le> tpm_limit (T i)"
        by auto
      with arr(1) arr(2) [of i] sums show ?thesis
        by (auto simp: True s' window_at_def tokens_fit_def used_now_def)
    next
      case False
      note adv = later_tokens [OF resume(3) False pos here(2) resume(5)]
      from adv(1) adv(2) [of i] sums show ?thesis
        by (auto simp: s' window_at_def tokens_fit_def used_now_def)
    qed
  next
    case other
    then have "limiter_of (sys_state x') = limiter_of (sys_state x)" "uncharged_tasks i x' = uncharged_tasks i x"
      by (auto simp: calm_def uncharged_tasks_def)
    with pos minute_tokens_later [OF pos other(3)] show ?thesis
      by (simp add: window_at_def tokens_fit_def used_now_def)
  qed
  then show "charges_positive (window_at (x', later))" "tid (T i) = i \<Longrightarrow> tokens_fit T K i (x, now) (x', later)" by blast+
qed

interpretation tokens: late_charging "token_step st T K" "\<lambda>y. charges_positive (window_at y)" "\<lambda>i. tid (T i) = i"
    "\<lambda>i. of_int (tpm_limit (T i))" "\<lambda>i y. of_int (used_now i y)" "\<lambda>i y. uncharged_tasks i (fst y)" "of_int (max 0 K)"
  for st T K
proof unfold_locales
  fix y y' :: "system \<times> seconds" and i :: tenant_id
  obtain x t x' t' where y: "y = (x, t)" "y' = (x', t')" by fastforce
  assume pos: "charges_positive (window_at y)" and step: "token_step st T K y y'"
  note fits = token_step_fits [OF step [unfolded y] pos [unfolded y]]
  show "charges_positive (window_at y')" using fits(1) by (simp add: y)
  show "real_of_int (used_now i y') \<le> of_int (tpm_limit (T i)) \<and> uncharged_tasks i (fst y') = Suc (uncharged_tasks i (fst y))
      \<or> real_of_int (used_now i y') \<le> of_int (used_now i y) \<and> uncharged_tasks i (fst y') \<le> uncharged_tasks i (fst y)
      \<or> real_of_int (used_now i y') \<le> of_int (used_now i y) + of_int (max 0 K)
        \<and> uncharged_tasks i (fst y) = Suc (uncharged_tasks i (fst y'))"
    if "tid (T i) = i"
    using fits(2) [OF that] unfolding y tokens_fit_def of_int_add [symmetric] of_int_le_iff by simp
qed

section \<open>Property\<close>

text \<open>
  C8. The token limit can be overrun only by what is in flight. Whatever the order in which the
  requests of all tenants arrive and are resumed, a tenant never uses more than \<open>limit + m * K\<close> tokens
  within a minute, where \<open>m\<close> is the highest number of its requests that were between the token check
  and the answer of the provider at the same time, and \<open>K\<close> the largest number of tokens of a
  completion.
\<close>

theorem token_overrun_bounded:
  assumes "tid (T i) = i" "0 \<le> tpm_limit (T i)" "0 \<le> K" "limiter_of s0 = []" "y0 = (idle_system s0, t0)"
    and "flight_runs (token_step st T K) (\<lambda>y. uncharged_tasks i (fst y)) y0 y m" "snd y \<le> later"
  shows "minute_tokens later i (limiter_of (sys_state (fst y))) \<le> tpm_limit (T i) + int m * K"
proof -
  have start: "charges_positive (window_at y0)" "used_now i y0 = 0" "uncharged_tasks i (fst y0) = 0"
    by (simp_all add: assms(4,5) idle_system_def window_at_def charges_positive_def used_now_def minute_tokens_def
        current_def new_window_def prune_def uncharged_tasks_def)
  have "charges_positive (window_at y) \<and> of_int (used_now i y) \<le> of_int (tpm_limit (T i)) + real m * of_int (max 0 K)"
    by (rule tokens.overrun [OF assms(6) start(1)]) (simp_all add: start assms(1,2))
  moreover from this have "minute_tokens later i (limiter_of (sys_state (fst y))) \<le> used_now i y"
    using minute_tokens_later [OF _ assms(7)] by (simp add: used_now_def window_at_def)
  ultimately have "(of_int (minute_tokens later i (limiter_of (sys_state (fst y)))) :: real) \<le> of_int (tpm_limit (T i) + int m * K)"
    using assms(3) by (simp add: max_def)
  then show ?thesis by (simp only: of_int_le_iff)
qed

text \<open>Two requests of a million tokens at once, with a limit of 1000.\<close>

lemma busy_uncharged: "uncharged_tasks ''a'' (fst (busy_at s pcs)) = sum_list (map (uncharged_task ''a'' busy_call) pcs)"
  by (simp add: uncharged_tasks_def tally_def busy_at_def comp_def)

lemma busy_tokens: "token_load (\<lambda>_. busy_tenant) 1000000 (fst (busy_at s pcs))"
  if "set pcs \<subseteq> {Arrived, b_asking, b_read, b_calling, b_booking, b_booked}"
  using that by (fastforce simp: token_load_def busy_at_def busy_meta)

theorem token_overrun_bounded_witness:
  "flight_runs (token_step auth_on (\<lambda>_. busy_tenant) 1000000) (\<lambda>y. uncharged_tasks ''a'' (fst y))
      (idle_system busy_fresh, 30) (last busy_path) 2
    \<and> minute_tokens 30 ''a'' (limiter_of (sys_state (fst (last busy_path)))) = 2000000
    \<and> minute_tokens 30 ''a'' (limiter_of (sys_state (fst (last busy_path)))) \<le> tpm_limit busy_tenant + int 2 * 1000000"
proof -
  have within: "\<forall>y \<in> set busy_path. token_load (\<lambda>_. busy_tenant) 1000000 (fst y)"
    unfolding busy_path_def list.simps ball_simps(5,7) by (intro conjI ballI TrueI; (rule busy_tokens)?; simp)
  have runs: "flight_runs (token_step auth_on (\<lambda>_. busy_tenant) 1000000) (\<lambda>y. uncharged_tasks ''a'' (fst y))
      (idle_system busy_fresh, 30) (last busy_path) 2"
    by (rule busy_path_runs [OF within]) (simp add: busy_path_def busy_uncharged busy_tid)
  have "minute_tokens 30 ''a'' (limiter_of (sys_state (fst (last busy_path)))) \<le> tpm_limit busy_tenant + int 2 * 1000000"
    using token_overrun_bounded [OF _ _ _ _ refl runs, of 30]
    by (simp add: busy_tenant_def new_tenant_def busy_fresh_def busy_path_ends busy_at_def)
  moreover have "minute_tokens 30 ''a'' (limiter_of (sys_state (fst (last busy_path)))) = 2000000"
    by (simp add: busy_path_ends busy_at_def busy_def minute_tokens_def current_def prune_def)
  ultimately show ?thesis using runs by simp
qed

end
