(* ===== verification/Progress.thy ===== *)
theory Progress
  imports Interleaving
begin

text \<open>
  Every request is answered. However the requests of a process are interleaved, a task is replied to
  after a number of resumptions that depends on the registered providers only: no other request and no
  operator can prolong the loop over its chain.
\<close>

section \<open>The providers of a process\<close>

definition providers_in :: "registry \<Rightarrow> provider list" where
  "providers_in reg = map (\<lambda>(k, e). eprovider e) reg"

text \<open>The longest chain a model can resolve to.\<close>

definition longest_chain :: "provider list \<Rightarrow> nat" where
  "longest_chain ps = sum_list (map (\<lambda>p. max 1 (length (list_models p))) ps)"

lemma providers_in_map_entry:
  "(\<And>e. eprovider (f e) = eprovider e) \<Longrightarrow> providers_in (AList.map_entry k f reg) = providers_in reg"
  by (induction reg) (auto simp: providers_in_def)

lemma providers_in_simps [simp]:
  "providers_in (set_breaker k b reg) = providers_in reg"
  "providers_in (registry_of (change_breaker k f s)) = providers_in (registry_of s)"
  "providers_in (poll_reg clk P n reg) = providers_in reg"
proof -
  show "providers_in (poll_reg clk P n reg) = providers_in reg"
    by (induction reg arbitrary: n) (auto simp: providers_in_def)
qed (simp_all add: set_breaker_def change_breaker_def providers_in_map_entry)

lemma longest_chain_poll: "longest_chain (map eprovider (poll_out clk P n reg)) \<le> longest_chain (providers_in reg)"
proof (induction reg arbitrary: n)
  case (Cons ke reg)
  obtain k e where "ke = (k, e)" by fastforce
  with Cons.IH [of n] Cons.IH [of "Suc n"] show ?case
    by (auto simp: longest_chain_def providers_in_def)
qed (simp add: longest_chain_def)

lemma length_candidates: "length (candidates_of m es) \<le> longest_chain (map eprovider es)"
proof -
  have "length (auto_candidates es) \<le> longest_chain (map eprovider es)"
    by (induction es) (auto simp: auto_candidates_def longest_chain_def split: option.split)
  moreover have "length (priced_candidates es) \<le> longest_chain (map eprovider es)"
  proof -
    have "length (concat (map (\<lambda>m. case map_of PRICING m of None \<Rightarrow> [] | Some pr \<Rightarrow> [(input_per_million pr, n, m)]) ms)) \<le> length ms"
      for n and ms :: "model_id list"
      by (induction ms) (auto split: option.split)
    then show ?thesis
      by (induction es) (auto simp: priced_candidates_def longest_chain_def intro!: add_mono le_max_iff_disj [THEN iffD2] disjI2)
  qed
  moreover have "length es \<le> longest_chain (map eprovider es)"
    by (induction es) (auto simp: longest_chain_def)
  ultimately show ?thesis by (simp add: candidates_of_def)
qed

lemma resolve_chain_bound:
  assumes "resolve_chain clk m fb n reg = (chain, reg', n')"
  shows "providers_in reg' = providers_in reg" "length chain \<le> longest_chain (providers_in reg)"
proof -
  have "length (cut fb cs) \<le> length cs" for cs :: "candidate list" by (simp add: cut_def)
  then show "length chain \<le> longest_chain (providers_in reg)"
    using assms length_candidates longest_chain_poll unfolding resolve_chain_eq by (metis Pair_inject order_trans)
  have "reg' = poll_reg clk (polled m) n reg" using assms by (simp add: resolve_chain_eq)
  then show "providers_in reg' = providers_in reg" by simp
qed

section \<open>How far a task is from its reply\<close>

fun steps_left :: "nat \<Rightarrow> task \<Rightarrow> nat" where
  "steps_left B Arrived = B + 5"
| "steps_left B (QueryingSpend t) = B + 4"
| "steps_left B (SpendRead t v) = B + 3"
| "steps_left B (Calling t k) = length (pc_rest k) + 3"
| "steps_left B (Booking t body resp g) = 2"
| "steps_left B (Booked t body resp g) = 1"
| "steps_left B (Replied r) = 0"

lemma steps_left_0: "steps_left B pc = 0 \<Longrightarrow> \<exists>r. pc = Replied r"
  by (cases pc) auto

definition nears :: "provider list \<Rightarrow> nat \<Rightarrow> task \<times> app_state \<Rightarrow> bool" where
  "nears ps n out \<longleftrightarrow> providers_in (registry_of (snd out)) = ps \<and> steps_left (longest_chain ps) (fst out) \<le> n"

lemma registry_emit [simp]: "registry_of (snd (emit_metrics ev cs s)) = registry_of s"
  by (simp add: emit_metrics_def case_prod_unfold Let_def)

lemma emit_registry: "emit_metrics ev cs s = (r, s') \<Longrightarrow> registry_of s' = registry_of s"
  by (metis registry_emit snd_conv)

lemma nears_next_call:
  "providers_in (registry_of s) = ps \<Longrightarrow> length chain + 2 \<le> n \<Longrightarrow> nears ps n (next_call ev t body started chain attempts le i s)"
proof (induction chain arbitrary: attempts le i s)
  case (Cons c chain)
  obtain p x where c: "c = (p, x)" by fastforce
  have "nears ps n (next_call ev t body started chain attempts le j (s\<lparr>registry_of := set_breaker p b (registry_of s)\<rparr>))" for j b
    using Cons.prems by (intro Cons.IH) simp_all
  moreover have "nears ps n (next_call ev t body started chain attempts le j s)" for j
    using Cons.prems by (intro Cons.IH) simp_all
  ultimately show ?case
    using Cons.prems by (auto simp: c Let_def nears_def split: option.split prod.split)
qed (simp add: nears_def)

lemma nears_start_route:
  assumes "providers_in (registry_of s) = ps" "longest_chain ps + 2 \<le> n"
  shows "nears ps n (start_route st ev t body s)"
proof -
  obtain chain reg j where c: "resolve_chain (mono (xe_route ev)) (model body) (fallback_enabled st)
      (xe_start ev) (registry_of s) = (chain, reg, j)" by (metis prod_cases3)
  note b = resolve_chain_bound [OF c, unfolded assms(1)]
  show ?thesis
    using b assms(2) nears_next_call [of "s\<lparr>registry_of := reg\<rparr>" ps chain n ev t body _ "[]" None j]
    by (auto simp: start_route_def c Let_def) (simp add: nears_def)
qed

lemma registry_serve_hit: "registry_of (snd (serve_hit ev t body cached s)) = registry_of s"
  by (auto simp: serve_hit_def Let_def case_prod_unfold split: option.split sum.split)

lemma nears_look_up:
  assumes "providers_in (registry_of s) = ps" "longest_chain ps + 2 \<le> n"
  shows "nears ps n (look_up st ev t body s)"
proof -
  have "nears ps n (start_route st ev t body (s\<lparr>cache_of := b\<rparr>))" for b
    using assms by (intro nears_start_route) simp_all
  moreover have "nears ps n (start_route st ev t body s)" by (rule nears_start_route [OF assms])
  moreover have "providers_in (registry_of (snd (serve_hit ev t body cached (s\<lparr>cache_of := b\<rparr>)))) = ps" for b cached
    using assms(1) by (simp add: registry_serve_hit)
  ultimately show ?thesis
    using assms(1) by (auto simp: look_up_def nears_def Let_def case_prod_unfold split: sum.split option.split)
qed

lemma nears_enter:
  assumes "providers_in (registry_of s) = ps" "longest_chain ps + 2 \<le> n"
  shows "nears ps n (enter st q t s)"
proof (cases "cc_goal q")
  case (WantChat body)
  obtain body1 found where g: "guard_stage st body = (body1, found)" by fastforce
  obtain r s1 where e: "emit_metrics (cc_env q) (map (\<lambda>l. Inc GuardrailEvents [tid t, l] 1) found) s = (r, s1)" by fastforce
  have s1: "providers_in (registry_of s1) = ps" using emit_registry [OF e] assms(1) by simp
  with nears_look_up [OF s1 assms(2)] assms(1) show ?thesis
    by (cases r) (auto simp: enter_def WantChat g e nears_def)
qed (use assms in \<open>simp add: enter_def nears_def\<close>)

lemma nears_budget_decided:
  assumes "providers_in (registry_of s) = ps" "longest_chain ps + 2 \<le> n"
  shows "nears ps n (budget_decided st q t dc s)"
  using assms nears_enter [of "s\<lparr>budget_of := snd dc\<rparr>" ps n st q t] by (auto simp: budget_decided_def Let_def nears_def)

lemma nears_arrive:
  assumes "providers_in (registry_of s) = ps" "longest_chain ps + 4 \<le> n"
  shows "nears ps n (arrive st q s)"
proof -
  have l: "registry_of (snd (limits_stage ae t s1)) = registry_of s1" for ae t and s1 :: app_state
    by (auto simp: limits_stage_def Let_def case_prod_unfold split: sum.split)
  show ?thesis
    using assms l
    by (auto simp: arrive_def Let_def case_prod_unfold intro!: nears_enter nears_budget_decided
        split: sum.split option.split) (simp_all add: nears_def)
qed

lemma nears_answered:
  "providers_in (registry_of s) = ps \<Longrightarrow> nears ps 2 (answered st ev t body resp s)"
  by (auto simp: answered_def nears_def Let_def split: option.split)

lemma nears_provider_returned:
  assumes "providers_in (registry_of s) = ps"
  shows "nears ps (length (pc_rest k) + 2) (provider_returned st ev t k s)"
proof -
  have "nears ps (length (pc_rest k) + 2) out" if "nears ps 2 out" for out
    using that by (simp add: nears_def)
  then show ?thesis
    using assms
    by (auto simp: provider_returned_def Let_def case_prod_unfold nears_answered intro!: nears_next_call split: chat_outcome.split)
       (simp add: nears_def)
qed

text \<open>Whatever a task waits for, its resumption brings it nearer to its reply.\<close>

lemma nears_advance:
  assumes "providers_in (registry_of s) = ps"
  shows "nears ps (steps_left (longest_chain ps) pc - 1) (advance st q pc s)"
proof (cases pc)
  case (Booking t body resp g)
  with assms show ?thesis by (simp add: nears_def book_row_def split: option.split)
next
  case (Booked t body resp g)
  have "registry_of (note_spend (cc_env q) t g s) = registry_of s" by (simp add: note_spend_def)
  with Booked assms show ?thesis
    by (auto simp: nears_def finish_booking_def Let_def case_prod_unfold split: sum.split)
next
  case (Arrived)
  with nears_arrive [OF assms order_refl] show ?thesis by (simp add: add.commute)
next
  case (SpendRead t v)
  with nears_budget_decided [OF assms order_refl] show ?thesis by simp
next
  case (Calling t k)
  with nears_provider_returned [OF assms, of k] show ?thesis by simp
qed (use assms in \<open>simp_all add: nears_def\<close>)

section \<open>Schedules\<close>

text \<open>The task \<open>i\<close> of the request \<open>q\<close> exists, and is at most \<open>n\<close> resumptions from its reply.\<close>

definition due_in :: "provider list \<Rightarrow> nat \<Rightarrow> nat \<Rightarrow> system \<Rightarrow> bool" where
  "due_in ps i n x \<longleftrightarrow> providers_in (registry_of (sys_state x)) = ps \<and> i < length (sys_tasks x)
     \<and> steps_left (longest_chain ps) (snd (sys_tasks x ! i)) \<le> n"

lemma registry_with_keystore: "registry_of (snd (with_keystore ae f s)) = registry_of s"
  by (auto simp: with_keystore_def Let_def split: prod.split sum.split)

lemma registry_admin_call: "registry_of (snd (admin_call st ae key op s)) = registry_of s"
  by (cases op) (auto simp: admin_defs registry_with_keystore split: sum.split)

lemma due_perform:
  assumes "due_in ps i n x"
  shows "due_in ps i (n - (if mv = Resume i then 1 else 0)) (perform st mv x)"
proof (cases mv)
  case (Resume j)
  show ?thesis
  proof (cases "j < length (sys_tasks x)")
    case True
    obtain q pc where j: "sys_tasks x ! j = (q, pc)" by fastforce
    obtain pc' s' where a: "advance st q pc (sys_state x) = (pc', s')" by fastforce
    have "nears ps (steps_left (longest_chain ps) pc - 1) (advance st q pc (sys_state x))"
      using assms by (intro nears_advance) (simp add: due_in_def)
    with assms True j a show ?thesis by (auto simp: Resume due_in_def nears_def nth_list_update)
  qed (use assms Resume in \<open>auto simp: due_in_def\<close>)
qed (use assms in \<open>auto simp: due_in_def nth_append registry_admin_call\<close>)

lemma due_schedule: "due_in ps i n x \<Longrightarrow> due_in ps i (n - count_list moves (Resume i)) (schedule st moves x)"
proof (induction moves arbitrary: x n)
  case (Cons mv moves)
  from Cons.IH [OF due_perform [OF Cons.prems, of mv st]] show ?case
    by (simp add: schedule_def split: if_splits)
qed (simp add: schedule_def)

text \<open>Every task that is there is due, from its arrival on.\<close>

definition all_due :: "provider list \<Rightarrow> system \<Rightarrow> bool" where
  "all_due ps x \<longleftrightarrow> providers_in (registry_of (sys_state x)) = ps
     \<and> (\<forall>i < length (sys_tasks x). due_in ps i (longest_chain ps + 5) x)"

lemma all_due_perform:
  assumes "all_due ps x"
  shows "all_due ps (perform st mv x)"
proof -
  have kept: "due_in ps i (longest_chain ps + 5) (perform st mv x)" if "i < length (sys_tasks x)" for i
    using due_perform [of ps i "longest_chain ps + 5" x mv st] that assms
    by (auto simp: all_due_def due_in_def split: if_splits)
  show ?thesis
  proof (cases mv)
    case (Arrival q)
    with assms kept show ?thesis by (auto simp: all_due_def due_in_def less_Suc_eq nth_append)
  next
    case (Resume j)
    then have "providers_in (registry_of (sys_state (perform st mv x))) = ps"
      using assms nears_advance [of "sys_state x" ps "snd (sys_tasks x ! j)" st "fst (sys_tasks x ! j)"]
      by (auto simp: all_due_def nears_def case_prod_unfold Let_def)
    with kept Resume show ?thesis by (auto simp: all_due_def case_prod_unfold Let_def)
  next
    case (Operator ae key op)
    with assms kept show ?thesis by (auto simp: all_due_def registry_admin_call)
  qed
qed

section \<open>Property\<close>

text \<open>
  C3. Every request is answered. Whatever has happened before, whatever other requests arrive and
  are resumed in between and whatever the operator does, a request that has arrived is replied to
  as soon as it has been resumed \<open>B + 5\<close> times, where \<open>B\<close> is the length of the longest chain of the
  registered providers, and with a reply of the declared shape. No request starves another, and no
  failure of a provider prolongs a request beyond its chain.
\<close>

theorem replied_in_time:
  assumes "settings_ok st"
    and "i < length (sys_tasks (schedule st before (idle_system (fresh_process st bedrock openai))))"
    and "longest_chain (providers_in (build_registry st bedrock openai)) + 5 \<le> count_list later (Resume i)"
  shows "\<exists>q r. sys_tasks (schedule st (before @ later) (idle_system (fresh_process st bedrock openai))) ! i = (q, Replied r)
    \<and> reply_typed q r"
proof -
  define ps where "ps = providers_in (build_registry st bedrock openai)"
  define x where "x = schedule st before (idle_system (fresh_process st bedrock openai))"
  define y where "y = schedule st later x"
  have y: "schedule st (before @ later) (idle_system (fresh_process st bedrock openai)) = y"
    by (simp add: y_def x_def schedule_def)
  have "all_due ps x"
    unfolding x_def
    by (rule schedule_invariant [where P = "all_due ps"])
       (simp add: all_due_def idle_system_def fresh_process_def ps_def, rule all_due_perform)
  then have "due_in ps i (longest_chain ps + 5) x" using assms(2) by (simp add: all_due_def x_def)
  then have "due_in ps i (longest_chain ps + 5 - count_list later (Resume i)) y" unfolding y_def by (rule due_schedule)
  with assms(3) have i: "i < length (sys_tasks y)" "steps_left (longest_chain ps) (snd (sys_tasks y ! i)) = 0"
    by (simp_all add: due_in_def ps_def)
  then obtain q r where qr: "sys_tasks y ! i = (q, Replied r)" using steps_left_0 by (metis prod.collapse)
  have "system_ok st y"
    unfolding y [symmetric] by (rule schedule_invariant) (simp_all add: idle_system_ok perform_ok assms(1))
  with i(1) qr have "reply_typed q r" by (fastforce simp: system_ok_def dest: nth_mem)
  with qr show ?thesis by (simp add: y)
qed

lemma demo_chain_bound: "longest_chain (providers_in (build_registry demo_live demo_bedrock demo_openai)) = 4"
  by (simp add: providers_in_def longest_chain_def demo_registry_def
      build_registry_def demo_live_def demo_bedrock_def demo_openai_def register_def default_settings_def demo_provider_def Let_def)

theorem replied_in_time_witness:
  "\<exists>q r. sys_tasks (schedule demo_live ([Arrival demo_visitor] @ Arrival demo_visitor # Resume 1 # replicate 9 (Resume 0))
      (idle_system demo_fresh)) ! 0 = (q, Replied r) \<and> reply_typed q r"
proof (rule replied_in_time [OF demo_live(1)])
  show "0 < length (sys_tasks (schedule demo_live [Arrival demo_visitor] (idle_system demo_fresh)))"
    by (simp add: schedule_def idle_system_def)
  show "longest_chain (providers_in (build_registry demo_live demo_bedrock demo_openai)) + 5
      \<le> count_list (Arrival demo_visitor # Resume 1 # replicate 9 (Resume 0)) (Resume 0)"
    by (simp add: demo_chain_bound count_list_eq_length_filter)
qed

end
