(* ===== verification/Isolation.thy ===== *)
theory Isolation
  imports Service
begin

text \<open>
  Tenants do not disturb each other: a request is booked on the tenant of its key alone, so that the
  limits, the budget, the usage rows and the counters of every other tenant are what they were.
  (What tenants do share is the response cache, which by design does not know them, and the
  providers with their circuit breakers.)
\<close>

section \<open>What belongs to a tenant\<close>

definition unaffected :: "tenant_id \<Rightarrow> app_state \<Rightarrow> app_state \<Rightarrow> bool" where
  "unaffected j s s' \<longleftrightarrow> current (limiter_of s') j = current (limiter_of s) j
     \<and> rows_of j (usage_of s') = rows_of j (usage_of s)
     \<and> map_of (data (budget_of s')) j = map_of (data (budget_of s)) j
     \<and> (\<forall>m. total m j (metrics_of s') = total m j (metrics_of s))"

lemma unaffected_refl [simp]: "unaffected j s s"
  by (simp add: unaffected_def)

lemma unaffected_trans [trans]: "unaffected j s s' \<Longrightarrow> unaffected j s' s'' \<Longrightarrow> unaffected j s s''"
  by (simp add: unaffected_def)

lemma unaffected_updates [simp]:
  "unaffected j s (s'\<lparr>keystore_of := k\<rparr>) = unaffected j s s'"
  "unaffected j s (s'\<lparr>registry_of := reg\<rparr>) = unaffected j s s'"
  "unaffected j s (s'\<lparr>cache_of := c\<rparr>) = unaffected j s s'"
  "unaffected j s (s'\<lparr>spans_of := sp\<rparr>) = unaffected j s s'"
  by (simp_all add: unaffected_def)

lemma unaffected_limiter: "current l j = current (limiter_of s) j \<Longrightarrow> unaffected j s (s\<lparr>limiter_of := l\<rparr>)"
  and unaffected_budget: "map_of (data b) j = map_of (data (budget_of s)) j \<Longrightarrow> unaffected j s (s\<lparr>budget_of := b\<rparr>)"
  and unaffected_usage: "ur_tenant_id r \<noteq> j \<Longrightarrow> unaffected j s (s\<lparr>usage_of := insert_usage r (usage_of s)\<rparr>)"
  by (simp_all add: unaffected_def rows_of_insert)

lemma budget_others:
  assumes "i \<noteq> j"
  shows "map_of (data (mtd_set now i x c)) j = map_of (data c) j"
    and "tid t = i \<Longrightarrow> map_of (data (snd (check_budget t1 t2 f t c))) j = map_of (data c) j"
    and "map_of (data (record_spend t1 t2 i x c)) j = map_of (data c) j"
proof -
  show s: "map_of (data (mtd_set now i x c)) j = map_of (data c) j" for now x c
    using assms by (simp add: mtd_set_def dict_simps)
  show "tid t = i \<Longrightarrow> map_of (data (snd (check_budget t1 t2 f t c))) j = map_of (data c) j"
    by (auto simp: check_budget_def Let_def s split: option.split)
  show "map_of (data (record_spend t1 t2 i x c)) j = map_of (data c) j"
    by (auto simp: record_spend_def s split: option.split)
qed

text \<open>Metric calls that count nothing for the tenant \<open>j\<close>.\<close>

definition silent :: "tenant_id \<Rightarrow> metric_call list \<Rightarrow> bool" where
  "silent j cs \<longleftrightarrow> (\<forall>c \<in> set cs. \<forall>m. counted m j c = 0)"

lemma total_silent: "silent j cs \<Longrightarrow> total m j cs = 0"
  by (induction cs) (simp_all add: silent_def)

lemma silent_completion: "i \<noteq> j \<Longrightarrow> silent j (record_completion i m p u code d pt ct x c fb)"
  by (auto simp: silent_def record_completion_def)

lemma silent_guard: "i \<noteq> j \<Longrightarrow> silent j (map (\<lambda>l. Inc GuardrailEvents [i, l] 1) ls)"
  by (auto simp: silent_def)

lemma unaffected_metrics: "silent j cs \<Longrightarrow> unaffected j s (snd (emit_metrics ev cs s))"
proof -
  assume cs: "silent j cs"
  obtain ds where "prefix ds cs" "snd (emit (xe_sink ev) cs (metrics_of s)) = metrics_of s @ ds"
    using emit_prefix by blast
  moreover from this cs have "silent j ds" by (auto simp: silent_def dest: set_mono_prefix)
  ultimately show ?thesis
    by (simp add: emit_metrics_def unaffected_def case_prod_unfold Let_def total_silent)
qed

section \<open>The stages of a request\<close>

lemma unaffected_budget_stage: "tid t \<noteq> j \<Longrightarrow> unaffected j s (snd (budget_stage ae t s))"
  by (auto simp: budget_stage_def case_prod_unfold Let_def budget_others intro!: unaffected_budget)

lemma unaffected_token_stage: "tid t \<noteq> j \<Longrightarrow> unaffected j s (snd (token_stage ae t s))"
proof -
  assume t: "tid t \<noteq> j"
  define s1 where "s1 = s\<lparr>limiter_of := snd (check_tokens (ae_mono ae 1) (tid t) (tpm_limit t) (limiter_of s))\<rparr>"
  have "unaffected j s s1" using t by (auto simp: s1_def current_check_tokens intro!: unaffected_limiter)
  moreover have "unaffected j s1 (snd (budget_stage ae t s1))" using t by (rule unaffected_budget_stage)
  moreover have "snd (token_stage ae t s) \<in> {s1, snd (budget_stage ae t s1)}"
    by (simp add: token_stage_def s1_def case_prod_unfold Let_def)
  ultimately show ?thesis by (auto elim: unaffected_trans)
qed

lemma unaffected_request_stage: "tid t \<noteq> j \<Longrightarrow> unaffected j s (snd (request_stage ae t s))"
proof -
  assume t: "tid t \<noteq> j"
  define s1 where "s1 = s\<lparr>limiter_of := snd (check_request (ae_mono ae 0) (tid t) (rpm_limit t) (limiter_of s))\<rparr>"
  have "unaffected j s s1" using t by (auto simp: s1_def current_check_request intro!: unaffected_limiter)
  moreover have "unaffected j s1 (snd (token_stage ae t s1))" using t by (rule unaffected_token_stage)
  moreover have "snd (request_stage ae t s) \<in> {s1, snd (token_stage ae t s1)}"
    by (auto simp: request_stage_def s1_def case_prod_unfold Let_def split: sum.split)
  ultimately show ?thesis by (auto elim: unaffected_trans)
qed

lemma unaffected_record_stage:
  assumes "tid t \<noteq> j"
  shows "unaffected j s (snd (record_stage ev t body resp s))"
proof (cases "gateway resp")
  case None
  with assms show ?thesis
    by (auto simp: record_stage_def current_record_tokens intro!: unaffected_limiter)
next
  case (Some g)
  define s1 where "s1 = s\<lparr>limiter_of := record_tokens (xe_mono ev 0) (tid t) (total_tokens (resp_usage resp)) (limiter_of s)\<rparr>"
  define s2 where "s2 = (case xe_db_fails ev of Some e \<Rightarrow> s1
      | None \<Rightarrow> s1\<lparr>usage_of := insert_usage (usage_row ev t body resp g) (usage_of s1)\<rparr>)"
  define s3 where "s3 = (if amount (gm_cost_usd g) then s2\<lparr>budget_of := record_spend (xe_mono ev 1) (xe_mono ev 2) (tid t)
      (the (gm_cost_usd g)) (budget_of s2)\<rparr> else s2)"
  define cs where "cs = completion_metrics t body resp g"
  have "unaffected j s s1"
    using assms by (auto simp: s1_def current_record_tokens intro!: unaffected_limiter)
  also have "unaffected j s1 s2"
    using assms by (auto simp: s2_def usage_row_def intro!: unaffected_usage split: option.split)
  also have "unaffected j s2 s3"
    using assms by (auto simp: s3_def budget_others intro!: unaffected_budget)
  also have "unaffected j s3 (snd (emit_metrics ev cs s3))"
    unfolding cs_def completion_metrics_def by (intro unaffected_metrics silent_completion assms)
  also (unaffected_trans) have "unaffected j (snd (emit_metrics ev cs s3)) (snd (record_stage ev t body resp s))"
    unfolding record_stage_def Some option.case Let_def s1_def [symmetric] s2_def [symmetric] s3_def [symmetric]
      completion_metrics_def [symmetric] cs_def [symmetric]
    by (simp split: prod.split sum.split)
  finally show ?thesis .
qed

lemma unaffected_serve_hit: "tid t \<noteq> j \<Longrightarrow> unaffected j s (snd (serve_hit ev t body cached s))"
proof (cases "gateway (as_hit cached)")
  case (Some g)
  assume t: "tid t \<noteq> j"
  obtain r s' where e: "emit_metrics ev (record_completion (tid t) (model body) (gm_provider g) (gm_upstream_model g)
      ''200'' 0 0 0 (Some 0) CacheHit False) s = (r, s')" by fastforce
  have "unaffected j s s'" using unaffected_metrics [OF silent_completion [OF t]] e by (metis snd_conv)
  then show ?thesis by (simp add: serve_hit_def Some e Let_def split: sum.split)
qed (simp add: serve_hit_def)

lemma unaffected_upstream: "tid t \<noteq> j \<Longrightarrow> unaffected j s (snd (upstream_stage st ev t body s))"
proof -
  assume t: "tid t \<noteq> j"
  obtain res reg' where route: "route (xe_route ev) (fallback_enabled st) body (xe_start ev) (registry_of s)
      = (res, reg')" by fastforce
  show ?thesis
  proof (cases res)
    case (Inl err)
    then show ?thesis by (cases err) (simp_all add: upstream_stage_def route)
  next
    case (Inr resp)
    have "unaffected j s (stored st ev body resp reg' s)" by (simp add: unaffected_def)
    also have "unaffected j (stored st ev body resp reg' s)
        (snd (record_stage ev t body resp (stored st ev body resp reg' s)))" using t by (rule unaffected_record_stage)
    finally show ?thesis
      unfolding upstream_answered [OF route [unfolded Inr]]
      by (cases "record_stage ev t body resp (stored st ev body resp reg' s)") (simp split: sum.split)
  qed
qed

lemma unaffected_cached: "tid t \<noteq> j \<Longrightarrow> unaffected j s (snd (cached_stage st ev t body s))"
proof (cases "semantic_cache_enabled st")
  case True
  assume t: "tid t \<noteq> j"
  obtain r b where lk: "lookup_stage st ev body (get_cache st (cache_of s)) = (r, b)" by fastforce
  have up: "unaffected j s (snd (upstream_stage st ev t body (s\<lparr>cache_of := c\<rparr>)))" for c
    by (rule unaffected_trans [OF _ unaffected_upstream [OF t]]) simp
  have hit: "unaffected j s (snd (serve_hit ev t body v (s\<lparr>cache_of := c\<rparr>)))" for c v
    by (rule unaffected_trans [OF _ unaffected_serve_hit [OF t]]) simp
  show ?thesis
    using True by (simp add: cached_stage_def lk Let_def up hit split: sum.split option.split)
qed (simp add: cached_stage_def unaffected_upstream)

lemma unaffected_chat: "tid t \<noteq> j \<Longrightarrow> unaffected j s (snd (chat_completions st ev t body s))"
proof (cases "model_allowed t (model body)")
  case True
  assume t: "tid t \<noteq> j"
  obtain r s1 where e: "emit_metrics ev (guard_metrics st t body) s = (r, s1)" by fastforce
  have s1: "unaffected j s s1"
    using unaffected_metrics [OF silent_guard [OF t]] e unfolding guard_metrics_def by (metis snd_conv)
  moreover have "unaffected j s (snd (cached_stage st ev t (cleaned st body) s1))"
    by (rule unaffected_trans [OF s1 unaffected_cached [OF t]])
  ultimately show ?thesis
    using e True
    by (cases r) (simp_all add: chat_completions_def guard_metrics_def cleaned_def case_prod_unfold Let_def)
qed (simp add: chat_completions_def)

section \<open>Isolation\<close>

text \<open>The tenant a call is booked on, if it gets as far as one.\<close>

definition caller_of :: "settings \<Rightarrow> auth_env \<Rightarrow> string option \<Rightarrow> app_state \<Rightarrow> tenant option" where
  "caller_of st ae creds s =
     (if \<not> auth_enabled st then Some anonymous
      else if \<not> given creds then None
      else (case fst (get_keystore (ae_hash ae) (ae_environ ae) (keystore_of s)) of
              Inl e \<Rightarrow> None
            | Inr ks \<Rightarrow> map_option ktenant (lookup (ae_hash ae) (the creds) ks)))"

lemma unaffected_gate:
  assumes "\<forall>t. caller_of st ae creds s = Some t \<longrightarrow> tid t \<noteq> j" "get_current_tenant st ae creds s = (r, s')"
  shows "unaffected j s s' \<and> (\<forall>t. r = Inr t \<longrightarrow> tid t \<noteq> j)"
proof (cases "auth_enabled st \<and> given creds")
  case True
  obtain x kst where k: "get_keystore (ae_hash ae) (ae_environ ae) (keystore_of s) = (x, kst)" by fastforce
  show ?thesis
  proof (cases "case x of Inl e \<Rightarrow> None | Inr ks \<Rightarrow> lookup (ae_hash ae) (the creds) ks")
    case None
    with True k assms(2) show ?thesis
      by (auto simp: get_current_tenant_def split: sum.splits option.splits)
  next
    case (Some kr)
    then obtain ks where ks: "x = Inr ks" "lookup (ae_hash ae) (the creds) ks = Some kr" by (cases x) auto
    define s1 where "s1 = s\<lparr>keystore_of := kst\<rparr>"
    have t: "tid (ktenant kr) \<noteq> j" using assms(1) True k ks by (simp add: caller_of_def)
    have "request_stage ae (ktenant kr) s1 = (r, s')"
      using True k ks assms(2) by (simp add: get_current_tenant_def s1_def)
    moreover have "unaffected j s (snd (request_stage ae (ktenant kr) s1))"
      by (rule unaffected_trans [OF _ unaffected_request_stage [OF t]]) (simp add: s1_def)
    moreover have "\<forall>t. fst (request_stage ae (ktenant kr) s1) = Inr t \<longrightarrow> tid t \<noteq> j"
      using t by (auto simp: request_stage_Inr)
    ultimately show ?thesis by simp
  qed
qed (use assms in \<open>auto simp: get_current_tenant_def caller_of_def split: if_splits\<close>)

lemma verdict_unaffected: "unaffected (tid t) s s' \<Longrightarrow> verdict_on ae t s' = verdict_on ae t s"
proof -
  assume u: "unaffected (tid t) s s'"
  have "month_to_date_cost n (tid t) rows = month_to_date_cost n (tid t) (rows_of (tid t) rows)" for n rows
    by (simp add: month_to_date_cost_def rows_of_def conj_comms cong: conj_cong)
  then have "month_to_date_cost n (tid t) (usage_of s') = month_to_date_cost n (tid t) (usage_of s)" for n
    using u by (metis unaffected_def)
  then have "spent_now ae t s' = spent_now ae t s"
    using u by (simp add: spent_now_def mtd_get_def unaffected_def split: option.split)
  then show ?thesis
    using u by (simp add: verdict_on_def within_rpm_def within_tpm_def limiter_after_request_def
        current_check_request unaffected_def)
qed

text \<open>
  C6. Tenants are isolated. A completion request, whatever it ends in, is booked on the tenant of
  its key only: for every other tenant the limiter window, the usage rows, the cached spend and all
  counters of the metrics are exactly as before, and so is the verdict on its next request.
\<close>

theorem tenant_isolation:
  assumes "serve st (PostChat ae ev creds body) s = (r, s')"
    and "\<forall>t. caller_of st ae creds s = Some t \<longrightarrow> tid t \<noteq> j"
  shows "unaffected j s s' \<and> (\<forall>ae' t'. tid t' = j \<longrightarrow> verdict_on ae' t' s' = verdict_on ae' t' s)"
proof -
  obtain x s1 where g: "get_current_tenant st ae creds s = (x, s1)" by fastforce
  note gate = unaffected_gate [OF assms(2) g]
  have "unaffected j s s'"
  proof (cases x)
    case (Inl e)
    with assms(1) g gate show ?thesis by (simp add: post_chat_completions_def)
  next
    case (Inr t)
    then have "s' = snd (chat_completions st ev t body s1)"
      using assms(1) g by (cases "chat_completions st ev t body s1") (simp add: post_chat_completions_def)
    with gate Inr unaffected_chat [of t j s1 st ev body] show ?thesis by (auto elim: unaffected_trans)
  qed
  then show ?thesis using verdict_unaffected by blast
qed

theorem tenant_isolation_witness:
  "\<exists>r s'. serve demo_live (PostChat demo_seeded demo_app_env (Some ''key'') demo_req) demo_open_process = (r, s')
    \<and> unaffected ''other'' demo_open_process s'"
proof -
  obtain r s' where s: "serve demo_live (PostChat demo_seeded demo_app_env (Some ''key'') demo_req) demo_open_process = (r, s')"
    by fastforce
  have "caller_of demo_live demo_seeded (Some ''key'') demo_open_process = Some (ktenant demo_record)"
    by (simp add: caller_of_def demo_live(2) get_keystore_def demo_open_process_def lookup_def demo_seeded_def
        demo_auth_env_def demo_record_def new_record_def)
  moreover have "tid (ktenant demo_record) = ''demo''" by (simp add: demo_record_def new_record_def new_tenant_def)
  ultimately show ?thesis using tenant_isolation [OF s, of "''other''"] s by simp
qed

end
