(* ===== verification/Script.thy ===== *)
theory Script
  imports Json
begin

text \<open>
  What the bootstrap script \<open>RUNME.py\<close> is made of: programs that run external commands, ask the
  operator, read the clock, sleep, and keep a state file. A program maps a world to its outcome
  and the world afterwards, or to \<open>None\<close> when it does not return. What the outside answers (the
  commands, the operator, the clock) is the \<open>shell\<close>, a function of the number of the step. The
  world remembers every command that was run, with the environment it got. Output to the
  terminal is left out.
\<close>

section \<open>Worlds\<close>

record cmd_result =
  returncode :: int
  stdout :: string
  stderr :: string

datatype stdin = NoInput | Piped string

record command =
  argv :: "string list"
  cwd :: "string option"
  cmd_environ :: "(string, string) dict"
  cmd_stdin :: stdin

record phase_entry =
  phase_status :: string
  phase_timestamp :: string
  phase_data :: "(string, string) dict"

record boot_state =
  phases :: "(string, phase_entry) dict"
  boot_env :: "string option"
  outputs_of :: "(string, json) dict"
  last_run :: "string option"

record world =
  steps :: nat
  now :: seconds
  environ :: "(string, string) dict"
  state_file :: "boot_state option"
  env_file :: "string option"
  root_app :: "string option"
  history :: "command list"

text \<open>
  \<open>json.loads\<close>, base64 decoding, the printing of floats and collections, time stamps and fresh
  tokens are part of the shell, and so is the expansion of a \<open>re.sub\<close> replacement that contains a
  backslash (one that does not refer to the match); a command answers \<open>None\<close> when its program is not
  installed. The operator always answers (no interrupt).
\<close>

record shell =
  sh_answer :: "nat \<Rightarrow> string list \<Rightarrow> cmd_result option"
  sh_duration :: "nat \<Rightarrow> seconds"
  sh_confirm :: "nat \<Rightarrow> bool"
  sh_prompt :: "nat \<Rightarrow> string"
  sh_exists :: "string \<Rightarrow> bool"
  sh_loads :: "string \<Rightarrow> py_exc + json"
  sh_b64decode :: "string \<Rightarrow> py_exc + string"
  sh_frepr :: "real \<Rightarrow> string"
  sh_repr :: "json \<Rightarrow> string"
  sh_expand :: "string \<Rightarrow> py_exc + string"
  sh_time :: "nat \<Rightarrow> string"
  sh_token :: "nat \<Rightarrow> string"

section \<open>Programs\<close>

text \<open>\<open>typer.Exit\<close>, \<open>FileNotFoundError\<close> for a program that is not installed, other exceptions.\<close>

datatype halt = Exits int | MissingProgram | Throws py_exc

type_synonym 'a script = "world \<Rightarrow> ((halt + 'a) \<times> world) option"

definition return :: "'a \<Rightarrow> 'a script" where
  "return x w = Some (Inr x, w)"

definition stop :: "halt \<Rightarrow> 'a script" where
  "stop h w = Some (Inl h, w)"

definition andthen :: "'a script \<Rightarrow> ('a \<Rightarrow> 'b script) \<Rightarrow> 'b script" where
  "andthen m f w = (case m w of
       None \<Rightarrow> None
     | Some (Inl h, w') \<Rightarrow> Some (Inl h, w')
     | Some (Inr x, w') \<Rightarrow> f x w')"

definition look :: "(world \<Rightarrow> 'a) \<Rightarrow> 'a script" where
  "look f w = Some (Inr (f w), w)"

definition change :: "(world \<Rightarrow> world) \<Rightarrow> unit script" where
  "change f w = Some (Inr (), f w)"

definition of_result :: "py_exc + 'a \<Rightarrow> 'a script" where
  "of_result r = (case r of Inl e \<Rightarrow> stop (Throws e) | Inr x \<Rightarrow> return x)"

text \<open>\<open>try: m except FileNotFoundError: return d\<close>\<close>

definition or_missing :: "'a script \<Rightarrow> 'a \<Rightarrow> 'a script" where
  "or_missing m d w = (case m w of Some (Inl MissingProgram, w') \<Rightarrow> Some (Inr d, w') | r \<Rightarrow> r)"

text \<open>One step of the outside: something is read.\<close>

definition step :: "(nat \<Rightarrow> 'a) \<Rightarrow> 'a script" where
  "step f w = Some (Inr (f (steps w)), w\<lparr>steps := Suc (steps w)\<rparr>)"

definition sleep :: "seconds \<Rightarrow> world \<Rightarrow> world" where
  "sleep t w = w\<lparr>now := now w + t\<rparr>"

definition executed :: "shell \<Rightarrow> command \<Rightarrow> world \<Rightarrow> world" where
  "executed sh c w = w\<lparr>steps := Suc (steps w), now := now w + sh_duration sh (steps w), history := history w @ [c]\<rparr>"

definition subprocess_run :: "shell \<Rightarrow> string list \<Rightarrow> string option \<Rightarrow> stdin \<Rightarrow> cmd_result script" where
  "subprocess_run sh av dir inp w =
     (case sh_answer sh (steps w) av of
        None \<Rightarrow> Some (Inl MissingProgram, w\<lparr>steps := Suc (steps w)\<rparr>)
      | Some r \<Rightarrow> Some (Inr r, executed sh \<lparr>argv = av, cwd = dir, cmd_environ = environ w, cmd_stdin = inp\<rparr> w))"

definition run_command :: "shell \<Rightarrow> string list \<Rightarrow> string option \<Rightarrow> bool \<Rightarrow> bool \<Rightarrow> cmd_result script" where
  "run_command sh av dir capture chk =
     andthen (subprocess_run sh av dir NoInput) (\<lambda>r.
       if chk \<and> returncode r \<noteq> 0 then stop (Exits 1)
       else return (if capture then r else r\<lparr>stdout := [], stderr := []\<rparr>))"

definition check_tool :: "shell \<Rightarrow> string list \<Rightarrow> bool script" where
  "check_tool sh version_cmd =
     or_missing (andthen (subprocess_run sh version_cmd None NoInput) (\<lambda>r. return (returncode r = 0))) False"

text \<open>
  The waiting loops: as long as \<open>go\<close>, run the body, which returns a result or the seconds to
  sleep before the next round. The loop may go on for ever, hence a partial function.
\<close>

partial_function (option) poll_loop ::
  "(world \<Rightarrow> bool) \<Rightarrow> (seconds + 'a) script \<Rightarrow> 'a option script"
where
  "poll_loop go body w =
     (if go w
      then (case body w of
          None \<Rightarrow> None
        | Some r \<Rightarrow> (case fst r of
            Inl h \<Rightarrow> Some (Inl h, snd r)
          | Inr (Inr x) \<Rightarrow> Some (Inr (Some x), snd r)
          | Inr (Inl t) \<Rightarrow> poll_loop go body (sleep t (snd r))))
      else Some (Inr None, w))"

declare poll_loop.simps [code]

definition wait_for_condition :: "bool script \<Rightarrow> seconds \<Rightarrow> seconds \<Rightarrow> bool script" where
  "wait_for_condition check timeout interval =
     andthen (look now) (\<lambda>start.
     andthen (poll_loop (\<lambda>w. now w - start < timeout)
       (andthen check (\<lambda>b. return (if b then Inr () else Inl interval)))) (\<lambda>r.
     return (r \<noteq> None)))"

section \<open>AWS profile and region\<close>

text \<open>
  An argument of a command function that is also a typer option: passed, or left out by a direct
  call. A direct call that leaves it out gets the default in the signature, which is typer's
  \<open>OptionInfo\<close> object: a true value that is no string.
\<close>

datatype 'a arg = Passed 'a | OptionInfo

definition present :: "string option \<Rightarrow> bool" where
  "present s \<longleftrightarrow> s \<noteq> None \<and> s \<noteq> Some []"

definition set_env :: "string \<Rightarrow> string \<Rightarrow> world \<Rightarrow> world" where
  "set_env k v w = w\<lparr>environ := AList.update k v (environ w)\<rparr>"

definition pop_env :: "string \<Rightarrow> world \<Rightarrow> world" where
  "pop_env k w = w\<lparr>environ := AList.delete k (environ w)\<rparr>"

definition set_profile :: "string \<Rightarrow> world \<Rightarrow> world" where
  "set_profile p = pop_env ''AWS_SESSION_TOKEN'' \<circ> pop_env ''AWS_SECRET_ACCESS_KEY''
     \<circ> pop_env ''AWS_ACCESS_KEY_ID'' \<circ> set_env ''AWS_PROFILE'' p"

definition set_region :: "string \<Rightarrow> world \<Rightarrow> world" where
  "set_region r = set_env ''AWS_DEFAULT_REGION'' r \<circ> set_env ''AWS_REGION'' r"

text \<open>\<open>os.environ[k] = v\<close> raises \<open>TypeError\<close> for a value that is not a string.\<close>

definition apply_aws_profile :: "string option arg \<Rightarrow> string option arg \<Rightarrow> unit script" where
  "apply_aws_profile profile region =
     andthen (case profile of
         OptionInfo \<Rightarrow> stop (Throws TypeError)
       | Passed p \<Rightarrow> if present p then change (set_profile (the p)) else return ()) (\<lambda>u.
     case region of
         OptionInfo \<Rightarrow> stop (Throws TypeError)
       | Passed r \<Rightarrow> if present r then change (set_region (the r)) else return ())"

section \<open>The state file\<close>

definition fresh_state :: boot_state where
  "fresh_state = \<lparr>phases = [], boot_env = None, outputs_of = [], last_run = None\<rparr>"

definition load_state :: "world \<Rightarrow> boot_state" where
  "load_state w = (case state_file w of None \<Rightarrow> fresh_state | Some s \<Rightarrow> s)"

definition save_state :: "shell \<Rightarrow> boot_state \<Rightarrow> unit script" where
  "save_state sh s = andthen (step (sh_time sh)) (\<lambda>t.
     change (\<lambda>w. w\<lparr>state_file := Some (s\<lparr>last_run := Some t\<rparr>)\<rparr>))"

definition update_phase :: "shell \<Rightarrow> string \<Rightarrow> string \<Rightarrow> (string, string) dict \<Rightarrow> unit script" where
  "update_phase sh phase st d =
     andthen (look load_state) (\<lambda>s.
     andthen (step (sh_time sh)) (\<lambda>t.
     save_state sh (s\<lparr>phases := AList.update phase
       \<lparr>phase_status = st, phase_timestamp = t, phase_data = d\<rparr> (phases s)\<rparr>)))"

definition get_phase_status :: "string \<Rightarrow> world \<Rightarrow> string option" where
  "get_phase_status phase w = map_option phase_status (map_of (phases (load_state w)) phase)"

end
