(* ===== verification/Bootstrap.thy ===== *)
theory Bootstrap
  imports Script Regex Json_Dump
begin

text \<open>
  The phases of \<open>RUNME.py\<close> as programs of \<open>Script\<close>: every command with its arguments and working
  directory, every branch on its result, every change of the state file, the \<open>.env\<close> file and the
  ArgoCD application, in the order of the code. Paths are relative to the project root.
\<close>

section \<open>Helpers\<close>

datatype environment = Dev | Prod

fun env_value :: "environment \<Rightarrow> string" where
  "env_value Dev = ''dev''"
| "env_value Prod = ''prod''"

definition contains :: "string \<Rightarrow> string \<Rightarrow> bool" where
  "contains part s \<longleftrightarrow> sublist part s"

fun split_char :: "char \<Rightarrow> string \<Rightarrow> string list" where
  "split_char c [] = [[]]"
| "split_char c (x # xs) =
     (if x = c then [] # split_char c xs
      else (case split_char c xs of w # ws \<Rightarrow> (x # w) # ws))"

text \<open>Never empty, as in Python: the empty string splits into one empty piece.\<close>

lemma split_char_nonempty [simp]: "split_char c s \<noteq> []"
  by (induction s) (auto split: list.split)

declare split_char.simps [simp del]

text \<open>\<open>d.get(k, dflt)\<close> of the terraform outputs, and a value that is used as text.\<close>

definition outval :: "(string, json) dict \<Rightarrow> string \<Rightarrow> json \<Rightarrow> json" where
  "outval d k dflt = (case map_of d k of None \<Rightarrow> dflt | Some v \<Rightarrow> v)"

fun as_text :: "json \<Rightarrow> py_exc + string" where
  "as_text (JStr s) = Inr s"
| "as_text j = Inl TypeError"

text \<open>\<open>f"{value}"\<close>\<close>

fun py_str :: "shell \<Rightarrow> json \<Rightarrow> string" where
  "py_str sh (JStr s) = s"
| "py_str sh (JInt i) = show_int i"
| "py_str sh (JBool b) = (if b then ''True'' else ''False'')"
| "py_str sh JNull = ''None''"
| "py_str sh (JFloat x) = sh_frepr sh x"
| "py_str sh j = sh_repr sh j"

definition newline_char :: char where
  "newline_char = char_of (10 :: nat)"

section \<open>Preflight\<close>

definition check_aws_credentials :: "shell \<Rightarrow> bool script" where
  "check_aws_credentials sh =
     andthen (run_command sh [''aws'', ''sts'', ''get-caller-identity'', ''--output'', ''json''] None True False) (\<lambda>r.
     if returncode r = 0
     then andthen (of_result (sh_loads sh (stdout r))) (\<lambda>j.
          andthen (of_result (res_bind (jget j ''Arn'' (JStr ''Unknown'')) as_text)) (\<lambda>arn. return True))
     else return False)"

definition check_aws_region :: "shell \<Rightarrow> bool script" where
  "check_aws_region sh =
     andthen (run_command sh [''aws'', ''configure'', ''get'', ''region''] None True False) (\<lambda>r.
     if returncode r = 0 \<and> strip (stdout r) \<noteq> [] then return True
     else look (\<lambda>w. present (map_of (environ w) ''AWS_REGION'') \<or> present (map_of (environ w) ''AWS_DEFAULT_REGION'')))"

definition tools :: "(string \<times> string list) list" where
  "tools = [(''terraform'', [''terraform'', ''version'']), (''aws'', [''aws'', ''--version'']),
     (''kubectl'', [''kubectl'', ''version'', ''--client'']), (''docker'', [''docker'', ''--version'']),
     (''git'', [''git'', ''--version''])]"

text \<open>The loop over the tools: are all there that have to be?\<close>

fun check_tools :: "shell \<Rightarrow> bool \<Rightarrow> (string \<times> string list) list \<Rightarrow> bool script" where
  "check_tools sh skip_docker [] = return True"
| "check_tools sh skip_docker ((tool, cmd) # ts) =
     andthen (check_tool sh cmd) (\<lambda>ok.
     andthen (check_tools sh skip_docker ts) (\<lambda>rest.
     return ((ok \<or> tool = ''docker'' \<and> skip_docker) \<and> rest)))"

definition needed_files :: "string list" where
  "needed_files = [''terraform/main-caller.tf'', ''terraform/variables.tf'', ''terraform/versions.tf'',
     ''app/backend/Dockerfile'', ''app/admin-ui/Dockerfile'']"

definition preflight :: "shell \<Rightarrow> string option arg \<Rightarrow> string option arg \<Rightarrow> bool \<Rightarrow> bool script" where
  "preflight sh profile region skip_docker =
     andthen (apply_aws_profile profile region) (\<lambda>u.
     andthen (check_tools sh skip_docker tools) (\<lambda>tools_ok.
     andthen (check_aws_credentials sh) (\<lambda>aws_ok.
     andthen (check_aws_region sh) (\<lambda>region_ok.
     let passed = (tools_ok \<and> aws_ok \<and> region_ok \<and> list_all (sh_exists sh) needed_files)
     in andthen (update_phase sh ''preflight'' (if passed then ''completed'' else ''failed'') []) (\<lambda>u.
        return passed)))))"

section \<open>Terraform\<close>

fun output_values :: "(string \<times> json) list \<Rightarrow> py_exc + (string, json) dict" where
  "output_values [] = Inr []"
| "output_values ((k, v) # d) =
     res_bind (jget v ''value'' JNull) (\<lambda>x. res_bind (output_values d) (\<lambda>d'. Inr ((k, x) # d')))"

definition get_terraform_outputs :: "shell \<Rightarrow> (string, json) dict script" where
  "get_terraform_outputs sh =
     andthen (run_command sh [''terraform'', ''output'', ''-json''] (Some ''terraform'') True False) (\<lambda>r.
     if returncode r = 0
     then andthen (of_result (sh_loads sh (stdout r))) (\<lambda>j.
       of_result (case j of JObj d \<Rightarrow> output_values d | _ \<Rightarrow> Inl AttributeError))
     else return [])"

definition env_lines :: "shell \<Rightarrow> (string, json) dict \<Rightarrow> string \<Rightarrow> string \<Rightarrow> string list" where
  "env_lines sh outs env stamp =
     (let v = (\<lambda>k dflt. py_str sh (outval outs k (JStr dflt))) in
     [''# LLM Gateway - Environment Configuration'',
      ''# Generated by RUNME.py on '' @ stamp,
      ''# Environment: '' @ env,
      [],
      ''# AWS Configuration'',
      ''AWS_REGION='' @ v ''region'' ''us-east-1'',
      [],
      ''# EKS Cluster'',
      ''EKS_CLUSTER_NAME='' @ v ''cluster_name'' (''llm-gateway-'' @ env),
      ''EKS_CLUSTER_ENDPOINT='' @ v ''cluster_endpoint'' [],
      [],
      ''# ECR Repositories'',
      ''ECR_BACKEND_URI='' @ v ''ecr_backend_url'' [],
      ''ECR_ADMIN_UI_URI='' @ v ''ecr_admin_ui_url'' [],
      [],
      ''# RDS Database'',
      ''RDS_ENDPOINT='' @ v ''rds_endpoint'' [],
      ''RDS_PORT='' @ v ''rds_port'' ''5432'',
      ''RDS_DATABASE='' @ v ''rds_database'' ''gateway'',
      [],
      ''# Domain'',
      ''DOMAIN='' @ v ''domain'' ''codeguardian.eric-n.com'',
      [],
      ''# ArgoCD'',
      ''ARGOCD_NAMESPACE=argocd'',
      [],
      ''# Environment'',
      ''ENVIRONMENT='' @ env])"

definition write_env_file :: "shell \<Rightarrow> (string, json) dict \<Rightarrow> string \<Rightarrow> unit script" where
  "write_env_file sh outs env = andthen (step (sh_time sh)) (\<lambda>stamp.
     change (\<lambda>w. w\<lparr>env_file := Some (concat (map (\<lambda>l. l @ [newline_char]) (env_lines sh outs env stamp)))\<rparr>))"

fun arg_true :: "bool arg \<Rightarrow> bool" where
  "arg_true (Passed b) = b"
| "arg_true OptionInfo = True"

definition terraform ::
  "shell \<Rightarrow> environment \<Rightarrow> bool arg \<Rightarrow> bool \<Rightarrow> bool \<Rightarrow> string option arg \<Rightarrow> string option arg \<Rightarrow> bool script"
where
  "terraform sh env plan_only auto_approve destroy_flag profile region =
     andthen (apply_aws_profile profile region) (\<lambda>u.
     andthen (update_phase sh ''terraform'' ''in_progress'' []) (\<lambda>u.
     andthen (run_command sh [''terraform'', ''init'', ''-upgrade''] (Some ''terraform'') False True) (\<lambda>r.
     if \<not> sh_exists sh (''terraform/environments/'' @ env_value env @ ''.tfvars'')
     then andthen (update_phase sh ''terraform'' ''failed'' []) (\<lambda>u. return False)
     else
     andthen (run_command sh ([''terraform'', ''plan'', ''-var-file=environments/'' @ env_value env @ ''.tfvars'',
         ''-out=tfplan''] @ (if destroy_flag then [''-destroy''] else [])) (Some ''terraform'') False True) (\<lambda>r.
     if arg_true plan_only then return True
     else
     andthen (if auto_approve then return True else step (sh_confirm sh)) (\<lambda>confirmed.
     if \<not> confirmed then return False
     else
     andthen (run_command sh [''terraform'', ''apply'', ''tfplan''] (Some ''terraform'') False True) (\<lambda>r.
     if destroy_flag
     then andthen (update_phase sh ''terraform'' ''not_started'' []) (\<lambda>u.
          andthen (change (\<lambda>w. w\<lparr>env_file := None\<rparr>)) (\<lambda>u. return True))
     else
     andthen (get_terraform_outputs sh) (\<lambda>outs.
     andthen (if outs = [] then return ()
              else andthen (write_env_file sh outs (env_value env)) (\<lambda>u.
                   andthen (look load_state) (\<lambda>s.
                   save_state sh (s\<lparr>outputs_of := outs, boot_env := Some (env_value env)\<rparr>)))) (\<lambda>u.
     andthen (update_phase sh ''terraform'' ''completed'' [(''env'', env_value env)]) (\<lambda>u.
     return True)))))))))"

section \<open>Kubeconfig\<close>

definition kubeconfig ::
  "shell \<Rightarrow> environment option \<Rightarrow> string option arg \<Rightarrow> string option arg \<Rightarrow> bool script"
where
  "kubeconfig sh env profile region =
     andthen (apply_aws_profile profile region) (\<lambda>u.
     andthen (look load_state) (\<lambda>s.
     andthen (if truthy (outval (outputs_of s) ''cluster_name'' JNull) then return (outputs_of s)
              else get_terraform_outputs sh) (\<lambda>outs.
     andthen (of_result (as_text (let c = outval outs ''cluster_name'' JNull in
         if truthy c then c
         else JStr (''llm-gateway-'' @ (case env of Some e \<Rightarrow> env_value e
           | None \<Rightarrow> (case boot_env s of None \<Rightarrow> ''None'' | Some e \<Rightarrow> e)))))) (\<lambda>cluster.
     andthen (of_result (as_text (outval outs ''region'' (JStr ''us-east-1'')))) (\<lambda>rg.
     andthen (run_command sh [''aws'', ''eks'', ''update-kubeconfig'', ''--region'', rg, ''--name'', cluster]
         None True False) (\<lambda>r.
     if returncode r \<noteq> 0 then return False
     else
     andthen (run_command sh [''kubectl'', ''get'', ''nodes'', ''-o'', ''wide''] None True False) (\<lambda>r.
     if returncode r = 0
     then andthen (update_phase sh ''kubeconfig'' ''completed'' []) (\<lambda>u. return True)
     else andthen (update_phase sh ''kubeconfig'' ''failed'' []) (\<lambda>u. return False))))))))"

section \<open>Images\<close>

definition docker_build :: "shell \<Rightarrow> string \<Rightarrow> string \<Rightarrow> string \<Rightarrow> cmd_result script" where
  "docker_build sh uri tag dir =
     run_command sh [''docker'', ''build'', ''-t'', uri @ '':'' @ tag, ''-t'', uri @ '':latest'', ''.''] (Some dir) False True"

definition docker_push :: "shell \<Rightarrow> string \<Rightarrow> string \<Rightarrow> cmd_result script" where
  "docker_push sh uri tag = run_command sh [''docker'', ''push'', uri @ '':'' @ tag] None False True"

text \<open>Without a tag, the short commit hash; the fallback of the code cannot be reached, as the
  command is checked.\<close>

definition image_tag :: "shell \<Rightarrow> string option \<Rightarrow> string script" where
  "image_tag sh tag =
     (if present tag then return (the tag)
      else andthen (run_command sh [''git'', ''rev-parse'', ''--short'', ''HEAD''] None True True) (\<lambda>r.
           return (if returncode r = 0 then strip (stdout r) else ''latest'')))"

definition ecr_login :: "shell \<Rightarrow> string \<Rightarrow> string \<Rightarrow> bool script" where
  "ecr_login sh backend_uri region =
     andthen (run_command sh [''aws'', ''ecr'', ''get-login-password'', ''--region'', region] None True True) (\<lambda>login.
     andthen (subprocess_run sh [''docker'', ''login'', ''--username'', ''AWS'', ''--password-stdin'',
         takeWhile (\<lambda>c. c \<noteq> CHR ''.'') backend_uri @ ''.dkr.ecr.'' @ region @ ''.amazonaws.com'']
         None (Piped (stdout login))) (\<lambda>r.
     return (returncode r = 0)))"

definition images ::
  "shell \<Rightarrow> bool \<Rightarrow> string option \<Rightarrow> string option arg \<Rightarrow> string option arg \<Rightarrow> bool script"
where
  "images sh push tag profile region =
     andthen (apply_aws_profile profile region) (\<lambda>u.
     andthen (update_phase sh ''images'' ''in_progress'' []) (\<lambda>u.
     andthen (look load_state) (\<lambda>s.
     andthen (if truthy (outval (outputs_of s) ''ecr_backend_url'' JNull) then return (outputs_of s)
              else get_terraform_outputs sh) (\<lambda>outs.
     let backend = outval outs ''ecr_backend_url'' (JStr []); ui = outval outs ''ecr_admin_ui_url'' (JStr [])
     in if \<not> truthy backend \<or> \<not> truthy ui
     then andthen (update_phase sh ''images'' ''failed'' []) (\<lambda>u. return False)
     else
     andthen (image_tag sh tag) (\<lambda>t.
     andthen (case backend of JStr b \<Rightarrow> return b | _ \<Rightarrow> stop (Throws AttributeError)) (\<lambda>b.
     andthen (of_result (as_text (outval outs ''region'' (JStr ''us-east-1'')))) (\<lambda>rg.
     andthen (ecr_login sh b rg) (\<lambda>ok.
     if \<not> ok then return False
     else
     andthen (docker_build sh b t ''app/backend'') (\<lambda>r.
     andthen (docker_build sh (py_str sh ui) t ''app/admin-ui'') (\<lambda>r.
     andthen (if push
       then andthen (docker_push sh b t) (\<lambda>r.
            andthen (docker_push sh b ''latest'') (\<lambda>r.
            andthen (docker_push sh (py_str sh ui) t) (\<lambda>r.
            andthen (docker_push sh (py_str sh ui) ''latest'') (\<lambda>r. return ()))))
       else return ()) (\<lambda>u.
     andthen (update_phase sh ''images'' ''completed'' [(''tag'', t)]) (\<lambda>u.
     return True))))))))))))"

end
