(* ===== verification/Deploy.thy ===== *)
theory Deploy
  imports Bootstrap
begin

text \<open>
  The later phases of \<open>RUNME.py\<close>: ArgoCD deployment, reconciliation, validation, the display
  commands, destruction, and \<open>all\<close>, which runs the phases in order.
\<close>

section \<open>ArgoCD\<close>

definition GITHUB_REPO_URL :: string where
  "GITHUB_REPO_URL = ''https://github.com/c0debyeric/llm-inference-platform''"

fun literally :: "string \<Rightarrow> regex" where
  "literally [] = Times 0 0 WordB"
| "literally [c] = Chr (\<lambda>x. x = c)"
| "literally (c # cs) = Seq (Chr (\<lambda>x. x = c)) (literally cs)"

definition repo_url_pattern :: regex where
  "repo_url_pattern =
     Seq (literally ''repoURL:'') (Seq (Many True is_space) (Seq (literally ''https://github.com/'')
       (Seq (Chr (\<lambda>c. \<not> is_space c)) (Many True (\<lambda>c. \<not> is_space c)))))"

definition backslash :: char where
  "backslash = char_of (92 :: nat)"

definition update_argocd_repo_url :: "shell \<Rightarrow> string \<Rightarrow> unit script" where
  "update_argocd_repo_url sh repo_url =
     andthen (look root_app) (\<lambda>app.
     case app of
       None \<Rightarrow> return ()
     | Some content \<Rightarrow>
         andthen (let repl = ''repoURL: '' @ repo_url
           in if backslash \<in> set repl then of_result (sh_expand sh repl) else return repl) (\<lambda>repl.
         let new = sub repo_url_pattern repl content
         in if new \<noteq> content then change (\<lambda>w. w\<lparr>root_app := Some new\<rparr>) else return ()))"

definition wait_for_argocd :: "shell \<Rightarrow> bool script" where
  "wait_for_argocd sh =
     wait_for_condition
       (andthen (run_command sh [''kubectl'', ''get'', ''pods'', ''-n'', ''argocd'', ''-l'',
            ''app.kubernetes.io/name=argocd-server'', ''-o'', ''jsonpath={.items[0].status.phase}''] None True False)
          (\<lambda>r. return (returncode r = 0 \<and> contains ''Running'' (stdout r)))) 300 10"

definition get_argocd_password :: "shell \<Rightarrow> string script" where
  "get_argocd_password sh =
     andthen (run_command sh [''kubectl'', ''-n'', ''argocd'', ''get'', ''secret'', ''argocd-initial-admin-secret'',
       ''-o'', ''jsonpath={.data.password}''] None True False) (\<lambda>r.
     if returncode r = 0 then of_result (sh_b64decode sh (stdout r)) else return [])"

definition repo_token :: "shell \<Rightarrow> string script" where
  "repo_token sh =
     andthen (run_command sh [''gh'', ''auth'', ''token''] None True False) (\<lambda>r.
     if returncode r = 0 \<and> strip (stdout r) \<noteq> [] then return (strip (stdout r))
     else step (sh_prompt sh))"

definition create_argocd_repo_secret :: "shell \<Rightarrow> string \<Rightarrow> unit script" where
  "create_argocd_repo_secret sh repo_url =
     andthen (run_command sh [''kubectl'', ''get'', ''secret'', ''github-repo-creds'', ''-n'', ''argocd''] None True False) (\<lambda>r.
     if returncode r = 0 then return ()
     else
     andthen (repo_token sh) (\<lambda>token.
     if token = [] then return ()
     else
     andthen (run_command sh [''kubectl'', ''create'', ''secret'', ''generic'', ''github-repo-creds'', ''-n'', ''argocd'',
       ''--from-literal=type=git'', ''--from-literal=url='' @ repo_url, ''--from-literal=username=git'',
       ''--from-literal=password='' @ token] None True True) (\<lambda>r.
     andthen (run_command sh [''kubectl'', ''label'', ''secret'', ''github-repo-creds'', ''-n'', ''argocd'',
       ''argocd.argoproj.io/secret-type=repository''] None True True) (\<lambda>r. return ()))))"

definition apply_root_app :: "shell \<Rightarrow> unit script" where
  "apply_root_app sh =
     andthen (look root_app) (\<lambda>app.
     if app \<noteq> None
     then andthen (run_command sh [''kubectl'', ''apply'', ''-f'', ''argocd/root-app.yaml''] None False True) (\<lambda>r. return ())
     else return ())"

text \<open>The address and the password are only shown.\<close>

definition deploy :: "shell \<Rightarrow> string option \<Rightarrow> bool \<Rightarrow> bool script" where
  "deploy sh repo_url skip_argocd_wait =
     andthen (update_phase sh ''deploy'' ''in_progress'' []) (\<lambda>u.
     andthen (let url = (if present repo_url then the repo_url else GITHUB_REPO_URL)
       in if contains ''YOUR_USERNAME'' url then step (sh_prompt sh) else return url) (\<lambda>url.
     andthen (update_argocd_repo_url sh url) (\<lambda>u.
     andthen (if skip_argocd_wait then return True else wait_for_argocd sh) (\<lambda>ready.
     if \<not> ready
     then andthen (update_phase sh ''deploy'' ''failed'' []) (\<lambda>u. return False)
     else
     andthen (create_argocd_repo_secret sh url) (\<lambda>u.
     andthen (get_argocd_password sh) (\<lambda>password.
     andthen (apply_root_app sh) (\<lambda>u.
     andthen (run_command sh [''kubectl'', ''get'', ''svc'', ''-n'', ''argocd'', ''argocd-server'', ''-o'',
       ''jsonpath={.status.loadBalancer.ingress[0].hostname}''] None True False) (\<lambda>r.
     andthen (update_phase sh ''deploy'' ''completed'' []) (\<lambda>u.
     return True)))))))))"

section \<open>Reconciliation\<close>

text \<open>The ARN of the secret RDS keeps the master password in, if there is one.\<close>

definition master_secret_arn :: "shell \<Rightarrow> string option script" where
  "master_secret_arn sh =
     andthen (run_command sh [''aws'', ''rds'', ''describe-db-instances'', ''--db-instance-identifier'', ''llm-gateway-dev-db'',
       ''--query'', ''DBInstances[0].MasterUserSecret.SecretArn'', ''--output'', ''text''] None True False) (\<lambda>r.
     let arn = strip (stdout r)
     in return (if returncode r \<noteq> 0 \<or> arn = [] \<or> arn = ''None'' then None else Some arn))"

definition get_secret :: "shell \<Rightarrow> string \<Rightarrow> cmd_result script" where
  "get_secret sh secret =
     run_command sh [''aws'', ''secretsmanager'', ''get-secret-value'', ''--secret-id'', secret,
       ''--query'', ''SecretString'', ''--output'', ''text''] None True False"

definition create_secret :: "shell \<Rightarrow> string \<Rightarrow> string \<Rightarrow> unit script" where
  "create_secret sh secret payload =
     andthen (run_command sh [''aws'', ''secretsmanager'', ''create-secret'', ''--name'', secret,
       ''--secret-string'', payload] None True False) (\<lambda>r. return ())"

definition db_secret_name :: string where
  "db_secret_name = ''llm-gateway/db-credentials''"

text \<open>
  \<open>rds_payload["password"]\<close>: \<open>None\<close> where the handler for malformed JSON and missing keys
  returns; a payload that is no object raises \<open>TypeError\<close>, which it does not handle.
\<close>

definition payload_password :: "py_exc + json \<Rightarrow> json option script" where
  "payload_password j = (case j of
       Inl e \<Rightarrow> return None
     | Inr (JObj d) \<Rightarrow> return (map_of d ''password'')
     | Inr _ \<Rightarrow> stop (Throws TypeError))"

definition with_password :: "json \<Rightarrow> json \<Rightarrow> json script" where
  "with_password existing pw = (case existing of
       JObj d \<Rightarrow> return (JObj (AList.update ''password'' pw d))
     | _ \<Rightarrow> stop (Throws TypeError))"

text \<open>The first step; the result tells whether \<open>reconcile\<close> goes on.\<close>

definition sync_db_secret :: "shell \<Rightarrow> string \<Rightarrow> bool script" where
  "sync_db_secret sh master_arn =
     andthen (get_secret sh master_arn) (\<lambda>pw_res.
     if returncode pw_res \<noteq> 0 then return False
     else
     andthen (payload_password (sh_loads sh (stdout pw_res))) (\<lambda>pw.
     case pw of
       None \<Rightarrow> return False
     | Some master_pw \<Rightarrow>
         andthen (get_secret sh db_secret_name) (\<lambda>cur.
         andthen (with_password (if returncode cur \<noteq> 0 then JObj []
             else (case sh_loads sh (stdout cur) of Inl e \<Rightarrow> JObj [] | Inr j \<Rightarrow> j)) master_pw) (\<lambda>existing.
         let new_payload = json_dumps (sh_frepr sh) existing in
         andthen (run_command sh [''aws'', ''secretsmanager'', ''put-secret-value'', ''--secret-id'', db_secret_name,
             ''--secret-string'', new_payload] None True False) (\<lambda>upd.
         andthen (if returncode upd \<noteq> 0 then create_secret sh db_secret_name new_payload else return ()) (\<lambda>u.
         return True))))))"

definition force_refresh :: "shell \<Rightarrow> string \<Rightarrow> unit script" where
  "force_refresh sh namespace =
     andthen (step (sh_time sh)) (\<lambda>ts.
     andthen (run_command sh [''kubectl'', ''annotate'', ''externalsecret'', ''-n'', namespace, ''db-credentials'',
       ''force-sync='' @ ts, ''--overwrite''] None True False) (\<lambda>r. return ()))"

definition ensure_admin_key :: "shell \<Rightarrow> unit script" where
  "ensure_admin_key sh =
     andthen (run_command sh [''aws'', ''secretsmanager'', ''describe-secret'', ''--secret-id'',
       ''llm-gateway/admin-api-key''] None True False) (\<lambda>api_check.
     if returncode api_check \<noteq> 0
     then andthen (step (sh_token sh)) (\<lambda>new_key.
          create_secret sh ''llm-gateway/admin-api-key''
            (json_dumps (sh_frepr sh) (JObj [(''api_key'', JStr new_key)])))
     else return ())"

definition restart_backend :: "shell \<Rightarrow> string \<Rightarrow> unit script" where
  "restart_backend sh namespace =
     andthen (run_command sh [''kubectl'', ''rollout'', ''restart'', ''deployment'', ''-n'', namespace, ''backend'']
       None True False) (\<lambda>r. return ())"

text \<open>A script that creates the database when it is missing is piped into a backend pod.\<close>

definition ensure_db_script :: string where
  "ensure_db_script = concat (map (\<lambda>l. l @ [newline_char])
     [''import asyncio,json,os,urllib.parse,asyncpg'',
      ''host=os.environ['DB_HOST']; port=int(os.environ.get('DB_PORT','5432'))'',
      ''user=os.environ['DB_USERNAME']; pw=os.environ['DB_PASSWORD']; dbname=os.environ.get('DB_NAME','gateway')'',
      ''async def main():'',
      ''    conn=await asyncpg.connect(host=host,port=port,user=user,password=pw,database='postgres',ssl='require')'',
      ''    exists=await conn.fetchval('SELECT 1 FROM pg_database WHERE datname=$1',dbname)'',
      ''    if not exists:'',
      ''        await conn.execute(f'CREATE DATABASE \"{dbname}\"')'',
      ''        print('created')'',
      ''    else:'',
      ''        print('exists')'',
      ''    await conn.close()'',
      ''asyncio.run(main())''])"

definition ensure_db :: "shell \<Rightarrow> string \<Rightarrow> unit script" where
  "ensure_db sh namespace =
     andthen (run_command sh [''kubectl'', ''get'', ''pod'', ''-n'', namespace, ''-l'', ''app=backend'', ''-o'',
       ''jsonpath={.items[0].metadata.name}''] None True False) (\<lambda>pod.
     if returncode pod = 0 \<and> strip (stdout pod) \<noteq> []
     then andthen (subprocess_run sh [''kubectl'', ''exec'', ''-n'', namespace, strip (stdout pod), ''-i'', ''--'',
            ''python'', ''-''] None (Piped ensure_db_script)) (\<lambda>r. return ())
     else return ())"

definition app_entries :: "string \<Rightarrow> string list" where
  "app_entries out = filter (\<lambda>e. strip e \<noteq> []) (split_char (CHR '';'') out)"

definition converged :: "string \<Rightarrow> bool" where
  "converged out \<longleftrightarrow> app_entries out \<noteq> [] \<and> list_all (contains ''Synced,Healthy'') (app_entries out)"

definition wait_for_apps :: "shell \<Rightarrow> seconds \<Rightarrow> bool script" where
  "wait_for_apps sh timeout =
     andthen (look now) (\<lambda>start.
     andthen (poll_loop (\<lambda>w. now w < start + timeout)
       (andthen (run_command sh [''kubectl'', ''get'', ''applications.argoproj.io'', ''-n'', ''argocd'', ''-o'',
           ''jsonpath={range .items[*]}{.metadata.name}={.status.sync.status},{.status.health.status};{end}'']
           None True False) (\<lambda>r.
         return (if returncode r \<noteq> 0 then Inl 10
           else if converged (stdout r) then Inr () else Inl 15)))) (\<lambda>r.
     return (r \<noteq> None)))"

definition reconcile ::
  "shell \<Rightarrow> string \<Rightarrow> string option arg \<Rightarrow> string option arg \<Rightarrow> seconds \<Rightarrow> bool \<Rightarrow> bool script"
where
  "reconcile sh namespace region profile timeout skip_db_create =
     andthen (apply_aws_profile profile region) (\<lambda>u.
     andthen (master_secret_arn sh) (\<lambda>arn.
     andthen (case arn of None \<Rightarrow> return True | Some a \<Rightarrow> sync_db_secret sh a) (\<lambda>go_on.
     if \<not> go_on then return False
     else
     andthen (force_refresh sh namespace) (\<lambda>u.
     andthen (ensure_admin_key sh) (\<lambda>u.
     andthen (restart_backend sh namespace) (\<lambda>u.
     andthen (if skip_db_create then return () else ensure_db sh namespace) (\<lambda>u.
     wait_for_apps sh timeout)))))))"

section \<open>Validation\<close>

definition probe :: "shell \<Rightarrow> string list \<Rightarrow> (string \<Rightarrow> bool) \<Rightarrow> bool script" where
  "probe sh av ok = andthen (run_command sh av None True False) (\<lambda>r. return (returncode r = 0 \<and> ok (stdout r)))"

definition validate :: "shell \<Rightarrow> bool script" where
  "validate sh =
     andthen (probe sh [''kubectl'', ''get'', ''nodes'', ''-o'',
       ''jsonpath={.items[*].status.conditions[?(@.type=='Ready')].status}''] (contains ''True'')) (\<lambda>nodes_ready.
     andthen (probe sh [''kubectl'', ''get'', ''pods'', ''-n'', ''argocd'', ''-l'',
       ''app.kubernetes.io/part-of=argocd'', ''--no-headers'']
       (\<lambda>out. 0 < length (split_char newline_char (strip out)))) (\<lambda>argocd_ok.
     andthen (probe sh [''kubectl'', ''get'', ''namespace'', ''monitoring'', ''-o'', ''name''] (\<lambda>out. True)) (\<lambda>monitoring_ok.
     andthen (probe sh [''kubectl'', ''get'', ''namespace'', ''codeguardian'', ''-o'', ''name''] (\<lambda>out. True)) (\<lambda>app_ns_ok.
     andthen (if app_ns_ok
       then probe sh [''kubectl'', ''get'', ''pods'', ''-n'', ''codeguardian'', ''--no-headers''] (contains ''Running'')
       else return True) (\<lambda>app_pods_ok.
     let all_ok = (nodes_ready \<and> argocd_ok \<and> monitoring_ok \<and> app_ns_ok \<and> app_pods_ok)
     in andthen (update_phase sh ''validate'' (if all_ok then ''completed'' else ''failed'') []) (\<lambda>u.
        return all_ok))))))"

section \<open>Status and outputs\<close>

text \<open>The rows of the status table (phase, status, time stamp) and the outputs below it.\<close>

definition status_label :: "string option \<Rightarrow> string" where
  "status_label st =
     (if st = Some ''completed'' then ''Completed''
      else if st = Some ''in_progress'' then ''In Progress''
      else if st = Some ''failed'' then ''Failed'' else ''Not Started'')"

definition status_rows :: "world \<Rightarrow> (string \<times> string \<times> string) list" where
  "status_rows w =
     map (\<lambda>phase. (phase, status_label (get_phase_status phase w),
         case map_of (phases (load_state w)) phase of
           None \<Rightarrow> ''-'' | Some e \<Rightarrow> if phase_timestamp e \<noteq> ''-'' then take 19 (phase_timestamp e) else ''-''))
       [''preflight'', ''terraform'', ''kubeconfig'', ''images'', ''deploy'', ''validate'']"

definition status_outputs :: "world \<Rightarrow> (string, json) dict" where
  "status_outputs w =
     filter (\<lambda>(key, value). truthy value \<and> \<not> suffix ''_arn'' key) (outputs_of (load_state w))"

datatype shown = AsJson "(string, json) dict" | Table "(string \<times> string) list" | NoOutputs

definition outputs_row :: "shell \<Rightarrow> string \<times> json \<Rightarrow> string \<times> string" where
  "outputs_row sh = (\<lambda>(key, value). let s = py_str sh value
     in (key, if 60 < length s then take 57 s @ ''...'' else s))"

definition outputs :: "shell \<Rightarrow> bool \<Rightarrow> bool \<Rightarrow> shown script" where
  "outputs sh json_output refresh =
     andthen (if refresh
       then andthen (get_terraform_outputs sh) (\<lambda>tf.
            if tf = [] then return ()
            else andthen (look load_state) (\<lambda>s. save_state sh (s\<lparr>outputs_of := tf\<rparr>)))
       else return ()) (\<lambda>u.
     andthen (look load_state) (\<lambda>s.
     andthen (if outputs_of s = [] then get_terraform_outputs sh else return (outputs_of s)) (\<lambda>d.
     return (if json_output then AsJson d
       else if d = [] then NoOutputs else Table (map (outputs_row sh) (sort_key fst d))))))"

section \<open>Destruction\<close>

text \<open>The direct call leaves \<open>plan_only\<close>, \<open>profile\<close> and \<open>region\<close> at their signature defaults.\<close>

definition destroy_confirmed :: "shell \<Rightarrow> environment \<Rightarrow> bool \<Rightarrow> bool script" where
  "destroy_confirmed sh env force =
     (if force then return True
      else andthen (step (sh_confirm sh)) (\<lambda>ok.
        if \<not> ok then return False
        else if env = Prod then andthen (step (sh_prompt sh)) (\<lambda>answer. return (answer = ''destroy-prod''))
        else return True))"

definition destroy :: "shell \<Rightarrow> environment \<Rightarrow> bool \<Rightarrow> bool script" where
  "destroy sh env force =
     andthen (destroy_confirmed sh env force) (\<lambda>ok.
     if ok then terraform sh env OptionInfo True True OptionInfo OptionInfo else return False)"

section \<open>All phases\<close>

definition required :: "bool script \<Rightarrow> unit script" where
  "required m = andthen m (\<lambda>ok. if ok then return () else stop (Exits 1))"

definition run_all ::
  "shell \<Rightarrow> environment \<Rightarrow> bool \<Rightarrow> string option \<Rightarrow> string option \<Rightarrow> string option \<Rightarrow> bool \<Rightarrow> unit script"
where
  "run_all sh env skip_confirmations repo_url profile region skip_images =
     andthen (apply_aws_profile (Passed profile) (Passed region)) (\<lambda>u.
     andthen (if skip_confirmations then return True else step (sh_confirm sh)) (\<lambda>proceed.
     if \<not> proceed then stop (Exits 0)
     else
     andthen (required (preflight sh (Passed None) (Passed None) skip_images)) (\<lambda>u.
     andthen (required (terraform sh env (Passed False) skip_confirmations False (Passed None) (Passed None))) (\<lambda>u.
     andthen (required (kubeconfig sh (Some env) (Passed None) (Passed None))) (\<lambda>u.
     andthen (if skip_images then return ()
       else required (images sh True None (Passed None) (Passed None))) (\<lambda>u.
     andthen (let final_repo = (if present repo_url then the repo_url else GITHUB_REPO_URL)
       in if contains ''YOUR_USERNAME'' final_repo \<and> \<not> skip_confirmations
          then step (sh_prompt sh) else return final_repo) (\<lambda>final_repo.
     andthen (required (deploy sh (Some final_repo) False)) (\<lambda>u.
     andthen (reconcile sh ''llm-gateway'' (Passed (Some (if present region then the region else ''us-east-1'')))
       (Passed None) 900 False) (\<lambda>u.
     andthen (validate sh) (\<lambda>u. return ()))))))))))"

end
