(* ===== verification/Script_Logic.thy ===== *)
theory Script_Logic
  imports Deploy
begin

text \<open>
  Total correctness of scripts: \<open>keeps sh I m\<close> says that \<open>m\<close>, started in a world of \<open>I\<close>, returns
  (normally or not) in a world of \<open>I\<close>, no earlier than it was started, provided commands take no
  negative time. The rules follow the way scripts are composed; a loop that sleeps at least a
  second per round and has a deadline is finite. The locale collects what a property of worlds
  has to tolerate for every phase of the bootstrap to keep it.
\<close>

section \<open>Total correctness\<close>

named_theorems keeps_intros \<open>rules that take a script apart\<close>

definition keeps :: "shell \<Rightarrow> (world \<Rightarrow> bool) \<Rightarrow> 'a script \<Rightarrow> bool" where
  "keeps sh I m \<longleftrightarrow> (\<forall>n. 0 \<le> sh_duration sh n) \<longrightarrow>
     (\<forall>w. I w \<longrightarrow> (\<exists>r w'. m w = Some (r, w') \<and> I w' \<and> now w \<le> now w'))"

lemma keepsI:
  "(\<And>w. \<forall>n. 0 \<le> sh_duration sh n \<Longrightarrow> I w \<Longrightarrow> \<exists>r w'. m w = Some (r, w') \<and> I w' \<and> now w \<le> now w') \<Longrightarrow>
   keeps sh I m"
  by (simp add: keeps_def)

lemma keepsE:
  assumes "keeps sh I m" "\<forall>n. 0 \<le> sh_duration sh n" "I w"
  obtains r w' where "m w = Some (r, w')" "I w'" "now w \<le> now w'"
  using assms unfolding keeps_def by blast

lemma keepsD:
  "keeps sh I m \<Longrightarrow> \<forall>n. 0 \<le> sh_duration sh n \<Longrightarrow> I w \<Longrightarrow> m w = Some (r, w') \<Longrightarrow> I w'"
  by (fastforce elim: keepsE)

lemma keeps_return [keeps_intros]: "keeps sh I (return x)"
  by (simp add: keeps_def return_def)

lemma keeps_stop [keeps_intros]: "keeps sh I (stop h)"
  by (simp add: keeps_def stop_def)

lemma keeps_look [keeps_intros]: "keeps sh I (look f)"
  by (simp add: keeps_def look_def)

lemma keeps_of_result [keeps_intros]: "keeps sh I (of_result r)"
  by (cases r) (simp_all add: of_result_def keeps_return keeps_stop)

lemma keeps_if [keeps_intros]:
  "keeps sh I m \<Longrightarrow> keeps sh I m' \<Longrightarrow> keeps sh I (if b then m else m')"
  by simp

lemma keeps_let [keeps_intros]: "(\<And>x. keeps sh I (f x)) \<Longrightarrow> keeps sh I (let x = a in f x)"
  by simp

lemma keeps_case_option [keeps_intros]:
  "keeps sh I m \<Longrightarrow> (\<And>x. keeps sh I (f x)) \<Longrightarrow> keeps sh I (case v of None \<Rightarrow> m | Some x \<Rightarrow> f x)"
  by (simp split: option.split)

lemma keeps_andthen [keeps_intros]:
  assumes m: "keeps sh I m" and f: "\<And>x. keeps sh I (f x)"
  shows "keeps sh I (andthen m f)"
proof (rule keepsI)
  fix w
  assume d: "\<forall>n. 0 \<le> sh_duration sh n" and "I w"
  with m obtain r w1 where 1: "m w = Some (r, w1)" "I w1" "now w \<le> now w1" by (elim keepsE)
  show "\<exists>r w'. andthen m f w = Some (r, w') \<and> I w' \<and> now w \<le> now w'"
  proof (cases r)
    case (Inl h)
    with 1 show ?thesis by (simp add: andthen_def)
  next
    case (Inr x)
    from f [of x] d 1(2) obtain r' w' where "f x w1 = Some (r', w')" "I w'" "now w1 \<le> now w'" by (elim keepsE)
    with 1 Inr show ?thesis by (auto simp: andthen_def)
  qed
qed

lemma keeps_or_missing [keeps_intros]: "keeps sh I m \<Longrightarrow> keeps sh I (or_missing m d)"
  by (rule keepsI) (auto elim!: keepsE simp: or_missing_def split: sum.split halt.split)

lemma andthen_first:
  assumes "m w = Some (Inr x, w1)" "keeps sh I (f x)" "\<forall>n. 0 \<le> sh_duration sh n" "I w1"
  shows "\<exists>r w'. andthen m f w = Some (r, w') \<and> I w'"
  using assms by (auto elim!: keepsE simp: andthen_def)

text \<open>The bound of a loop is the number of seconds left, rounded up.\<close>

lemma poll_loop_ends:
  assumes body: "keeps sh I body"
    and sleeps: "\<And>w t w'. body w = Some (Inr (Inl t), w') \<Longrightarrow> 1 \<le> t"
    and go: "\<And>w. go w \<longleftrightarrow> now w < deadline"
    and tick: "\<And>w t. I w \<Longrightarrow> I (sleep t w)"
    and d: "\<forall>n. 0 \<le> sh_duration sh n"
  shows "I w \<Longrightarrow> \<exists>r w'. poll_loop go body w = Some (r, w') \<and> I w' \<and> now w \<le> now w'"
proof (induction "nat \<lceil>deadline - now w\<rceil>" arbitrary: w rule: less_induct)
  case less
  show ?case
  proof (cases "go w")
    case False
    with less.prems show ?thesis by (simp add: poll_loop.simps [of go body w])
  next
    case True
    from body d less.prems obtain r w1 where 1: "body w = Some (r, w1)" "I w1" "now w \<le> now w1"
      by (elim keepsE)
    show ?thesis
    proof (cases "\<exists>t. r = Inr (Inl t)")
      case False
      then consider h where "r = Inl h" | x where "r = Inr (Inr x)" by (metis sum.exhaust)
      then show ?thesis using True 1 by cases (simp_all add: poll_loop.simps [of go body w])
    next
      case t: True
      then obtain t where t: "r = Inr (Inl t)" by blast
      with 1 sleeps have "1 \<le> t" by blast
      with 1 True go have "nat \<lceil>deadline - now (sleep t w1)\<rceil> < nat \<lceil>deadline - now w\<rceil>"
        by (simp add: sleep_def) linarith
      from less.hyps [OF this tick [OF 1(2)]] 1 t \<open>1 \<le> t\<close> True show ?thesis
        by (auto simp: poll_loop.simps [of go body w] sleep_def)
    qed
  qed
qed

section \<open>What a property of worlds has to tolerate\<close>

lemma update_phase_eq:
  "update_phase sh ph st d w = Some (Inr (), w\<lparr>steps := Suc (Suc (steps w)), state_file := Some ((load_state w)
     \<lparr>phases := AList.update ph \<lparr>phase_status = st, phase_timestamp = sh_time sh (steps w), phase_data = d\<rparr>
        (phases (load_state w)), last_run := Some (sh_time sh (Suc (steps w)))\<rparr>)\<rparr>)"
  by (simp add: update_phase_def save_state_def andthen_def look_def step_def change_def)

lemma now_set_region: "now (set_region r w) = now w"
  by (simp add: set_region_def set_env_def)

text \<open>
  \<open>own\<close> are the phases whose entries may change without hurting the property. Output files, the
  clock, the step counter and the region may change freely; a command gets the environment of the
  process.
\<close>

locale bootstrap_invariant =
  fixes sh :: shell and I :: "world \<Rightarrow> bool" and own :: "string set"
  assumes I_steps: "I w \<Longrightarrow> I (w\<lparr>steps := n\<rparr>)"
    and I_command: "I w \<Longrightarrow> I (executed sh \<lparr>argv = av, cwd = dir, cmd_environ = environ w, cmd_stdin = inp\<rparr> w)"
    and I_sleep: "I w \<Longrightarrow> I (sleep t w)"
    and I_env_file: "I w \<Longrightarrow> I (w\<lparr>env_file := e\<rparr>)"
    and I_root_app: "I w \<Longrightarrow> I (w\<lparr>root_app := a\<rparr>)"
    and I_region: "I w \<Longrightarrow> I (set_region r w)"
    and I_outputs: "I w \<Longrightarrow> I (w\<lparr>state_file := Some ((load_state w)\<lparr>outputs_of := outs, boot_env := b, last_run := l\<rparr>)\<rparr>)"
    and I_phase: "I w \<Longrightarrow> ph \<in> own \<Longrightarrow> I (w\<lparr>state_file := Some ((load_state w)
          \<lparr>phases := AList.update ph entry (phases (load_state w)), last_run := l\<rparr>)\<rparr>)"
begin

lemma step_keeps [keeps_intros]: "keeps sh I (step f)"
  by (auto simp: keeps_def step_def I_steps)

lemma subprocess_run_keeps [keeps_intros]: "keeps sh I (subprocess_run sh av dir inp)"
proof (rule keepsI)
  fix w assume "\<forall>n. 0 \<le> sh_duration sh n" "I w"
  then show "\<exists>r w'. subprocess_run sh av dir inp w = Some (r, w') \<and> I w' \<and> now w \<le> now w'"
    by (cases "sh_answer sh (steps w) av") (simp_all add: subprocess_run_def I_steps I_command, simp add: executed_def)
qed

lemma run_command_keeps [keeps_intros]: "keeps sh I (run_command sh av dir capture chk)"
  unfolding run_command_def by (intro keeps_intros)

lemma check_tool_keeps [keeps_intros]: "keeps sh I (check_tool sh cmd)"
  unfolding check_tool_def by (intro keeps_intros)

lemma update_phase_keeps [keeps_intros]: "ph \<in> own \<Longrightarrow> keeps sh I (update_phase sh ph st d)"
  using I_phase [OF I_steps] by (simp add: keeps_def update_phase_eq load_state_def)

lemma record_outputs_keeps [keeps_intros]:
  "keeps sh I (andthen (look load_state) (\<lambda>s. save_state sh (s\<lparr>outputs_of := outs, boot_env := e\<rparr>)))"
  using I_outputs [OF I_steps]
  by (simp add: keeps_def save_state_def andthen_def look_def step_def change_def load_state_def)

lemma change_keeps [keeps_intros]:
  "keeps sh I (change (\<lambda>w. w\<lparr>env_file := f w\<rparr>))"
  "keeps sh I (change (\<lambda>w. w\<lparr>root_app := g w\<rparr>))"
  by (auto simp: keeps_def change_def I_env_file I_root_app)

text \<open>No new profile: the call of a phase with \<open>profile=None\<close>.\<close>

lemma apply_region_keeps [keeps_intros]: "keeps sh I (apply_aws_profile (Passed None) (Passed r))"
  by (auto simp: keeps_def apply_aws_profile_def andthen_def present_def return_def change_def I_region
      now_set_region)

lemma poll_loop_keeps:
  assumes "keeps sh I body" "\<And>w t w'. body w = Some (Inr (Inl t), w') \<Longrightarrow> 1 \<le> t"
    and "\<And>w. go w \<longleftrightarrow> now w < deadline"
  shows "keeps sh I (poll_loop go body)"
  using poll_loop_ends [OF assms I_sleep] by (intro keepsI)

lemma wait_for_condition_keeps [keeps_intros]:
  assumes "keeps sh I check" "1 \<le> interval"
  shows "keeps sh I (wait_for_condition check timeout interval)"
proof -
  have "keeps sh I (poll_loop (\<lambda>w. now w - start < timeout)
      (andthen check (\<lambda>b. return (if b then Inr () else Inl interval))))" for start
    using assms(2)
    by (intro poll_loop_keeps [where deadline = "start + timeout"] keeps_intros assms(1))
      (auto simp: andthen_def return_def split: option.splits prod.splits sum.splits if_splits)
  then show ?thesis unfolding wait_for_condition_def by (intro keeps_intros)
qed

end

end
