(* ===== verification/Bootstrap_Props.thy ===== *)
theory Bootstrap_Props
  imports Script_Logic
begin

text \<open>
  What the bootstrap does as a whole: it returns, every command of it runs under the requested
  profile, a finished run has completed its phases, Terraform applies nothing that was not
  approved, and \<open>destroy\<close> never destroys.
\<close>

section \<open>Every phase keeps what the locale describes\<close>

context bootstrap_invariant
begin

lemma check_tools_keeps [keeps_intros]: "keeps sh I (check_tools sh skip ts)"
proof (induction ts)
  case (Cons t ts)
  then show ?case by (cases t) (auto intro!: keeps_intros)
qed (simp add: keeps_intros)

lemma preflight_keeps:
  "''preflight'' \<in> own \<Longrightarrow> keeps sh I (preflight sh (Passed None) (Passed r) skip)"
  unfolding preflight_def check_aws_credentials_def check_aws_region_def by (intro keeps_intros)

lemma terraform_outputs_keeps [keeps_intros]: "keeps sh I (get_terraform_outputs sh)"
  unfolding get_terraform_outputs_def by (intro keeps_intros)

lemma write_env_file_keeps [keeps_intros]: "keeps sh I (write_env_file sh outs env)"
  unfolding write_env_file_def by (intro keeps_intros)

lemma terraform_keeps:
  "''terraform'' \<in> own \<Longrightarrow> keeps sh I (terraform sh env plan auto destr (Passed None) (Passed r))"
  unfolding terraform_def by (intro keeps_intros)

lemma kubeconfig_keeps:
  "''kubeconfig'' \<in> own \<Longrightarrow> keeps sh I (kubeconfig sh env (Passed None) (Passed r))"
  unfolding kubeconfig_def by (intro keeps_intros)

lemma images_keeps:
  assumes "''images'' \<in> own"
  shows "keeps sh I (images sh push tag (Passed None) (Passed r))"
proof -
  have "keeps sh I (case j of JStr b \<Rightarrow> return b | _ \<Rightarrow> stop (Throws AttributeError))" for j
    by (cases j) (auto intro: keeps_intros)
  then show ?thesis
    unfolding images_def image_tag_def ecr_login_def docker_build_def docker_push_def
    by (intro keeps_intros assms)
qed

lemma deploy_keeps: "''deploy'' \<in> own \<Longrightarrow> keeps sh I (deploy sh repo_url skip)"
  unfolding deploy_def update_argocd_repo_url_def wait_for_argocd_def create_argocd_repo_secret_def
    repo_token_def get_argocd_password_def apply_root_app_def
  by (intro keeps_intros) simp_all

lemma wait_for_apps_keeps [keeps_intros]: "keeps sh I (wait_for_apps sh timeout)"
proof -
  have "keeps sh I (poll_loop (\<lambda>w. now w < deadline) (andthen (run_command sh av None True False)
      (\<lambda>r. return (if returncode r \<noteq> 0 then Inl 10 else if converged (stdout r) then Inr () else Inl 15))))"
    for deadline av
    by (intro poll_loop_keeps keeps_intros)
      (auto simp: andthen_def return_def split: option.splits prod.splits sum.splits if_splits)
  then show ?thesis unfolding wait_for_apps_def by (intro keeps_intros)
qed

lemma sync_db_secret_keeps [keeps_intros]: "keeps sh I (sync_db_secret sh arn)"
proof -
  have "keeps sh I (payload_password j)" for j
    by (auto simp: payload_password_def keeps_intros split: sum.split json.split)
  moreover have "keeps sh I (with_password j pw)" for j pw
    by (cases j) (simp_all add: with_password_def keeps_intros)
  ultimately show ?thesis
    unfolding sync_db_secret_def get_secret_def create_secret_def by (intro keeps_intros)
qed

lemma reconcile_keeps: "keeps sh I (reconcile sh namespace (Passed r) (Passed None) timeout skip)"
  unfolding reconcile_def master_secret_arn_def force_refresh_def ensure_admin_key_def create_secret_def
    restart_backend_def ensure_db_def
  by (intro keeps_intros)

lemma validate_keeps: "''validate'' \<in> own \<Longrightarrow> keeps sh I (validate sh)"
  unfolding validate_def probe_def by (intro keeps_intros)

text \<open>The whole run, from the world in which profile and region have been set.\<close>

lemma required_keeps [keeps_intros]: "keeps sh I m \<Longrightarrow> keeps sh I (required m)"
  unfolding required_def by (intro keeps_intros)

lemma run_all_keeps:
  assumes "{''preflight'', ''terraform'', ''kubeconfig'', ''images'', ''deploy'', ''validate''} \<subseteq> own"
    and "apply_aws_profile (Passed profile) (Passed region) w = Some (Inr (), w1)"
    and "\<forall>n. 0 \<le> sh_duration sh n" "I w1"
  shows "\<exists>r w'. run_all sh env skip repo profile region skip_images w = Some (r, w') \<and> I w'"
  unfolding run_all_def
proof (rule andthen_first, rule assms(2))
  show "I w1" "\<forall>n. 0 \<le> sh_duration sh n" by fact+
qed (use assms(1) in \<open>intro keeps_intros preflight_keeps terraform_keeps kubeconfig_keeps images_keeps
    deploy_keeps reconcile_keeps validate_keeps; simp\<close>)

end

section \<open>Interpretations\<close>

text \<open>Nothing at all: what remains is that the scripts return.\<close>

interpretation returns: bootstrap_invariant sh "\<lambda>w. True" UNIV for sh
  by unfold_locales simp_all

text \<open>The commands run since \<open>h\<close> had the profile and no static keys in their environment.\<close>

definition profile_environ :: "string \<Rightarrow> (string, string) dict \<Rightarrow> bool" where
  "profile_environ p d \<longleftrightarrow> map_of d ''AWS_PROFILE'' = Some p \<and> map_of d ''AWS_ACCESS_KEY_ID'' = None
     \<and> map_of d ''AWS_SECRET_ACCESS_KEY'' = None \<and> map_of d ''AWS_SESSION_TOKEN'' = None"

definition under_profile :: "string \<Rightarrow> command list \<Rightarrow> world \<Rightarrow> bool" where
  "under_profile p h w \<longleftrightarrow> profile_environ p (environ w)
     \<and> (\<exists>cs. history w = h @ cs \<and> (\<forall>c \<in> set cs. profile_environ p (cmd_environ c)))"

interpretation profile: bootstrap_invariant sh "under_profile p h" UNIV for sh p h
  by unfold_locales
    (auto simp: under_profile_def profile_environ_def executed_def sleep_def set_region_def set_env_def dict_simps)

text \<open>A phase has the status: only an update of that phase changes it.\<close>

interpretation status: bootstrap_invariant sh "\<lambda>w. get_phase_status ph w = Some st" "- {ph}" for sh ph st
  by unfold_locales
    (auto simp: get_phase_status_def load_state_def executed_def sleep_def set_region_def set_env_def dict_simps)

section \<open>Setting the profile\<close>

lemma apply_aws_profile_passed:
  obtains w1 where "apply_aws_profile (Passed p) (Passed r) w = Some (Inr (), w1)" "history w1 = history w"
    "present p \<Longrightarrow> profile_environ (the p) (environ w1)"
proof -
  have "\<exists>w1. apply_aws_profile (Passed p) (Passed r) w = Some (Inr (), w1) \<and> history w1 = history w
      \<and> (present p \<longrightarrow> profile_environ (the p) (environ w1))"
    by (simp add: apply_aws_profile_def andthen_def return_def change_def set_profile_def set_region_def
        set_env_def pop_env_def profile_environ_def dict_simps)
  then show thesis using that by blast
qed

section \<open>A phase that succeeds is recorded\<close>

lemma andthen_Inr:
  "andthen m f w = Some (Inr y, w') \<longleftrightarrow> (\<exists>x w1. m w = Some (Inr x, w1) \<and> f x w1 = Some (Inr y, w'))"
  by (auto simp: andthen_def split: option.split prod.split sum.split)

lemma return_Inr: "return x w = Some (Inr y, w') \<longleftrightarrow> y = x \<and> w' = w"
  by (auto simp: return_def)

lemma stop_Inr: "stop h w \<noteq> Some (Inr y, w')"
  by (simp add: stop_def)

lemma required_Inr: "required m w = Some (Inr u, w') \<longleftrightarrow> m w = Some (Inr True, w')"
  by (auto simp: required_def andthen_Inr return_Inr stop_Inr split: if_splits)

lemma update_phase_status:
  "update_phase sh ph st d w = Some (Inr u, w') \<Longrightarrow> get_phase_status ph w' = Some st"
  by (auto simp: update_phase_eq get_phase_status_def load_state_def dict_simps)

lemmas finished_simps = andthen_Inr return_Inr stop_Inr Let_def

lemma preflight_recorded:
  "preflight sh p r skip w = Some (Inr True, w') \<Longrightarrow> get_phase_status ''preflight'' w' = Some ''completed''"
  by (auto simp: preflight_def finished_simps dest!: update_phase_status split: if_splits)

lemma terraform_recorded:
  "terraform sh env (Passed False) auto False p r w = Some (Inr True, w') \<Longrightarrow>
     get_phase_status ''terraform'' w' = Some ''completed''"
  by (auto simp: terraform_def finished_simps dest!: update_phase_status split: if_splits)

lemma kubeconfig_recorded:
  "kubeconfig sh env p r w = Some (Inr True, w') \<Longrightarrow> get_phase_status ''kubeconfig'' w' = Some ''completed''"
  by (auto simp: kubeconfig_def finished_simps dest!: update_phase_status split: if_splits)

lemma images_recorded:
  "images sh push tag p r w = Some (Inr True, w') \<Longrightarrow> get_phase_status ''images'' w' = Some ''completed''"
  by (auto simp: images_def finished_simps dest!: update_phase_status split: if_splits)

lemma deploy_recorded:
  "deploy sh repo_url skip w = Some (Inr True, w') \<Longrightarrow> get_phase_status ''deploy'' w' = Some ''completed''"
  by (auto simp: deploy_def finished_simps dest!: update_phase_status split: if_splits)

lemma validate_recorded:
  "validate sh w = Some (Inr ok, w') \<Longrightarrow>
     get_phase_status ''validate'' w' = Some (if ok then ''completed'' else ''failed'')"
  by (auto simp: validate_def finished_simps dest!: update_phase_status split: if_splits)

section \<open>The bootstrap as a whole\<close>

text \<open>C16. The bootstrap always returns. Its two waiting loops have deadlines (300 s for ArgoCD,
  900 s for the applications), whatever the commands, the operator and the cluster answer.\<close>

theorem bootstrap_returns:
  assumes "\<forall>n. 0 \<le> sh_duration sh n"
  shows "\<exists>r w'. run_all sh env skip repo profile region skip_images w = Some (r, w')"
proof -
  obtain w1 where "apply_aws_profile (Passed profile) (Passed region) w = Some (Inr (), w1)"
    by (rule apply_aws_profile_passed)
  from returns.run_all_keeps [OF _ this assms] show ?thesis by blast
qed

text \<open>C15. With \<open>--profile\<close>, every command the bootstrap runs (up to its normal or early end) runs with
  \<open>AWS_PROFILE\<close> set to it and without static credentials in the environment, which would win over
  the profile.\<close>

theorem bootstrap_uses_profile:
  assumes "\<forall>n. 0 \<le> sh_duration sh n" "p \<noteq> []"
  shows "\<exists>r w' cs. run_all sh env skip repo (Some p) region skip_images w = Some (r, w')
    \<and> history w' = history w @ cs \<and> list_all (\<lambda>c. profile_environ p (cmd_environ c)) cs"
proof -
  obtain w1 where w1: "apply_aws_profile (Passed (Some p)) (Passed region) w = Some (Inr (), w1)"
      "history w1 = history w" "profile_environ p (environ w1)"
    by (rule apply_aws_profile_passed [of "Some p" region w]) (simp add: present_def assms(2))
  then have "under_profile p (history w) w1" by (simp add: under_profile_def)
  then have "\<exists>r w'. run_all sh env skip repo (Some p) region skip_images w = Some (r, w')
      \<and> under_profile p (history w) w'"
    by (intro profile.run_all_keeps [OF _ w1(1) assms(1)]) simp_all
  then show ?thesis unfolding under_profile_def list_all_iff by blast
qed

lemma else_stop_Inr:
  "(if \<not> b then stop h else m) w = Some (Inr y, w') \<longleftrightarrow> b \<and> m w = Some (Inr y, w')"
  by (simp add: stop_Inr)

lemma optional_Inr:
  "(if b then return () else required m) w = Some (Inr u, w') \<longleftrightarrow> (if b then w' = w else m w = Some (Inr True, w'))"
  by (auto simp: required_Inr return_Inr)

text \<open>The worlds between the phases of a finished run; asking for the repository changes no phase.\<close>

lemma run_all_finished:
  assumes "run_all sh env skip repo profile region skip_images w = Some (Inr u, w')"
  obtains w1 w2 w3 w4 w5 w6 w7 w8 url rec ok where
    "preflight sh (Passed None) (Passed None) skip_images w1 = Some (Inr True, w2)"
    "terraform sh env (Passed False) skip False (Passed None) (Passed None) w2 = Some (Inr True, w3)"
    "kubeconfig sh (Some env) (Passed None) (Passed None) w3 = Some (Inr True, w4)"
    "if skip_images then w5 = w4 else images sh True None (Passed None) (Passed None) w4 = Some (Inr True, w5)"
    "\<forall>ph. get_phase_status ph w6 = get_phase_status ph w5"
    "deploy sh (Some url) False w6 = Some (Inr True, w7)"
    "reconcile sh ''llm-gateway'' (Passed (Some (if present region then the region else ''us-east-1'')))
       (Passed None) 900 False w7 = Some (Inr rec, w8)"
    "validate sh w8 = Some (Inr ok, w')"
proof -
  have pick: "\<forall>ph. get_phase_status ph w6 = get_phase_status ph w5"
    if "(let final_repo = r in if b final_repo then step f else return final_repo) w5 = Some (Inr url, w6)"
    for w5 w6 and url r :: string and b f
    using that by (auto simp: Let_def step_def return_def get_phase_status_def load_state_def split: if_splits)
  from assms show thesis
    unfolding run_all_def
    apply (simp only: andthen_Inr required_Inr else_stop_Inr optional_Inr return_Inr)
    by (elim exE conjE, hypsubst) (rule that, assumption+, erule pick, assumption+)
qed

text \<open>C14. A bootstrap that runs to its end has completed the phases it needs: the state file says
  so of preflight, terraform, kubeconfig, deploy, and images unless they were skipped, and it
  holds the verdict of the validation. The status a phase left behind survives all later phases.\<close>

theorem bootstrap_completes_phases:
  assumes "\<forall>n. 0 \<le> sh_duration sh n"
    and "run_all sh env skip repo profile region skip_images w = Some (Inr u, w')"
  shows "list_all (\<lambda>ph. get_phase_status ph w' = Some ''completed'')
      ([''preflight'', ''terraform'', ''kubeconfig'', ''deploy''] @ (if skip_images then [] else [''images'']))
    \<and> get_phase_status ''validate'' w' \<in> {Some ''completed'', Some ''failed''}"
proof -
  note stays = keepsD [OF _ assms(1)]
  note later = stays [OF status.terraform_keeps] stays [OF status.kubeconfig_keeps]
    stays [OF status.images_keeps] stays [OF status.deploy_keeps] stays [OF status.reconcile_keeps]
    stays [OF status.validate_keeps]
  from assms(2) obtain w1 w2 w3 w4 w5 w6 w7 w8 url rec ok where run:
    "preflight sh (Passed None) (Passed None) skip_images w1 = Some (Inr True, w2)"
    "terraform sh env (Passed False) skip False (Passed None) (Passed None) w2 = Some (Inr True, w3)"
    "kubeconfig sh (Some env) (Passed None) (Passed None) w3 = Some (Inr True, w4)"
    "if skip_images then w5 = w4 else images sh True None (Passed None) (Passed None) w4 = Some (Inr True, w5)"
    "\<forall>ph. get_phase_status ph w6 = get_phase_status ph w5"
    "deploy sh (Some url) False w6 = Some (Inr True, w7)"
    "reconcile sh ''llm-gateway'' (Passed (Some (if present region then the region else ''us-east-1'')))
       (Passed None) 900 False w7 = Some (Inr rec, w8)"
    "validate sh w8 = Some (Inr ok, w')"
    by (rule run_all_finished)
  have final: "get_phase_status ph w' = Some st"
    if "get_phase_status ph w7 = Some st" "ph \<noteq> ''validate''" for ph st
    using later(5) [OF that(1) run(7)] later(6) [OF _ _ run(8)] that(2) by auto
  have from6: "get_phase_status ph w' = Some st"
    if "get_phase_status ph w6 = Some st" "ph \<noteq> ''deploy''" "ph \<noteq> ''validate''" for ph st
    using later(4) [OF _ that(1) run(6)] that by (intro final) auto
  have from4: "get_phase_status ph w' = Some st"
    if "get_phase_status ph w4 = Some st" "ph \<noteq> ''images''" "ph \<noteq> ''deploy''" "ph \<noteq> ''validate''" for ph st
    using later(3) [OF _ that(1)] that run(4,5) by (intro from6) (cases skip_images, auto)
  have "get_phase_status ''preflight'' w4 = Some ''completed''"
    using later(2) [OF _ _ run(3)] later(1) [OF _ _ run(2)] preflight_recorded [OF run(1)] by simp
  moreover have "get_phase_status ''terraform'' w4 = Some ''completed''"
    using later(2) [OF _ _ run(3)] terraform_recorded [OF run(2)] by simp
  moreover have "get_phase_status ''images'' w6 = Some ''completed''" if "\<not> skip_images"
    using that run(4,5) images_recorded by auto
  ultimately show ?thesis
    using from4 from6 [of "''images''"] final [of "''deploy''"] kubeconfig_recorded [OF run(3)]
      deploy_recorded [OF run(6)] validate_recorded [OF run(8)] by auto
qed

section \<open>A concrete run\<close>

text \<open>
  A shell whose commands all succeed after a second, with the same output but for the ArgoCD
  applications, and a world in which an earlier run has left the Terraform outputs.
\<close>

definition demo_outputs :: "(string, json) dict" where
  "demo_outputs = map (\<lambda>k. (k, JStr k)) [''ecr_backend_url'', ''ecr_admin_ui_url'', ''region'', ''cluster_name'', ''password'']"

definition demo_result :: "string list \<Rightarrow> cmd_result" where
  "demo_result av = \<lparr>returncode = 0, stdout =
     (if ''applications.argoproj.io'' \<in> set av then ''gateway=Synced,Healthy;'' else ''Running True''), stderr = []\<rparr>"

definition demo_shell :: shell where
  "demo_shell = \<lparr>
     sh_answer = (\<lambda>n av. Some (demo_result av)),
     sh_duration = (\<lambda>n. 1), sh_confirm = (\<lambda>n. True), sh_prompt = (\<lambda>n. ''answer''), sh_exists = (\<lambda>path. True),
     sh_loads = (\<lambda>text. Inr (JObj (map (\<lambda>(k, v). (k, JObj [(''value'', v)])) demo_outputs))),
     sh_b64decode = Inr, sh_frepr = (\<lambda>x. ''0.0''), sh_repr = (\<lambda>j. ''''), sh_expand = Inr,
     sh_time = (\<lambda>n. ''2024-01-01T00:00:00''), sh_token = (\<lambda>n. ''token'')\<rparr>"

definition demo_world :: world where
  "demo_world = \<lparr>steps = 0, now = 0, environ = [(''AWS_ACCESS_KEY_ID'', ''AKIA'')],
     state_file = Some (fresh_state\<lparr>outputs_of := demo_outputs\<rparr>),
     env_file = None, root_app = None, history = []\<rparr>"

definition demo_ready :: "world \<Rightarrow> bool" where
  "demo_ready w \<longleftrightarrow> outputs_of (load_state w) = demo_outputs \<and> root_app w = None"

definition succeeds :: "'a script \<Rightarrow> 'a \<Rightarrow> bool" where
  "succeeds m x \<longleftrightarrow> (\<forall>w. demo_ready w \<longrightarrow> (\<exists>w'. m w = Some (Inr x, w') \<and> demo_ready w'))"

named_theorems succeeds_intros \<open>rules that run a script of the concrete shell\<close>

lemma succeeds_andthen [succeeds_intros]: "succeeds m x \<Longrightarrow> succeeds (f x) y \<Longrightarrow> succeeds (andthen m f) y"
  by (fastforce simp: succeeds_def andthen_def)

lemma succeeds_return [succeeds_intros]: "succeeds (return x) x"
  by (simp add: succeeds_def return_def)

lemma succeeds_step [succeeds_intros]: "f = (\<lambda>n. x) \<Longrightarrow> succeeds (step f) x"
  by (simp add: succeeds_def step_def demo_ready_def load_state_def)

lemma succeeds_look_root [succeeds_intros]: "succeeds (look root_app) None"
  by (simp add: succeeds_def look_def demo_ready_def)

lemma succeeds_look_state [succeeds_intros]:
  assumes "\<And>s. outputs_of s = demo_outputs \<Longrightarrow> succeeds (f s) y"
  shows "succeeds (andthen (look load_state) f) y"
  using assms by (simp add: succeeds_def andthen_def look_def demo_ready_def)

lemma succeeds_env_file [succeeds_intros]: "succeeds (change (\<lambda>w. w\<lparr>env_file := g w\<rparr>)) ()"
  by (simp add: succeeds_def change_def demo_ready_def load_state_def)

lemma succeeds_save_state [succeeds_intros]: "outputs_of s = demo_outputs \<Longrightarrow> succeeds (save_state demo_shell s) ()"
  by (simp add: succeeds_def save_state_def andthen_def step_def change_def demo_ready_def load_state_def)

lemma succeeds_update_phase [succeeds_intros]: "succeeds (update_phase demo_shell ph st d) ()"
  by (simp add: succeeds_def update_phase_eq demo_ready_def load_state_def)

lemma succeeds_subprocess [succeeds_intros]: "succeeds (subprocess_run demo_shell av dir inp) (demo_result av)"
  by (simp add: succeeds_def subprocess_run_def demo_shell_def executed_def demo_ready_def load_state_def)

lemma succeeds_command [succeeds_intros]:
  "succeeds (run_command demo_shell av dir capture chk)
     (if capture then demo_result av else (demo_result av)\<lparr>stdout := [], stderr := []\<rparr>)"
  unfolding run_command_def
  by (rule succeeds_andthen, rule succeeds_subprocess) (simp add: demo_result_def succeeds_return)

lemma succeeds_or_missing [succeeds_intros]: "succeeds m x \<Longrightarrow> succeeds (or_missing m d) x"
  by (fastforce simp: succeeds_def or_missing_def)

lemma succeeds_profile [succeeds_intros]: "succeeds (apply_aws_profile (Passed p) (Passed r)) ()"
  by (simp add: succeeds_def apply_aws_profile_def andthen_def return_def change_def set_profile_def
      set_region_def set_env_def pop_env_def demo_ready_def load_state_def)

lemma succeeds_poll:
  assumes "succeeds body (Inr x)" "0 < timeout"
  shows "succeeds (andthen (look now) (\<lambda>start. andthen (poll_loop (\<lambda>w. now w < start + timeout) body)
    (\<lambda>r. return (r \<noteq> None)))) True"
proof -
  have "\<exists>w'. poll_loop (\<lambda>v. now v < now w + timeout) body w = Some (Inr (Some x), w') \<and> demo_ready w'"
    if "demo_ready w" for w
    using assms that by (auto simp: succeeds_def poll_loop.simps)
  then show ?thesis by (fastforce simp: succeeds_def andthen_def look_def return_def)
qed

lemma succeeds_of_result [succeeds_intros]: "succeeds (of_result (Inr x)) x"
  by (simp add: of_result_def succeeds_return)

text \<open>The answers of the shell, and what the phases compute from them.\<close>

lemma demo_answers:
  "sh_loads demo_shell t = Inr (JObj (map (\<lambda>(k, v). (k, JObj [(''value'', v)])) demo_outputs))"
  "sh_confirm demo_shell = (\<lambda>n. True)" "sh_exists demo_shell path" "sh_b64decode demo_shell = Inr"
  "sh_time demo_shell = (\<lambda>n. ''2024-01-01T00:00:00'')"
  by (simp_all add: demo_shell_def)

lemma demo_text:
  "strip ''Running True'' = ''Running True''"
  "contains ''Running'' ''Running True''" "contains ''True'' ''Running True''"
  "converged ''gateway=Synced,Healthy;''" "\<not> contains ''YOUR_USERNAME'' GITHUB_REPO_URL"
  by code_simp+

lemma demo_values:
  "demo_outputs \<noteq> []"
  "outval demo_outputs ''cluster_name'' d = JStr ''cluster_name''" "outval demo_outputs ''region'' d = JStr ''region''"
  "outval demo_outputs ''ecr_backend_url'' d = JStr ''ecr_backend_url''"
  "outval demo_outputs ''ecr_admin_ui_url'' d = JStr ''ecr_admin_ui_url''"
  by (simp_all add: outval_def demo_outputs_def)

lemma demo_jget: "jget (JObj (map (\<lambda>(k, v). (k, JObj [(''value'', v)])) demo_outputs)) ''Arn'' d = Inr d"
  by (simp add: jget_def demo_outputs_def)

lemmas demo_simps = demo_answers demo_text demo_values demo_jget demo_result_def

lemma demo_preflight: "succeeds (preflight demo_shell (Passed None) (Passed None) False) True"
  unfolding preflight_def tools_def check_aws_credentials_def check_aws_region_def check_tool_def check_tools.simps
  by (rule succeeds_intros | simp add: demo_simps list_all_iff)+

lemma demo_terraform_outputs [succeeds_intros]: "succeeds (get_terraform_outputs demo_shell) demo_outputs"
proof -
  have "output_values (map (\<lambda>(k, v). (k, JObj [(''value'', v)])) d) = Inr d" for d
    by (induction d) (auto simp: jget_def)
  note vals = this
  show ?thesis
    unfolding get_terraform_outputs_def by (rule succeeds_intros | simp add: demo_simps vals)+
qed

lemma demo_terraform:
  "succeeds (terraform demo_shell env (Passed False) True False (Passed None) (Passed None)) True"
  unfolding terraform_def write_env_file_def
  by (rule succeeds_intros | simp add: demo_simps)+

lemma demo_kubeconfig: "succeeds (kubeconfig demo_shell env (Passed None) (Passed None)) True"
  unfolding kubeconfig_def
  by (rule succeeds_intros | simp add: demo_simps Let_def)+

lemma demo_images: "succeeds (images demo_shell True None (Passed None) (Passed None)) True"
  unfolding images_def image_tag_def ecr_login_def docker_build_def docker_push_def
  by (rule succeeds_intros | simp add: demo_simps Let_def present_def)+

lemma succeeds_wait [succeeds_intros]:
  assumes "succeeds check True" "0 < timeout"
  shows "succeeds (wait_for_condition check timeout interval) True"
  unfolding wait_for_condition_def diff_less_eq add.commute [of timeout]
  by (rule succeeds_poll, rule succeeds_andthen, rule assms(1)) (simp_all add: succeeds_return assms(2))

lemma demo_apps [succeeds_intros]: "succeeds (wait_for_apps demo_shell 900) True"
  unfolding wait_for_apps_def
  by (rule succeeds_poll, rule succeeds_andthen, rule succeeds_command) (simp_all add: demo_simps succeeds_return)

lemma demo_deploy: "succeeds (deploy demo_shell (Some GITHUB_REPO_URL) False) True"
proof -
  have "GITHUB_REPO_URL \<noteq> []" by (simp add: GITHUB_REPO_URL_def)
  then show ?thesis
    unfolding deploy_def update_argocd_repo_url_def wait_for_argocd_def create_argocd_repo_secret_def
      get_argocd_password_def apply_root_app_def
    by - (rule succeeds_intros | simp add: demo_simps present_def)+
qed

lemma demo_reconcile: "succeeds (reconcile demo_shell ''llm-gateway'' (Passed r) (Passed None) 900 False) True"
proof -
  have "map_of (map (\<lambda>(k, v). (k, JObj [(''value'', v)])) demo_outputs) ''password''
      = Some (JObj [(''value'', JStr ''password'')])"
    by (simp add: demo_outputs_def)
  note password = this
  show ?thesis
    unfolding reconcile_def master_secret_arn_def sync_db_secret_def get_secret_def payload_password_def
      with_password_def force_refresh_def ensure_admin_key_def restart_backend_def ensure_db_def
    by (rule succeeds_intros | simp add: demo_simps password Let_def)+
qed

lemma demo_validate: "succeeds (validate demo_shell) True"
  unfolding validate_def probe_def
  by (rule succeeds_intros | simp add: demo_simps)+

lemma demo_run:
  "succeeds (run_all demo_shell env True None profile (Some ''us-east-1'') False) ()"
  unfolding run_all_def required_def
  by (rule succeeds_intros demo_preflight demo_terraform demo_kubeconfig demo_images demo_deploy demo_reconcile
      demo_validate | simp add: demo_text present_def)+

lemma demo_duration: "0 \<le> sh_duration demo_shell n"
  by (simp add: demo_shell_def)

lemma demo_world_ready: "demo_ready demo_world"
  by (simp add: demo_ready_def demo_world_def load_state_def)

lemma bootstrap_returns_witness:
  "\<exists>r w'. run_all demo_shell Dev True None (Some ''sandbox'') (Some ''us-east-1'') False demo_world = Some (r, w')"
  by (rule bootstrap_returns) (simp add: demo_duration)

lemma bootstrap_uses_profile_witness:
  "\<exists>r w' cs. run_all demo_shell Dev True None (Some ''sandbox'') (Some ''us-east-1'') False demo_world = Some (r, w')
    \<and> history w' = history demo_world @ cs \<and> list_all (\<lambda>c. profile_environ ''sandbox'' (cmd_environ c)) cs"
  by (rule bootstrap_uses_profile) (simp_all add: demo_duration)

lemma bootstrap_completes_phases_witness:
  "\<exists>w'. run_all demo_shell Dev True None (Some ''sandbox'') (Some ''us-east-1'') False demo_world = Some (Inr (), w')
    \<and> list_all (\<lambda>ph. get_phase_status ph w' = Some ''completed'')
      [''preflight'', ''terraform'', ''kubeconfig'', ''deploy'', ''images'']"
proof -
  from demo_run [of Dev "Some ''sandbox''"] demo_world_ready
  obtain w' where run: "run_all demo_shell Dev True None (Some ''sandbox'') (Some ''us-east-1'') False demo_world
      = Some (Inr (), w')"
    unfolding succeeds_def by blast
  from bootstrap_completes_phases [OF _ run] have "list_all (\<lambda>ph. get_phase_status ph w' = Some ''completed'')
      [''preflight'', ''terraform'', ''kubeconfig'', ''deploy'', ''images'']"
    by (simp add: demo_duration)
  with run show ?thesis by blast
qed

section \<open>Terraform and destruction\<close>

lemma get_phase_status_steps [simp]: "get_phase_status ph (w\<lparr>steps := n\<rparr>) = get_phase_status ph w"
  by (simp add: get_phase_status_def load_state_def)

text \<open>A command that was run is the only one added to the history, and no phase changes.\<close>

lemma run_command_cases:
  obtains (missing) w' where "run_command sh av dir cap chk w = Some (Inl MissingProgram, w')"
      "history w' = history w" "\<And>ph. get_phase_status ph w' = get_phase_status ph w"
  | (halted) c w' where "run_command sh av dir cap chk w = Some (Inl (Exits 1), w')"
      "history w' = history w @ [c]" "argv c = av" "\<And>ph. get_phase_status ph w' = get_phase_status ph w"
  | (ran) r c w' where "run_command sh av dir cap chk w = Some (Inr r, w')"
      "history w' = history w @ [c]" "argv c = av" "\<And>ph. get_phase_status ph w' = get_phase_status ph w"
proof (cases "sh_answer sh (steps w) av")
  case None
  then show ?thesis by (intro missing [of "w\<lparr>steps := Suc (steps w)\<rparr>"]) (simp_all add: run_command_def andthen_def subprocess_run_def get_phase_status_def load_state_def)
next
  case (Some r)
  let ?c = "\<lparr>argv = av, cwd = dir, cmd_environ = environ w, cmd_stdin = NoInput\<rparr>"
  show ?thesis
  proof (cases "chk \<and> returncode r \<noteq> 0")
    case True
    with Some show ?thesis
      by (intro halted [of "executed sh ?c w" ?c]) (simp_all add: run_command_def andthen_def subprocess_run_def executed_def get_phase_status_def load_state_def stop_def)
  next
    case False
    with Some show ?thesis
      by (intro ran [of "if cap then r else r\<lparr>stdout := [], stderr := []\<rparr>" "executed sh ?c w" ?c]) (auto simp: run_command_def andthen_def subprocess_run_def executed_def get_phase_status_def load_state_def return_def)
  qed
qed

lemma update_phase_runs:
  obtains w' where "update_phase sh ph st d w = Some (Inr (), w')" "history w' = history w"
    "get_phase_status ph w' = Some st"
  by (rule that [OF update_phase_eq]) (simp_all add: get_phase_status_def load_state_def dict_simps)

text \<open>C18. Terraform changes no infrastructure without approval: with \<open>--plan\<close>, or without
  \<open>--auto-approve\<close> and an operator who does not confirm, the only commands run are \<open>init\<close> and
  \<open>plan\<close>, in this order, and the phase is not recorded as completed.\<close>

theorem terraform_needs_approval:
  assumes "plan_only \<or> \<not> auto_approve \<and> (\<forall>n. \<not> sh_confirm sh n)"
  shows "\<exists>r w' cs. terraform sh env (Passed plan_only) auto_approve destr (Passed profile) (Passed region) w = Some (r, w')
    \<and> history w' = history w @ cs
    \<and> prefix (map argv cs) [[''terraform'', ''init'', ''-upgrade''],
        [''terraform'', ''plan'', ''-var-file=environments/'' @ env_value env @ ''.tfvars'', ''-out=tfplan'']
          @ (if destr then [''-destroy''] else [])]
    \<and> get_phase_status ''terraform'' w' \<in> {Some ''in_progress'', Some ''failed''}"
proof -
  let ?init = "[''terraform'', ''init'', ''-upgrade'']"
  let ?plan = "[''terraform'', ''plan'', ''-var-file=environments/'' @ env_value env @ ''.tfvars'', ''-out=tfplan'']
      @ (if destr then [''-destroy''] else [])"
  obtain w1 where 1: "apply_aws_profile (Passed profile) (Passed region) w = Some (Inr (), w1)" "history w1 = history w"
    by (rule apply_aws_profile_passed)
  obtain w2 where 2: "update_phase sh ''terraform'' ''in_progress'' [] w1 = Some (Inr (), w2)" "history w2 = history w1"
      "get_phase_status ''terraform'' w2 = Some ''in_progress''"
    by (rule update_phase_runs)
  note start = 1 2 terraform_def andthen_def
  show ?thesis
  proof (cases rule: run_command_cases [of sh ?init "Some ''terraform''" False True w2])
    case (ran r c w3)
    show ?thesis
    proof (cases "sh_exists sh (''terraform/environments/'' @ env_value env @ ''.tfvars'')")
      case False
      obtain w4 where "update_phase sh ''terraform'' ''failed'' [] w3 = Some (Inr (), w4)" "history w4 = history w3"
          "get_phase_status ''terraform'' w4 = Some ''failed''"
        by (rule update_phase_runs)
      with ran False show ?thesis by (simp add: start return_def)
    next
      case exists: True
      show ?thesis
      proof (cases rule: run_command_cases [of sh ?plan "Some ''terraform''" False True w3])
        case plan: (ran r' c' w4)
        with ran exists assms show ?thesis
          by (cases plan_only) (simp_all add: start return_def step_def)
      qed (use ran exists in \<open>simp_all add: start\<close>)
    qed
  qed (simp_all add: start)
qed

lemma terraform_needs_approval_witness:
  "\<exists>r w' cs. terraform demo_shell Prod (Passed True) False True (Passed None) (Passed None) demo_world = Some (r, w')
    \<and> history w' = history demo_world @ cs
    \<and> prefix (map argv cs) [[''terraform'', ''init'', ''-upgrade''],
        [''terraform'', ''plan'', ''-var-file=environments/'' @ env_value Prod @ ''.tfvars'', ''-out=tfplan'']
          @ (if True then [''-destroy''] else [])]
    \<and> get_phase_status ''terraform'' w' \<in> {Some ''in_progress'', Some ''failed''}"
  by (rule terraform_needs_approval) simp

text \<open>C24. \<open>destroy\<close> cannot destroy anything: once confirmed it always ends in a \<open>TypeError\<close> before it
  runs a command, and it leaves the state file and the environment as they were. (It calls
  \<open>terraform\<close> directly without \<open>profile\<close>, which is then typer's \<open>OptionInfo\<close> object.)\<close>

theorem destroy_never_destroys:
  "\<exists>r w'. destroy sh env force w = Some (r, w')
    \<and> r \<in> (if force then {Inl (Throws TypeError)} else {Inr False, Inl (Throws TypeError)})
    \<and> history w' = history w \<and> state_file w' = state_file w \<and> environ w' = environ w"
proof -
  have "terraform sh env pl au de OptionInfo rg v = Some (Inl (Throws TypeError), v)" for pl au de rg v
    by (simp add: terraform_def apply_aws_profile_def andthen_def stop_def)
  then show ?thesis
    by (auto simp: destroy_def destroy_confirmed_def andthen_def return_def step_def)
qed

end
