(* ===== verification/Waiting.thy ===== *)
theory Waiting
  imports Bootstrap_Props
begin

text \<open>
  The waiting loops of \<open>RUNME.py\<close> in time: when they give up, when they stop, and what a success
  rests on.
\<close>

section \<open>Timing of a loop\<close>

lemma poll_loop_timing:
  assumes "poll_loop go body w = Some (r, w')"
    and body: "\<And>w x w1. body w = Some (x, w1) \<Longrightarrow> now w1 \<le> now w + D"
    and sleeps: "\<And>w t w1. body w = Some (Inr (Inl t), w1) \<Longrightarrow> t \<le> S"
    and go: "\<And>w. go w \<longleftrightarrow> now w < deadline"
    and nonneg: "0 \<le> D" "0 \<le> S"
  shows "now w' \<le> max (now w) (deadline + D + S) \<and> (r = Inr None \<longrightarrow> deadline \<le> now w')
    \<and> (\<forall>x. r = Inr (Some x) \<longrightarrow> (\<exists>w1. body w1 = Some (Inr (Inr x), w')))"
proof -
  define ends where "ends w y \<longleftrightarrow> now (snd y) \<le> max (now w) (deadline + D + S)
      \<and> (fst y = Inr None \<longrightarrow> deadline \<le> now (snd y))
      \<and> (\<forall>x. fst y = Inr (Some x) \<longrightarrow> (\<exists>w1. body w1 = Some (Inr (Inr x), snd y)))" for w :: world and y :: "(halt + 'a option) \<times> world"
  have "go = go \<longrightarrow> body = body \<longrightarrow> ends w (r, w')"
  proof (rule poll_loop.raw_induct [where P = "\<lambda>g b w y. go = g \<longrightarrow> body = b \<longrightarrow> ends w y", OF _ assms(1)], intro impI)
    fix loop :: "(world \<Rightarrow> bool) \<Rightarrow> (seconds + 'a) script \<Rightarrow> world \<Rightarrow> ((halt + 'a option) \<times> world) option" and g b w y
    assume IH: "\<And>g b w y. loop g b w = Some y \<Longrightarrow> go = g \<longrightarrow> body = b \<longrightarrow> ends w y"
      and run: "(if g w then case b w of None \<Rightarrow> None
          | Some r \<Rightarrow> (case fst r of Inl h \<Rightarrow> Some (Inl h, snd r) | Inr (Inr x) \<Rightarrow> Some (Inr (Some x), snd r)
              | Inr (Inl t) \<Rightarrow> loop g b (sleep t (snd r)))
        else Some (Inr None, w)) = Some y"
      and g: "go = g" and b: "body = b"
    show "ends w y"
    proof (cases "go w")
      case False
      with run go [of w] nonneg show ?thesis by (auto simp: g ends_def)
    next
      case True
      then obtain x w1 where x: "body w = Some (x, w1)" using run by (auto simp: g b split: option.splits)
      have t: "now w1 \<le> now w + D" "now w < deadline" using body [OF x] True go by simp_all
      show ?thesis
      proof (cases "\<exists>t. x = Inr (Inl t)")
        case False
        then consider h where "x = Inl h" | v where "x = Inr (Inr v)" by (metis sum.exhaust)
        then show ?thesis using run x True t nonneg by cases (auto simp: g b ends_def)
      next
        case True
        then obtain s where s: "x = Inr (Inl s)" by blast
        have "loop g b (sleep s w1) = Some y" using run x s \<open>go w\<close> by (simp add: g b)
        from IH [OF this, rule_format, OF g b] have "ends (sleep s w1) y" .
        moreover have "now (sleep s w1) \<le> deadline + D + S"
          using sleeps [OF x [unfolded s]] t by (simp add: sleep_def)
        ultimately show ?thesis by (auto simp: ends_def max_def split: if_splits)
      qed
    qed
  qed
  then show ?thesis by (simp add: ends_def)
qed

section \<open>A wait that asks one command\<close>

text \<open>The last command of a world, with the answer it got, if it succeeded.\<close>

definition last_answer :: "shell \<Rightarrow> world \<Rightarrow> string list \<Rightarrow> (string \<Rightarrow> bool) \<Rightarrow> bool" where
  "last_answer sh w av P \<longleftrightarrow> history w \<noteq> [] \<and> argv (last (history w)) = av
     \<and> (case sh_answer sh (steps w - 1) av of None \<Rightarrow> False | Some r \<Rightarrow> returncode r = 0 \<and> P (stdout r))"

lemma run_command_answer:
  assumes "run_command sh av None True False w = Some (x, w')" "\<forall>n. 0 \<le> sh_duration sh n \<and> sh_duration sh n \<le> D"
  shows "now w' \<le> now w + D" "x = Inr r \<Longrightarrow> returncode r = 0 \<and> P (stdout r) \<Longrightarrow> last_answer sh w' av P"
proof -
  have D: "0 \<le> D" using order_trans assms(2) by blast
  show "now w' \<le> now w + D" "x = Inr r \<Longrightarrow> returncode r = 0 \<and> P (stdout r) \<Longrightarrow> last_answer sh w' av P"
    using assms D
    by (auto simp: run_command_def andthen_def subprocess_run_def return_def executed_def last_answer_def
        split: option.splits)
qed

text \<open>A round: ask, succeed if the answer is good, else sleep \<open>f r\<close> seconds.\<close>

definition ask_round :: "shell \<Rightarrow> string list \<Rightarrow> (cmd_result \<Rightarrow> bool) \<Rightarrow> (cmd_result \<Rightarrow> seconds) \<Rightarrow> (seconds + unit) script" where
  "ask_round sh av good f =
     andthen (run_command sh av None True False) (\<lambda>r. return (if good r then Inr () else Inl (f r)))"

lemma ask_round_timing:
  assumes run: "ask_round sh av good f w = Some (x, w')"
    and dur: "\<forall>n. 0 \<le> sh_duration sh n \<and> sh_duration sh n \<le> D"
    and good: "\<And>r. good r \<Longrightarrow> returncode r = 0 \<and> P (stdout r)" and S: "\<And>r. f r \<le> S"
  shows "now w' \<le> now w + D" "x = Inr (Inr u) \<Longrightarrow> last_answer sh w' av P" "x = Inr (Inl t) \<Longrightarrow> t \<le> S"
proof -
  obtain y where y: "run_command sh av None True False w = Some (y, w')"
    and x: "x = map_sum id (\<lambda>r. if good r then Inr () else Inl (f r)) y"
    using run by (auto simp: ask_round_def andthen_def return_def split: option.splits sum.splits)
  show "now w' \<le> now w + D" using run_command_answer(1) [OF y dur] .
  show "x = Inr (Inr u) \<Longrightarrow> last_answer sh w' av P"
    using run_command_answer(2) [OF y dur] x good by (cases y) (auto split: if_splits)
  show "x = Inr (Inl t) \<Longrightarrow> t \<le> S" using x S by (cases y) (auto split: if_splits)
qed

lemma ask_rounds:
  assumes run: "poll_loop go (ask_round sh av good f) w = Some (r, w')"
    and dur: "\<forall>n. 0 \<le> sh_duration sh n \<and> sh_duration sh n \<le> D"
    and good: "\<And>r. good r \<Longrightarrow> returncode r = 0 \<and> P (stdout r)" and S: "\<And>r. f r \<le> S" "0 \<le> S"
    and go: "\<And>w. go w \<longleftrightarrow> now w < deadline"
  shows "now w' \<le> max (now w) (deadline + D + S) \<and> (r = Inr None \<longrightarrow> deadline \<le> now w')
    \<and> (r = Inr (Some x) \<longrightarrow> last_answer sh w' av P)"
proof -
  have "0 \<le> D" using order_trans dur by blast
  have round: "now w2 \<le> now w1 + D" "x = Inr (Inr u) \<Longrightarrow> last_answer sh w2 av P" "x = Inr (Inl t) \<Longrightarrow> t \<le> S"
    if "ask_round sh av good f w1 = Some (x, w2)" for w1 w2 x u t
    using ask_round_timing [where P = P, OF that dur good] S(1) by blast+
  have "now w' \<le> max (now w) (deadline + D + S) \<and> (r = Inr None \<longrightarrow> deadline \<le> now w')
    \<and> (\<forall>x. r = Inr (Some x) \<longrightarrow> (\<exists>w1. ask_round sh av good f w1 = Some (Inr (Inr x), w')))"
    by (rule poll_loop_timing [OF run round(1) round(3) [OF _ refl] go \<open>0 \<le> D\<close> S(2)])
  then show ?thesis using round(2) by blast
qed

text \<open>A loop is a wait: \<open>True\<close> when it ended with a result.\<close>

lemma waited:
  assumes "andthen (look now) (\<lambda>start. andthen (poll_loop (g start) b) (\<lambda>r. return (r \<noteq> None))) w = Some (r, w')"
  obtains y where "poll_loop (g (now w)) b w = Some (y, w')" "r = map_sum id (\<lambda>y. y \<noteq> None) y"
  using assms by (auto simp: andthen_def look_def return_def split: option.splits sum.splits intro: that)

lemma waited_result:
  fixes y :: "'h + unit option"
  shows "(map_sum id (\<lambda>y. y \<noteq> None) y = Inr False) = (y = Inr None)"
    and "(map_sum id (\<lambda>y. y \<noteq> None) y = Inr True) = (y = Inr (Some ()))"
  by (cases y; cases "projr y"; auto)+

definition argocd_phase :: "string list" where
  "argocd_phase = [''kubectl'', ''get'', ''pods'', ''-n'', ''argocd'', ''-l'',
     ''app.kubernetes.io/name=argocd-server'', ''-o'', ''jsonpath={.items[0].status.phase}'']"

definition apps_status :: "string list" where
  "apps_status = [''kubectl'', ''get'', ''applications.argoproj.io'', ''-n'', ''argocd'', ''-o'',
     ''jsonpath={range .items[*]}{.metadata.name}={.status.sync.status},{.status.health.status};{end}'']"

lemma andthen_probe:
  "andthen (andthen m (\<lambda>r. return (P r))) (\<lambda>b. return (if b then x else y))
     = andthen m (\<lambda>r. return (if P r then x else y))"
  by (rule ext) (simp add: andthen_def return_def split: option.splits sum.splits prod.splits)

lemma wait_for_argocd_rounds:
  "wait_for_argocd sh = andthen (look now) (\<lambda>start. andthen
     (poll_loop (\<lambda>w. now w - start < 300)
       (ask_round sh argocd_phase (\<lambda>r. returncode r = 0 \<and> contains ''Running'' (stdout r)) (\<lambda>r. 10)))
     (\<lambda>r. return (r \<noteq> None)))"
  unfolding wait_for_argocd_def wait_for_condition_def ask_round_def argocd_phase_def andthen_probe ..

lemma wait_for_apps_rounds:
  "wait_for_apps sh timeout = andthen (look now) (\<lambda>start. andthen
     (poll_loop (\<lambda>w. now w < start + timeout)
       (ask_round sh apps_status (\<lambda>r. returncode r = 0 \<and> converged (stdout r)) (\<lambda>r. if returncode r = 0 then 15 else 10)))
     (\<lambda>r. return (r \<noteq> None)))"
proof -
  have "(\<lambda>r. return (if returncode r \<noteq> 0 then Inl 10 else if converged (stdout r) then Inr () else Inl 15))
    = (\<lambda>r. return (if returncode r = 0 \<and> converged (stdout r) then Inr () else Inl (if returncode r = 0 then 15 else 10 :: seconds)))"
    by (rule ext) simp
  then show ?thesis unfolding wait_for_apps_def ask_round_def apps_status_def by (rule arg_cong)
qed

section \<open>The two waits\<close>

text \<open>
  C17. The bootstrap waits honestly. While it waits for ArgoCD, or for the applications to
  converge, it gives up only after the timeout (300 s, or the one given), and stops at most one
  round late: one command (of at most \<open>D\<close> seconds) and one pause after the deadline. It reports
  success only when the last command it ran had just answered that the ArgoCD server is running,
  or that there are applications and every one of them is synced and healthy.
\<close>

theorem waits_honestly:
  assumes dur: "\<forall>n. 0 \<le> sh_duration sh n \<and> sh_duration sh n \<le> D" and "0 \<le> timeout"
    and argocd: "wait_for_argocd sh w1 = Some (r1, w1')" and apps: "wait_for_apps sh timeout w2 = Some (r2, w2')"
  shows "now w1' \<le> now w1 + 310 + D \<and> (r1 = Inr False \<longrightarrow> now w1 + 300 \<le> now w1')
    \<and> (r1 = Inr True \<longrightarrow> last_answer sh w1' argocd_phase (contains ''Running''))
    \<and> now w2' \<le> now w2 + timeout + 15 + D \<and> (r2 = Inr False \<longrightarrow> now w2 + timeout \<le> now w2')
    \<and> (r2 = Inr True \<longrightarrow> last_answer sh w2' apps_status converged)"
proof -
  have D: "0 \<le> D" using order_trans dur by blast
  obtain y1 where y1: "poll_loop (\<lambda>w. now w - now w1 < 300)
      (ask_round sh argocd_phase (\<lambda>r. returncode r = 0 \<and> contains ''Running'' (stdout r)) (\<lambda>r. 10)) w1 = Some (y1, w1')"
    "r1 = map_sum id (\<lambda>y. y \<noteq> None) y1"
    using argocd unfolding wait_for_argocd_rounds by (rule waited)
  obtain y2 where y2: "poll_loop (\<lambda>w. now w < now w2 + timeout)
      (ask_round sh apps_status (\<lambda>r. returncode r = 0 \<and> converged (stdout r)) (\<lambda>r. if returncode r = 0 then 15 else 10)) w2
      = Some (y2, w2')" "r2 = map_sum id (\<lambda>y. y \<noteq> None) y2"
    using apps unfolding wait_for_apps_rounds by (rule waited)
  have 1: "now w1' \<le> max (now w1) (now w1 + 300 + D + 10) \<and> (y1 = Inr None \<longrightarrow> now w1 + 300 \<le> now w1')
      \<and> (y1 = Inr (Some ()) \<longrightarrow> last_answer sh w1' argocd_phase (contains ''Running''))"
    by (rule ask_rounds [OF y1(1) dur]) auto
  have 2: "now w2' \<le> max (now w2) (now w2 + timeout + D + 15) \<and> (y2 = Inr None \<longrightarrow> now w2 + timeout \<le> now w2')
      \<and> (y2 = Inr (Some ()) \<longrightarrow> last_answer sh w2' apps_status converged)"
    by (rule ask_rounds [OF y2(1) dur]) auto
  have "(r1 = Inr False) = (y1 = Inr None)" "(r1 = Inr True) = (y1 = Inr (Some ()))"
    "(r2 = Inr False) = (y2 = Inr None)" "(r2 = Inr True) = (y2 = Inr (Some ()))"
    unfolding y1(2) y2(2) by (rule waited_result)+
  with 1 2 D \<open>0 \<le> timeout\<close> show ?thesis by auto
qed


theorem waits_honestly_witness:
  "\<exists>w1 w2. wait_for_argocd demo_shell demo_world = Some (Inr True, w1) \<and> wait_for_apps demo_shell 900 demo_world = Some (Inr True, w2)
    \<and> now w1 \<le> 311 \<and> now w2 \<le> 916
    \<and> last_answer demo_shell w1 argocd_phase (contains ''Running'') \<and> last_answer demo_shell w2 apps_status converged"
proof -
  have dur: "\<forall>n. 0 \<le> sh_duration demo_shell n \<and> sh_duration demo_shell n \<le> 1" by (simp add: demo_shell_def)
  have "succeeds (wait_for_argocd demo_shell) True"
    unfolding wait_for_argocd_def
    by (rule succeeds_wait, rule succeeds_andthen, rule succeeds_command) (simp_all add: demo_simps succeeds_return)
  then obtain w1 where w1: "wait_for_argocd demo_shell demo_world = Some (Inr True, w1)"
    using demo_world_ready unfolding succeeds_def by blast
  obtain w2 where w2: "wait_for_apps demo_shell 900 demo_world = Some (Inr True, w2)"
    using demo_apps demo_world_ready unfolding succeeds_def by blast
  from waits_honestly [OF dur _ w1 w2] w1 w2 show ?thesis by (auto simp: demo_world_def)
qed

end
