(* ===== verification/Spec2Isabelle.thy ===== *)
theory Spec2Isabelle
  imports Startup Redis_Limit Overspend Token_Overrun Progress Isolation Waiting
begin

text \<open>
  A verification of the LLM gateway, an OpenAI-compatible HTTP service that routes chat
  completions to several providers, and of the script that brings the service up on a cluster.
  Python paths below are under \<open>app/backend/src/\<close>; \<open>RUNME.py\<close> lies at the root of the repository.

  \<^bold>\<open>How the program works.\<close> A request to \<open>/v1/chat/completions\<close> is authenticated (key store, rate
  limiter, budget), checked against the models the tenant may use, cleaned of personal data,
  looked up in the response cache, and on a miss routed: the requested model resolves to a chain of
  (provider, model) pairs, which are tried in order under the circuit breaker of each provider.
  The answer is stored in the cache, charged to the tenant (token window, usage table, budget
  cache, metrics) and returned, as one JSON value or as an event stream. The operator's endpoints
  create and revoke keys and report usage. \<open>RUNME.py\<close> runs external commands phase by phase
  (preflight, Terraform, kubeconfig, images, ArgoCD deployment, reconciliation, validation) and
  keeps a state file.

  \<^bold>\<open>Theories, in the order of the imports.\<close>
  \<^item> \<open>Prelude\<close>, \<open>Py_Strings\<close>, \<open>Json\<close>, \<open>Json_Dump\<close>: Python dictionaries in insertion order, rounding,
    string classes, JSON values with the operations the code applies to them, \<open>json.dumps\<close>.
    \<open>Json_Inj\<close>: \<open>json.dumps\<close> with sorted keys is injective up to the order of keys.
  \<^item> \<open>Schemas\<close> (api/schemas.py), \<open>Config\<close> (core/config.py), \<open>Pricing\<close> (providers/pricing.py).
  \<^item> \<open>Breaker\<close>, \<open>Registry\<close> (providers/registry.py): the circuit breaker as a state machine over
    events with clock readings, the registry and the selection of providers for a model.
  \<^item> \<open>Provider_API\<close> (providers/base.py), \<open>Bedrock\<close>, \<open>OpenAI\<close>: the interface of a provider, request
    bodies, response parsing, and the classification of errors into retryable and final ones.
  \<^item> \<open>Routing\<close>, \<open>Router\<close> (routing/policies.py, routing/router.py): resolution of a model to a chain
    and the loop over it, with breaker updates, recorded attempts and both outcomes. \<open>Failover\<close>:
    a healthy provider on the chain is reached when those before it fail retryably.
  \<^item> \<open>Tenants\<close> (auth/models.py, auth/keystore.py), \<open>Rate_Limit\<close> (auth/ratelimit.py), \<open>Redis_Limit\<close>
    (its Redis variant), \<open>Usage\<close>
    (usage/repository.py, usage/models.py), \<open>Budget\<close> (auth/budget.py), \<open>Admission\<close> (checking
    before and charging after a request, in general), \<open>Auth\<close> (auth/dependencies.py), \<open>Db_Url\<close>
    (usage/db.py: the URL), \<open>Startup\<close> (main.py, the engine of
    usage/db.py, the AWS client, the settings and the other objects made at first use).
  \<^item> \<open>Regex\<close>, \<open>Guardrails\<close> (middleware/guardrails.py): Python's backtracking matcher for the patterns
    that occur, and redaction. \<open>Embeddings\<close> (middleware/embeddings.py), \<open>Cache_Key\<close>, \<open>Cache\<close>
    (middleware/cache.py).
  \<^item> \<open>Metrics\<close> (observability/metrics.py, tracing.py), \<open>Sse\<close> and \<open>Routes\<close> (api/routes.py): the
    endpoint as a composition of stages over the state of the process, \<open>Gateway\<close>: what holds of
    the whole endpoint. \<open>Admin\<close> (api/admin.py). \<open>Process\<close>: the shape of every part of the state, and
    that the stages keep it; \<open>Service\<close>: the four kinds of calls and the states a process reaches;
    \<open>Isolation\<close>: what a call leaves alone.
  \<^item> \<open>Coroutine\<close>: the same endpoints once more, as coroutines that are suspended where the \<open>async\<close> code
    really waits (the query of the budget check, the call of a provider, the insertion of the usage
    row) and hold in between what their frame holds; run alone they are the handlers of \<open>Routes\<close>.
    \<open>Interleaving\<close>: a process with any number of them, resumed in any order, with calls of the
    operator in between. \<open>Progress\<close>: how many resumptions a request needs. \<open>Step_Effects\<close>: what a resumption changes, and the clock; \<open>Load_Books\<close>,
    \<open>Overspend\<close>, \<open>Token_Overrun\<close>: books, budget and token limit under load; \<open>Load_Demo\<close>: a concrete load.
  \<^item> \<open>Script\<close>, \<open>Bootstrap\<close>, \<open>Deploy\<close> (RUNME.py): scripts as functions on a world that records every
    command; \<open>Script_Logic\<close>, \<open>Bootstrap_Props\<close>: total correctness of scripts and of the bootstrap.
    \<open>Waiting\<close>: the waiting loops in time.

  \<^bold>\<open>What is shown.\<close>
  \<^item> The endpoint charges every answered request exactly once and everywhere the same amount; an
    answer from the cache was computed earlier for a request with the same key; no text that
    matches a pattern for personal data reaches a provider; an event stream is well formed and
    carries the text of the answer unchanged.
  \<^item> The service is type sound: from its start, through any calls and any interleaving of the requests
    in flight, its state conforms to its types,
    every answer and HTTP error has the declared shape, and internal errors have three named causes;
    the metrics and the usage table differ exactly by the requests between the two bookings; every request is answered after a number of resumptions that only
    depends on the registered providers;
    a client within its limits is answered while one provider is healthy; no call touches the
    limits, books or counters of another tenant.
  \<^item> Routing never substitutes a model the request did not name, reports its attempts and errors
    exactly, skips providers with an open circuit, and keeps the failure counts of the breakers.
  \<^item> The gate answers 401, 429, 402 or lets the tenant pass, by an explicit verdict; the key store
    and both windows of the limiter refine histories of calls; at most the limit is admitted per
    minute; the budget with its cache decides as the table would, and interleaved requests overrun it,
    and the token limit, by at most the price (the tokens) of those in flight.
  \<^item> The Redis limiter decides as the complete history for one caller at a time, and is not atomic
    for two.
  \<^item> The caches return the last value written under a key while it is fresh, evict the least
    recently used entry, and find a nearest neighbour; the cache key identifies exactly the
    requests that agree on the fields it covers.
  \<^item> Regular expressions: what a match consumes and needs, hence that redaction leaves no match.
  \<^item> The bootstrap returns, runs everything under the requested profile, records the phases it
    completed, applies no unapproved Terraform plan; and \<open>destroy\<close> never destroys. Its waits end
    within a round of their timeout, and succeed only on the answer they wait for.

  \<^bold>\<open>Interfaces.\<close> Where a component relies on another, the contract is a locale, interpreted on
  the model's own definitions: \<open>provider_contract\<close> and \<open>contained_provider\<close> (what the router assumes of a provider),
  \<open>key_directory\<close> (the key store), \<open>rate_limiter\<close>, \<open>cost_ledger\<close> (the repository under the budget
  cache), \<open>cache_backend\<close>, \<open>embedder\<close>, \<open>sorted_sets\<close> (Redis; interpreted on a reference store), \<open>late_charging\<close>
  (resources that are checked before and charged after a request), and
  \<open>bootstrap_invariant\<close> (properties of worlds the phases of the bootstrap keep).

  \<^bold>\<open>Conventions.\<close> Floats are \<open>real\<close>, integers \<open>int\<close>, strings lists of characters with code points
  below 256, dictionaries association lists in insertion order. Readings of the clock are arguments, or
  functions of a counter where a handler reads it several times. Code outside the repository
  (boto3, httpx, Redis, SHA-256, BLAKE2, uuid, \<open>repr\<close> of floats, Prometheus, OpenTelemetry,
  the commands of the bootstrap) is a parameter. Error messages are constructors that carry the
  interpolated values. Exceptions are values of a sum type; text fields of upstream answers
  that are no strings end in \<open>TypeError\<close>. The theories of the handlers treat one request at a time; requests in
  flight at the same time are treated from \<open>Interleaving\<close> on (where \<open>K\<close> bounds the price or the tokens of a completion,
  \<open>m\<close> is the highest number of requests in flight along the run, and \<open>S\<close> what is booked while a budget query
  waits), and in the races of \<open>Redis_Limit\<close>.

  \<^bold>\<open>Bounds.\<close> Every loop of the service runs over a list and is a structural recursion; the matcher
  and the substitution terminate on the length of the text. The waiting loops of the bootstrap
  may run for ever in principle, so \<open>poll_loop\<close> is a partial function into \<open>option\<close>; that it
  returns is proved from the deadline, as each round sleeps at least a second.

  \<^bold>\<open>Not modelled.\<close> What the libraries do with the configuration \<open>main.py\<close> gives them; logging and
  terminal output have no result; a budget query that raises, and requests that are cancelled while they
  wait; suspensions inside the Redis limiter when it serves the endpoint (its races are treated on
  their own); several processes over one database; the admin UI, Terraform,
  Helm and ArgoCD files are not Python.
\<close>

end
